(* ===== verification/Prelude.thy ===== *)
theory Prelude
  imports Main "HOL-Library.Word"
begin

text \<open>
  Shared vocabulary of the development: the value a Rust function ends with (a result or a
  panic), the state-passing form of the program's effectful functions, and the generic facts
  about lists and association lists that the components share.
\<close>

section \<open>Outcomes\<close>

text \<open>
  A Rust function that returns \<^verbatim>\<open>Result<T, E>\<close> ends in one of three ways: \<open>Ok\<close>, \<open>Err\<close>, or a
  panic (\<^verbatim>\<open>unwrap\<close> on \<^verbatim>\<open>None\<close>, \<^verbatim>\<open>expect\<close>, \<^verbatim>\<open>unreachable!\<close>), whose message is kept.
\<close>

datatype ('e, 'a) outcome = Ok 'a | Err 'e | Panic string

primrec and_then :: "('e, 'a) outcome \<Rightarrow> ('a \<Rightarrow> ('e, 'b) outcome) \<Rightarrow> ('e, 'b) outcome" where
  "and_then (Ok a) f = f a"
| "and_then (Err e) f = Err e"
| "and_then (Panic p) f = Panic p"

primrec map_err :: "('e \<Rightarrow> 'f) \<Rightarrow> ('e, 'a) outcome \<Rightarrow> ('f, 'a) outcome" where
  "map_err f (Ok a) = Ok a"
| "map_err f (Err e) = Err (f e)"
| "map_err f (Panic p) = Panic p"

primrec is_panic :: "('e, 'a) outcome \<Rightarrow> bool" where
  "is_panic (Ok a) = False"
| "is_panic (Err e) = False"
| "is_panic (Panic p) = True"

text \<open>The Rust \<^verbatim>\<open>Option::ok_or_else\<close> and \<^verbatim>\<open>Option::unwrap\<close>.\<close>

definition ok_or :: "'e \<Rightarrow> 'a option \<Rightarrow> ('e, 'a) outcome" where
  "ok_or e x = (case x of Some a \<Rightarrow> Ok a | None \<Rightarrow> Err e)"

definition unwrap :: "'a option \<Rightarrow> ('e, 'a) outcome" where
  "unwrap x = (case x of Some a \<Rightarrow> Ok a
     | None \<Rightarrow> Panic ''called `Option::unwrap()` on a `None` value'')"

lemma ok_or_simps [simp]: "ok_or e (Some a) = Ok a" "ok_or e None = Err e"
  by (simp_all add: ok_or_def)

lemma unwrap_Some [simp]: "unwrap (Some a) = Ok a"
  by (simp add: unwrap_def)

lemma is_panic_unwrap [simp]: "is_panic (unwrap x) \<longleftrightarrow> x = None"
  by (simp add: unwrap_def split: option.split)

lemma with_fst: "fst x = a \<Longrightarrow> x = (a, snd x)"
  by (cases x) simp

lemma and_then_OkE:
  assumes "and_then r f = Ok b"
  obtains a where "r = Ok a" and "f a = Ok b"
  using assms by (cases r) auto

lemma map_err_eq_iff [simp]:
  "map_err f r = Ok a \<longleftrightarrow> r = Ok a"
  "map_err f r = Panic p \<longleftrightarrow> r = Panic p"
  by (cases r; simp)+

section \<open>Operations on a state\<close>

text \<open>
  An operation takes the state and returns how it ended with the state it left. \<open>bind_op\<close> is the
  \<^verbatim>\<open>?\<close> operator between two steps: an error or a panic of the first ends the whole operation, in
  the state reached so far.
\<close>

type_synonym ('s, 'e, 'a) op = "'s \<Rightarrow> ('e, 'a) outcome \<times> 's"

definition ret :: "'a \<Rightarrow> ('s, 'e, 'a) op" where
  "ret a = (\<lambda>s. (Ok a, s))"

definition throw :: "'e \<Rightarrow> ('s, 'e, 'a) op" where
  "throw e = (\<lambda>s. (Err e, s))"

definition lift_outcome :: "('e, 'a) outcome \<Rightarrow> ('s, 'e, 'a) op" where
  "lift_outcome r = (\<lambda>s. (r, s))"

definition bind_op :: "('s, 'e, 'a) op \<Rightarrow> ('a \<Rightarrow> ('s, 'e, 'b) op) \<Rightarrow> ('s, 'e, 'b) op" where
  "bind_op m f = (\<lambda>s. case m s of
       (Ok a, t) \<Rightarrow> f a t
     | (Err e, t) \<Rightarrow> (Err e, t)
     | (Panic p, t) \<Rightarrow> (Panic p, t))"

definition map_err_op :: "('e \<Rightarrow> 'f) \<Rightarrow> ('s, 'e, 'a) op \<Rightarrow> ('s, 'f, 'a) op" where
  "map_err_op f m = (\<lambda>s. case m s of (r, t) \<Rightarrow> (map_err f r, t))"

named_theorems op_simps \<open>how the combinators of operations run\<close>

lemma ret_run [op_simps]: "ret a s = (Ok a, s)"
  by (simp add: ret_def)

lemma throw_run [op_simps]: "throw e s = (Err e, s)"
  by (simp add: throw_def)

lemma lift_outcome_run [op_simps]: "lift_outcome r s = (r, s)"
  by (simp add: lift_outcome_def)

lemma bind_op_Ok [op_simps]: "m s = (Ok a, t) \<Longrightarrow> bind_op m f s = f a t"
  by (simp add: bind_op_def)

lemma bind_op_Err [op_simps]: "m s = (Err e, t) \<Longrightarrow> bind_op m f s = (Err e, t)"
  by (simp add: bind_op_def)

lemma bind_op_Panic [op_simps]: "m s = (Panic p, t) \<Longrightarrow> bind_op m f s = (Panic p, t)"
  by (simp add: bind_op_def)

lemma map_err_op_run [op_simps]: "m s = (r, t) \<Longrightarrow> map_err_op f m s = (map_err f r, t)"
  by (simp add: map_err_op_def)

text \<open>How a composed operation can have ended with success.\<close>

lemma bind_op_OkE:
  assumes "bind_op m f s = (Ok b, u)"
  obtains a t where "m s = (Ok a, t)" and "f a t = (Ok b, u)"
  using assms by (auto simp: bind_op_def split: prod.splits outcome.splits)

lemma bind_op_PanicE:
  assumes "bind_op m f s = (Panic p, u)"
  obtains (first) "m s = (Panic p, u)"
    | (second) a t where "m s = (Ok a, t)" and "f a t = (Panic p, u)"
  using assms by (auto simp: bind_op_def split: prod.splits outcome.splits)

lemma bind_op_ErrE:
  assumes "bind_op m f s = (Err e, u)"
  obtains (first) "m s = (Err e, u)"
    | (second) a t where "m s = (Ok a, t)" and "f a t = (Err e, u)"
  using assms by (auto simp: bind_op_def split: prod.splits outcome.splits)

lemma map_err_op_OkD: "map_err_op f m s = (Ok a, t) \<Longrightarrow> m s = (Ok a, t)"
  by (auto simp: map_err_op_def split: prod.splits)

lemma map_err_op_PanicD: "map_err_op f m s = (Panic p, t) \<Longrightarrow> m s = (Panic p, t)"
  by (auto simp: map_err_op_def split: prod.splits)

lemma map_err_op_ErrE:
  assumes "map_err_op f m s = (Err e, t)"
  obtains e' where "m s = (Err e', t)" and "e = f e'"
  using assms by (cases "m s"; cases "fst (m s)") (auto simp: map_err_op_def)

section \<open>Strings and lists\<close>

text \<open>
  A byte is a HOL \<^typ>\<open>char\<close> (8 bits), so a Rust \<^verbatim>\<open>String\<close>, \<^verbatim>\<open>&str\<close> or \<^verbatim>\<open>&[u8]\<close> is a
  \<^typ>\<open>string\<close>: its UTF-8 bytes.
\<close>

type_synonym bytes = string

fun starts_with :: "'a list \<Rightarrow> 'a list \<Rightarrow> bool" where
  "starts_with [] ys = True"
| "starts_with (x # xs) [] = False"
| "starts_with (x # xs) (y # ys) = (x = y \<and> starts_with xs ys)"

definition ends_with :: "'a list \<Rightarrow> 'a list \<Rightarrow> bool" where
  "ends_with suf xs = starts_with (rev suf) (rev xs)"

lemma starts_with_iff: "starts_with xs ys \<longleftrightarrow> (\<exists>zs. ys = xs @ zs)"
  by (induction xs ys rule: starts_with.induct) auto

lemma starts_with_append [simp]: "starts_with xs (xs @ ys)"
  by (auto simp: starts_with_iff)

lemma ends_with_iff: "ends_with suf xs \<longleftrightarrow> (\<exists>zs. xs = zs @ suf)"
proof
  assume "ends_with suf xs"
  then obtain zs where "rev xs = rev suf @ zs"
    by (auto simp: ends_with_def starts_with_iff)
  then have "xs = rev zs @ suf"
    by (metis rev_append rev_rev_ident)
  then show "\<exists>zs. xs = zs @ suf" ..
next
  assume "\<exists>zs. xs = zs @ suf"
  then show "ends_with suf xs"
    by (auto simp: ends_with_def starts_with_iff)
qed

lemma map_of_sort_key:
  assumes "distinct (map fst xs)"
  shows "map_of (sort_key f xs) = map_of xs"
proof -
  have "distinct (map fst (sort_key f xs))"
    using assms by (simp add: distinct_map)
  then show ?thesis
    using assms by (intro map_of_inject_set [THEN iffD2]) simp_all
qed

text \<open>Where a list occurs in another.\<close>

fun occurs :: "'a list \<Rightarrow> 'a list \<Rightarrow> bool" where
  "occurs pat [] \<longleftrightarrow> pat = []"
| "occurs pat (c # cs) \<longleftrightarrow> starts_with pat (c # cs) \<or> occurs pat cs"

lemma occurs_prefix: "occurs pat (pat @ r)"
  using starts_with_append [of pat r] by (cases "pat @ r") (auto simp del: starts_with_append)

lemma occurs_iff: "occurs pat s \<longleftrightarrow> (\<exists>p r. s = p @ pat @ r)"
proof
  show "occurs pat s \<Longrightarrow> \<exists>p r. s = p @ pat @ r"
  proof (induction s)
    case (Cons c cs)
    then show ?case
      by (metis append_Cons append_Nil occurs.simps(2) starts_with_iff)
  qed simp
  have "occurs pat (p @ pat @ r)" for p r
    by (induction p) (simp_all add: occurs_prefix)
  then show "\<exists>p r. s = p @ pat @ r \<Longrightarrow> occurs pat s"
    by blast
qed

lemma occurs_trans: "occurs a b \<Longrightarrow> occurs b c \<Longrightarrow> occurs a c"
  unfolding occurs_iff by (metis append.assoc)

end
