(* ===== verification/Util.thy ===== *)
theory Util
  imports Prelude
begin

text \<open>
  The helpers of \<^verbatim>\<open>src/util.rs\<close>: the reinterpretation of an unsigned 64-bit integer as a signed
  one by its native-endian bytes, the clock, random identifiers, and the conversion of an arbitrary
  error into a given error type by a chain of downcasts.
\<close>

section \<open>Sixty-four-bit integers\<close>

text \<open>
  Both Rust types have the same 64 bits; an \<open>u64\<close> is read by \<^const>\<open>uint\<close>, an \<open>i64\<close> by
  \<^const>\<open>sint\<close> (two's complement). Arithmetic wraps, as in the release profile.
\<close>

type_synonym u64 = "64 word"
type_synonym i64 = "64 word"
type_synonym u8 = "8 word"

datatype endian = Little | Big

definition le_bytes :: "64 word \<Rightarrow> u8 list" where
  "le_bytes w = map (\<lambda>i. ucast (drop_bit (8 * i) w)) [0..<8]"

definition of_le_bytes :: "u8 list \<Rightarrow> 64 word" where
  "of_le_bytes bs = foldr (\<lambda>b acc. ucast b + push_bit 8 acc) bs 0"

definition to_ne_bytes :: "endian \<Rightarrow> 64 word \<Rightarrow> u8 list" where
  "to_ne_bytes e w = (case e of Little \<Rightarrow> le_bytes w | Big \<Rightarrow> rev (le_bytes w))"

definition from_ne_bytes :: "endian \<Rightarrow> u8 list \<Rightarrow> 64 word" where
  "from_ne_bytes e bs = (case e of Little \<Rightarrow> of_le_bytes bs | Big \<Rightarrow> of_le_bytes (rev bs))"

definition to_i64 :: "endian \<Rightarrow> u64 \<Rightarrow> i64" where
  "to_i64 e val = from_ne_bytes e (to_ne_bytes e val)"

definition to_u64 :: "endian \<Rightarrow> i64 \<Rightarrow> u64" where
  "to_u64 e val = from_ne_bytes e (to_ne_bytes e val)"

lemma bytes_step: "ucast (ucast w :: u8) + push_bit 8 (drop_bit 8 w) = (w :: 64 word)"
proof -
  have "ucast (ucast w :: u8) = (take_bit 8 w :: 64 word)"
    by (rule bit_word_eqI) (auto simp: bit_simps)
  then show ?thesis
    by (metis add.commute bits_ident)
qed

lemma of_le_bytes_le_bytes: "of_le_bytes (le_bytes w) = w"
proof -
  have top: "drop_bit 64 w = 0"
    by (rule bit_word_eqI) (auto simp: bit_simps)
  have fold: "foldr (\<lambda>b acc. ucast b + push_bit 8 acc)
      (map (\<lambda>i. ucast (drop_bit (8 * i) w) :: u8) [8 - n..<8]) 0 = drop_bit (64 - 8 * n) w"
    if "n \<le> 8" for n
    using that
  proof (induction n)
    case 0
    then show ?case by (simp add: top)
  next
    case (Suc n)
    let ?k = "8 - Suc n"
    have "Suc ?k = 8 - n"
      using Suc.prems by simp
    then have upt: "[?k..<8] = ?k # [8 - n..<8]"
      using Suc.prems by (simp add: upt_conv_Cons del: upt_Suc)
    have k: "8 * ?k = 64 - 8 * Suc n" "64 - 8 * n = 8 + (64 - 8 * Suc n)"
      using Suc.prems by auto
    have "drop_bit (64 - 8 * n) w = drop_bit 8 (drop_bit (64 - 8 * Suc n) w)"
      by (simp only: k(2) drop_bit_drop_bit)
    then have "foldr (\<lambda>b acc. ucast b + push_bit 8 acc)
        (map (\<lambda>i. ucast (drop_bit (8 * i) w) :: u8) [?k..<8]) 0
      = ucast (ucast (drop_bit (8 * ?k) w) :: u8) + push_bit 8 (drop_bit 8 (drop_bit (8 * ?k) w))"
      unfolding upt using Suc k(1) by simp
    then show ?case
      by (simp only: bytes_step k(1))
  qed
  show ?thesis
    using fold [of 8] by (simp add: of_le_bytes_def le_bytes_def)
qed

lemma from_to_ne_bytes [simp]: "from_ne_bytes e (to_ne_bytes e w) = w"
  by (cases e) (simp_all add: from_ne_bytes_def to_ne_bytes_def of_le_bytes_le_bytes)

lemma to_i64_eq [simp]: "to_i64 e w = w"
  by (simp add: to_i64_def)

lemma to_u64_eq [simp]: "to_u64 e w = w"
  by (simp add: to_u64_def)

lemma length_to_ne_bytes [simp]: "length (to_ne_bytes e w) = 8"
  by (cases e) (simp_all add: to_ne_bytes_def le_bytes_def)

lemma sint_word64: "sint (w :: 64 word) = (if uint w < 2 ^ 63 then uint w else uint w - 2 ^ 64)"
proof -
  have range: "0 \<le> uint w" "uint w < 2 ^ 64"
    using uint_lt2p [of w] by simp_all
  have "sint w = signed_take_bit 63 (uint w)"
    by (simp add: sint_uint)
  also have "\<dots> = (uint w + 2 ^ 63) mod 2 ^ 64 - 2 ^ 63"
    by (simp add: signed_take_bit_eq_take_bit_shift take_bit_eq_mod)
  finally have shift: "sint w = (uint w + 2 ^ 63) mod 2 ^ 64 - 2 ^ 63" .
  show ?thesis
  proof (cases "uint w < 2 ^ 63")
    case True
    then have "(uint w + 2 ^ 63) mod 2 ^ 64 = uint w + 2 ^ 63"
      using range by (intro mod_pos_pos_trivial) auto
    with shift True show ?thesis by simp
  next
    case False
    then have "(uint w + 2 ^ 63) mod 2 ^ 64 = uint w + 2 ^ 63 - 2 ^ 64"
      using range minus_mod_self2 [of "uint w + 2 ^ 63" "2 ^ 64"]
      by (simp add: mod_pos_pos_trivial)
    with shift False show ?thesis by simp
  qed
qed

text \<open>Times within the range the clock can give: signed and unsigned readings agree.\<close>

lemma sint_eq_uint_small: "uint (w :: 64 word) < 2 ^ 63 \<Longrightarrow> sint w = uint w"
  by (simp add: sint_word64)

lemma sint_word_of_int_64:
  "- (2 ^ 63) \<le> k \<Longrightarrow> k < 2 ^ 63 \<Longrightarrow> sint (word_of_int k :: 64 word) = k"
  by (simp add: signed_of_int signed_take_bit_int_eq_self)

section \<open>The clock\<close>

definition HOUR_IN_SECONDS :: u64 where
  "HOUR_IN_SECONDS = 3600"

text \<open>
  \<^verbatim>\<open>SystemTime::now().duration_since(UNIX_EPOCH)\<close> fails when the system clock is set before the
  epoch, and the \<^verbatim>\<open>expect\<close> panics. The clock's reading is a parameter: whole seconds since the
  epoch, negative before it.
\<close>

definition now :: "int \<Rightarrow> ('e, u64) outcome" where
  "now clock = (if clock < 0 then Panic ''unix epoch is safe'' else Ok (word_of_int clock))"

lemma now_Ok [simp]: "0 \<le> clock \<Longrightarrow> now clock = Ok (word_of_int clock)"
  by (simp add: now_def)

lemma now_not_Err [simp]: "now clock \<noteq> Err e"
  by (simp add: now_def)

section \<open>Random identifiers\<close>

text \<open>
  \<^verbatim>\<open>Uuid::new_v4().to_simple().to_string()\<close>: the 32 lower-case hexadecimal digits of the random
  128-bit value, most significant first. The value drawn is a parameter.
\<close>

definition hex_digit :: "128 word \<Rightarrow> char" where
  "hex_digit n = ''0123456789abcdef'' ! unat n"

definition to_simple :: "128 word \<Rightarrow> string" where
  "to_simple u = map (\<lambda>i. hex_digit (take_bit 4 (drop_bit (4 * i) u))) (rev [0..<32])"

definition uuid :: "128 word \<Rightarrow> string" where
  "uuid drawn = to_simple drawn"

lemma length_uuid [simp]: "length (uuid u) = 32"
  by (simp add: uuid_def to_simple_def)

lemma nibble_less: "unat (take_bit 4 w :: 128 word) < 16"
proof -
  have "unat (take_bit 4 w) = take_bit 4 (unat w)"
    by (simp add: unsigned_take_bit_eq)
  also have "\<dots> < 2 ^ 4"
    by (rule take_bit_nat_less_exp)
  finally show ?thesis by simp
qed

lemma uuid_digits: "set (uuid u) \<subseteq> set ''0123456789abcdef''"
proof -
  have "hex_digit (take_bit 4 w) \<in> set ''0123456789abcdef''" for w
    unfolding hex_digit_def by (rule nth_mem) (use nibble_less [of w] in simp)
  then show ?thesis
    unfolding uuid_def to_simple_def by auto
qed

lemma hex_digit_inj:
  assumes "hex_digit (take_bit 4 v) = hex_digit (take_bit 4 w)"
  shows "take_bit 4 v = take_bit 4 w"
proof -
  have "distinct ''0123456789abcdef''" by simp
  then have "unat (take_bit 4 v) = unat (take_bit 4 w)"
    using assms nibble_less [of v] nibble_less [of w]
    by (simp add: hex_digit_def nth_eq_iff_index_eq del: distinct.simps)
  then show ?thesis by (rule word_unat_eq_iff [THEN iffD2])
qed

lemma uuid_inj:
  assumes "uuid u = uuid v"
  shows "u = v"
proof (rule bit_word_eqI)
  fix n assume "n < LENGTH(128)"
  then have n: "n div 4 < 32" "4 * (n div 4) + n mod 4 = n" "n mod 4 < 4" by auto
  have "hex_digit (take_bit 4 (drop_bit (4 * i) u)) = hex_digit (take_bit 4 (drop_bit (4 * i) v))"
    if "i < 32" for i
    using assms that unfolding uuid_def to_simple_def map_eq_conv by simp
  then have "take_bit 4 (drop_bit (4 * (n div 4)) u) = take_bit 4 (drop_bit (4 * (n div 4)) v)"
    using n(1) by (blast intro: hex_digit_inj)
  then have "bit (take_bit 4 (drop_bit (4 * (n div 4)) u)) (n mod 4)
      = bit (take_bit 4 (drop_bit (4 * (n div 4)) v)) (n mod 4)"
    by simp
  then show "bit u n = bit v n"
    using n by (simp add: bit_take_bit_iff bit_drop_bit_eq)
qed

section \<open>Errors\<close>

text \<open>
  \<^verbatim>\<open>std::io::Error\<close>: a bare kind, or a kind with a payload, which is represented by the text it
  displays.
\<close>

datatype error_kind = NotFound | InvalidData | UnexpectedEof | AddrInUse | Other

datatype io_error = IoSimple error_kind | IoCustom error_kind string

primrec kind_text :: "error_kind \<Rightarrow> string" where
  "kind_text NotFound = ''entity not found''"
| "kind_text InvalidData = ''invalid data''"
| "kind_text UnexpectedEof = ''unexpected end of file''"
| "kind_text AddrInUse = ''address in use''"
| "kind_text Other = ''other error''"

primrec io_text :: "io_error \<Rightarrow> string" where
  "io_text (IoSimple k) = kind_text k"
| "io_text (IoCustom k p) = p"

text \<open>
  The argument of \<open>error\<close>, by its type as the downcasts see it: the wanted type \<open>'e\<close> itself, an
  \<^verbatim>\<open>IoError\<close>, an \<^verbatim>\<open>anyhow::Error\<close> (which hides a value of one of these types), or any other error
  or string, known by its text.
\<close>

datatype 'e anyhow = AnySelf 'e | AnyIo io_error | AnyOther string

datatype 'e err_input = InSelf 'e | InIo io_error | InAnyhow "'e anyhow" | InOther string

primrec downcast_self :: "'e err_input \<Rightarrow> 'e option" where
  "downcast_self (InSelf e) = Some e"
| "downcast_self (InIo e) = None"
| "downcast_self (InAnyhow a) = None"
| "downcast_self (InOther t) = None"

primrec downcast_io :: "'e err_input \<Rightarrow> io_error option" where
  "downcast_io (InSelf e) = None"
| "downcast_io (InIo e) = Some e"
| "downcast_io (InAnyhow a) = None"
| "downcast_io (InOther t) = None"

primrec downcast_anyhow :: "'e err_input \<Rightarrow> 'e anyhow option" where
  "downcast_anyhow (InSelf e) = None"
| "downcast_anyhow (InIo e) = None"
| "downcast_anyhow (InAnyhow a) = Some a"
| "downcast_anyhow (InOther t) = None"

text \<open>What a value of each type displays; \<open>text\<close> is the \<^verbatim>\<open>Display\<close> of the wanted type.\<close>

primrec anyhow_text :: "('e \<Rightarrow> string) \<Rightarrow> 'e anyhow \<Rightarrow> string" where
  "anyhow_text text (AnySelf e) = text e"
| "anyhow_text text (AnyIo e) = io_text e"
| "anyhow_text text (AnyOther t) = t"

primrec input_text :: "('e \<Rightarrow> string) \<Rightarrow> 'e err_input \<Rightarrow> string" where
  "input_text text (InSelf e) = text e"
| "input_text text (InIo e) = io_text e"
| "input_text text (InAnyhow a) = anyhow_text text a"
| "input_text text (InOther t) = t"

text \<open>
  \<open>from_io\<close> is the \<^verbatim>\<open>From<IoError>\<close> of the wanted type. \<open>anyhow_self\<close> and \<open>anyhow_io\<close> are
  \<^verbatim>\<open>anyhow::Error::downcast\<close>.
\<close>

definition anyhow_self :: "'e anyhow \<Rightarrow> 'e option" where
  "anyhow_self a = (case a of AnySelf e \<Rightarrow> Some e | _ \<Rightarrow> None)"

definition anyhow_io :: "'e anyhow \<Rightarrow> io_error option" where
  "anyhow_io a = (case a of AnyIo e \<Rightarrow> Some e | _ \<Rightarrow> None)"

definition error :: "('e \<Rightarrow> string) \<Rightarrow> (io_error \<Rightarrow> 'e) \<Rightarrow> 'e err_input \<Rightarrow> 'e" where
  "error text from_io err =
     (case downcast_self err of
        Some e \<Rightarrow> e
      | None \<Rightarrow>
         (case downcast_io err of
            Some e \<Rightarrow> from_io e
          | None \<Rightarrow>
             (case downcast_anyhow err of
                Some a \<Rightarrow>
                  (case anyhow_self a of
                     Some e \<Rightarrow> e
                   | None \<Rightarrow>
                      from_io (case anyhow_io a of
                         Some e \<Rightarrow> e
                       | None \<Rightarrow> IoCustom Other (anyhow_text text a)))
              | None \<Rightarrow> from_io (IoCustom Other (input_text text err)))))"

lemma error_simps [simp]:
  "error text from_io (InSelf e) = e"
  "error text from_io (InIo i) = from_io i"
  "error text from_io (InAnyhow (AnySelf e)) = e"
  "error text from_io (InAnyhow (AnyIo i)) = from_io i"
  "error text from_io (InAnyhow (AnyOther t)) = from_io (IoCustom Other t)"
  "error text from_io (InOther t) = from_io (IoCustom Other t)"
  by (simp_all add: error_def anyhow_self_def anyhow_io_def)

text \<open>
  The errors the program itself passes around: those of the SQL driver, and \<^verbatim>\<open>anyhow::Error\<close> with
  the type it was made from.
\<close>

datatype sqlx_error =
    Connection_lost
  | Unique_violation string
  | Foreign_key_violation string
  | Value_too_long string

datatype any_err =
    A_Sqlx sqlx_error
  | A_Bcrypt string
  | A_Io io_error
  | A_Acme string
  | A_Join string
  | A_Msg string

end
