(* ===== verification/Config_Listener.thy ===== *)
theory Config_Listener
  imports Util
begin

text \<open>
  \<^verbatim>\<open>src/config/listener.rs\<close>, with the part of serde's data model that the configuration uses: the
  value a deserializer presents, and the visitors the code writes for it. The TOML parser itself is a
  library; a configuration file is the value tree it yields.
\<close>

section \<open>Values and visitors\<close>

text \<open>
  A string is lent to the visitor when it stands in the file as it is (\<open>T_Str\<close>), and handed over as a
  copy when it has escapes (\<open>T_Owned\<close>); a \<^verbatim>\<open>&str\<close> can only be lent.
\<close>

datatype toml =
    T_Str string
  | T_Owned string
  | T_Int int
  | T_Bool bool
  | T_Seq "toml list"
  | T_Map "(string \<times> toml) list"
  | T_Other string

datatype de_error = Invalid_type string | Missing_field string | Custom string

fun de_string :: "toml \<Rightarrow> (de_error, string) outcome" where
  "de_string (T_Str s) = Ok s"
| "de_string (T_Owned s) = Ok s"
| "de_string _ = Err (Invalid_type ''string'')"

fun de_str :: "toml \<Rightarrow> (de_error, string) outcome" where
  "de_str (T_Str s) = Ok s"
| "de_str _ = Err (Invalid_type ''a borrowed string'')"

fun de_bool :: "toml \<Rightarrow> (de_error, bool) outcome" where
  "de_bool (T_Bool b) = Ok b"
| "de_bool _ = Err (Invalid_type ''bool'')"

fun de_u32 :: "toml \<Rightarrow> (de_error, 32 word) outcome" where
  "de_u32 (T_Int i) = (if 0 \<le> i \<and> i < 2 ^ 32 then Ok (word_of_int i) else Err (Invalid_type ''u32''))"
| "de_u32 _ = Err (Invalid_type ''u32'')"

text \<open>\<^verbatim>\<open>SeqAccess::next_element\<close>: the next element, deserialized, with the elements left.\<close>

fun next_element :: "(toml \<Rightarrow> (de_error, 'a) outcome) \<Rightarrow> toml list \<Rightarrow> (de_error, 'a option \<times> toml list) outcome" where
  "next_element de [] = Ok (None, [])"
| "next_element de (v # vs) = and_then (de v) (\<lambda>a. Ok (Some a, vs))"

section \<open>Listeners\<close>

datatype proxy_protocol = Enabled | Disabled

definition de_proxy_protocol :: "toml \<Rightarrow> (de_error, proxy_protocol) outcome" where
  "de_proxy_protocol v = and_then (de_bool v) (\<lambda>b. if b then Ok Enabled else Ok Disabled)"

definition proxy_default :: proxy_protocol where
  "proxy_default = Disabled"

type_synonym listener = "string option \<times> proxy_protocol"

definition listener_default :: listener where
  "listener_default = (None, proxy_default)"

definition listener_visit_str :: "string \<Rightarrow> (de_error, listener) outcome" where
  "listener_visit_str value = Ok (Some value, Disabled)"

definition listener_visit_seq :: "toml list \<Rightarrow> (de_error, listener \<times> toml list) outcome" where
  "listener_visit_seq seq =
     and_then (next_element de_string seq) (\<lambda>(listener, seq).
     and_then (next_element de_proxy_protocol seq) (\<lambda>(proxy, seq).
     Ok ((listener, case proxy of Some p \<Rightarrow> p | None \<Rightarrow> proxy_default), seq)))"

text \<open>
  \<^verbatim>\<open>deserialize_any\<close> dispatches on the value. Whether elements that the visitor left over are an
  error is the deserializer's choice, the parameter \<open>finish\<close>.
\<close>

fun de_listener :: "(toml list \<Rightarrow> (de_error, unit) outcome) \<Rightarrow> toml \<Rightarrow> (de_error, listener) outcome" where
  "de_listener finish (T_Str s) = listener_visit_str s"
| "de_listener finish (T_Owned s) = listener_visit_str s"
| "de_listener finish (T_Seq vs) =
     and_then (listener_visit_seq vs) (\<lambda>(l, rest). and_then (finish rest) (\<lambda>_. Ok l))"
| "de_listener finish _ = Err (Invalid_type ''Listener'')"

section \<open>Documented spellings\<close>

text \<open>The documented ways to write a listener.\<close>

fun listener_values :: "listener \<Rightarrow> toml list" where
  "listener_values (Some a, Enabled) = [T_Seq [T_Str a, T_Bool True]]"
| "listener_values (Some a, Disabled) = [T_Str a, T_Seq [T_Str a], T_Seq [T_Str a, T_Bool False]]"
| "listener_values (None, p) = [T_Seq []]"

text \<open>
  Every documented spelling of a listener with an address is read back as that listener.
\<close>

lemma listener_roundtrip:
  assumes "finish [] = Ok ()"
  shows "map (de_listener finish) (listener_values (Some a, p))
    = replicate (length (listener_values (Some a, p))) (Ok (Some a, p))"
  using assms by (cases p) (simp_all add: listener_visit_str_def listener_visit_seq_def
      de_proxy_protocol_def proxy_default_def numeral_eq_Suc)

end
