(* ===== verification/Api_Serve.thy ===== *)
theory Api_Serve
  imports Config_Listener
begin

text \<open>
  \<^verbatim>\<open>src/api/mod.rs\<close>: the loop that accepts connections and counts them, and the start of the three
  listeners.
\<close>

section \<open>Connections\<close>

text \<open>
  The two metrics of an endpoint, with the connection tasks that run. A connection whose task panics
  does not reach the closure that decrements the gauge. The metrics are unbounded here, where the library
  has a 64-bit counter and gauge; \<open>running\<close> and \<open>crashed\<close> are no data of the program, they count its
  tasks, so that the gauge can be compared with them.
\<close>

record serve_state =
  total_connections :: nat
  open_connections :: int
  running :: nat
  crashed :: nat

definition serve_init :: serve_state where
  "serve_init = \<lparr>total_connections = 0, open_connections = 0, running = 0, crashed = 0\<rparr>"

text \<open>
  What happens next: the stream yields a connection or an error, or a connection's task ends, with a
  result or a panic. \<^const>\<open>None\<close>: it cannot happen.
\<close>

datatype serve_event = Conn_accepted | Accept_failed io_error | Task_ended "(any_err, unit) outcome"

fun serve_step :: "serve_event \<Rightarrow> serve_state \<Rightarrow> serve_state option" where
  "serve_step Conn_accepted x =
     Some (x\<lparr>total_connections := Suc (total_connections x), open_connections := open_connections x + 1,
       running := Suc (running x)\<rparr>)"
| "serve_step (Accept_failed e) x = Some x"
| "serve_step (Task_ended r) x =
     (if running x = 0 then None
      else if is_panic r then Some (x\<lparr>running := running x - 1, crashed := Suc (crashed x)\<rparr>)
      else Some (x\<lparr>running := running x - 1, open_connections := open_connections x - 1\<rparr>))"

inductive served :: "serve_state \<Rightarrow> bool" where
  init: "served serve_init"
| step: "served x \<Longrightarrow> serve_step e x = Some y \<Longrightarrow> served y"

section \<open>Starting the listeners\<close>

text \<open>
  When a future ends: never, or at some time with a result. \<open>join_all\<close> is \<^verbatim>\<open>try_join!\<close>: the first error
  ends it, otherwise it waits for all.
\<close>

datatype fate = Forever | Ends nat "(any_err, unit) outcome"

fun first_failure :: "fate list \<Rightarrow> (nat \<times> (any_err, unit) outcome) option" where
  "first_failure [] = None"
| "first_failure (Forever # fs) = first_failure fs"
| "first_failure (Ends t (Ok u) # fs) = first_failure fs"
| "first_failure (Ends t r # fs) =
     (case first_failure fs of
        Some (t', r') \<Rightarrow> if t' < t then Some (t', r') else Some (t, r)
      | None \<Rightarrow> Some (t, r))"

fun last_end :: "fate list \<Rightarrow> nat option" where
  "last_end [] = Some 0"
| "last_end (Forever # fs) = None"
| "last_end (Ends t r # fs) = map_option (max t) (last_end fs)"

definition try_join :: "fate list \<Rightarrow> fate" where
  "try_join fs =
     (case first_failure fs of
        Some (t, r) \<Rightarrow> Ends t r
      | None \<Rightarrow> (case last_end fs of None \<Rightarrow> Forever | Some t \<Rightarrow> Ends t (Ok ())))"

text \<open>
  \<open>serving\<close> is the fate of the spawned task of an endpoint on a socket: it ends when the stream of
  connections does, or with a join error. The sockets are bound first; with several failures the error
  reported is that of the first listener here.
\<close>

definition bind_listener :: "(string \<Rightarrow> (io_error, 'k) outcome) \<Rightarrow> string option \<Rightarrow> (any_err, 'k option) outcome" where
  "bind_listener bind addr =
     (case addr of
        None \<Rightarrow> Ok None
      | Some a \<Rightarrow> and_then (map_err A_Io (bind a)) (\<lambda>k. Ok (Some k)))"

definition api_new :: "(string \<Rightarrow> (io_error, 'k) outcome) \<Rightarrow> (string \<Rightarrow> proxy_protocol \<Rightarrow> 'k \<Rightarrow> fate) \<Rightarrow>
    listener \<Rightarrow> listener \<Rightarrow> listener \<Rightarrow> fate" where
  "api_new bind serving = (\<lambda>(http, http_proxy) (https, https_proxy) (prom, prom_proxy).
     (case and_then (bind_listener bind http) (\<lambda>http.
           and_then (bind_listener bind https) (\<lambda>https.
           and_then (bind_listener bind prom) (\<lambda>prom. Ok (http, https, prom)))) of
        Err e \<Rightarrow> Ends 0 (Err e)
      | Panic p \<Rightarrow> Ends 0 (Panic p)
      | Ok (http, https, prom) \<Rightarrow>
          (let http = map_option (serving ''HTTP'' http_proxy) http;
               prom = map_option (serving ''PROM'' prom_proxy) prom;
               https = map_option (serving ''HTTPS'' https_proxy) https in
           case (https, http, prom) of
             (Some https, Some http, Some prom) \<Rightarrow> try_join [https, http, prom]
           | (None, None, None) \<Rightarrow> Ends 0 (Ok ())
           | (Some https, Some http, None) \<Rightarrow> try_join [https, http]
           | (Some https, None, Some prom) \<Rightarrow> try_join [https, prom]
           | (None, Some http, Some prom) \<Rightarrow> try_join [http, prom]
           | (Some https, None, None) \<Rightarrow> https
           | (None, Some http, None) \<Rightarrow> http
           | (None, None, Some prom) \<Rightarrow> prom)))"

section \<open>Facts\<close>

lemma serve_step_invariant:
  assumes "serve_step e x = Some y"
    and "open_connections x = int (running x) + int (crashed x)"
    and "running x + crashed x \<le> total_connections x"
  shows "open_connections y = int (running y) + int (crashed y) \<and>
    running y + crashed y \<le> total_connections y"
  using assms by (cases "(e, x)" rule: serve_step.cases) (auto split: if_splits)

lemma try_join_singleton_Forever: "try_join [f] = Forever \<longleftrightarrow> f = Forever"
  by (cases "[f]" rule: first_failure.cases) (auto simp: try_join_def)

text \<open>The interface runs on exactly as long as one of its listeners does and none has failed.\<close>

lemma first_failure_None: "first_failure fs = None \<longleftrightarrow> (\<forall>t r. Ends t r \<in> set fs \<longrightarrow> r = Ok ())"
  by (induction fs rule: first_failure.induct) (auto split: option.splits if_splits)

lemma last_end_None: "last_end fs = None \<longleftrightarrow> Forever \<in> set fs"
  by (induction fs rule: last_end.induct) auto

lemma try_join_Forever:
  "try_join fs = Forever \<longleftrightarrow> Forever \<in> set fs \<and> (\<forall>t r. Ends t r \<in> set fs \<longrightarrow> r = Ok ())"
  unfolding try_join_def first_failure_None [symmetric] last_end_None [symmetric]
  by (auto split: option.split)

definition configured :: "(string \<Rightarrow> 'k) \<Rightarrow> (string \<Rightarrow> proxy_protocol \<Rightarrow> 'k \<Rightarrow> fate) \<Rightarrow> string \<Rightarrow> listener \<Rightarrow> fate list" where
  "configured sock serving endpoint l =
     (case fst l of None \<Rightarrow> [] | Some a \<Rightarrow> [serving endpoint (snd l) (sock a)])"

lemma single_fate: "f = Forever \<longleftrightarrow> Forever \<in> set [f] \<and> (\<forall>t r. Ends t r \<in> set [f] \<longrightarrow> r = Ok ())"
  by auto

section \<open>Properties\<close>

text \<open>
  C39: However connections are accepted, fail and end, the gauge of open connections is the number of
  connection tasks that run plus the number of those that panicked, and it never exceeds the number of
  accepted connections: a panic of a task is counted as an open connection forever.
\<close>

theorem open_connections_gauge:
  assumes "served x"
  shows "open_connections x = int (running x) + int (crashed x) \<and>
    running x + crashed x \<le> total_connections x"
  using assms
proof (induction rule: served.induct)
  case init
  then show ?case by (simp add: serve_init_def)
next
  case (step x e y)
  then show ?case
    using serve_step_invariant by blast
qed

theorem open_connections_gauge_witness:
  "\<exists>x. served x \<and> running x = 0 \<and> open_connections x = 1"
proof -
  let ?x = "\<lparr>total_connections = 1, open_connections = 1, running = 1, crashed = 0\<rparr>"
  let ?y = "\<lparr>total_connections = 1, open_connections = 1, running = 0, crashed = 1\<rparr>"
  have "served ?x"
    using served.step [OF served.init, of Conn_accepted ?x] by (simp add: serve_init_def)
  then have "served ?y"
    using served.step [of ?x "Task_ended (Panic ''p'')" ?y] by simp
  moreover have "open_connections ?y = int (running ?y) + int (crashed ?y)"
    using open_connections_gauge [OF \<open>served ?y\<close>] by blast
  ultimately show ?thesis by auto
qed

text \<open>
  When every configured address can be bound, the interface runs forever exactly if one of the
  configured listeners does and none of them fails; in particular it ends at once, with success, when
  no listener is configured.
\<close>

theorem api_new_runs:
  assumes "\<forall>a. bind a = Ok (sock a)"
    and "fs = configured sock serving ''HTTPS'' https @ configured sock serving ''HTTP'' http @
      configured sock serving ''PROM'' prom"
  shows "(api_new bind serving http https prom = Forever \<longleftrightarrow>
      Forever \<in> set fs \<and> (\<forall>t r. Ends t r \<in> set fs \<longrightarrow> r = Ok ())) \<and>
    (fs = [] \<longrightarrow> api_new bind serving http https prom = Ends 0 (Ok ()))"
proof -
  obtain h hp hs hsp p pp where l: "http = (h, hp)" "https = (hs, hsp)" "prom = (p, pp)"
    by (cases http; cases https; cases prom)
  show ?thesis
    using assms unfolding l
    by (cases h; cases hs; cases p)
      (auto simp: api_new_def bind_listener_def configured_def try_join_Forever)
qed

theorem api_new_runs_witness:
  "api_new Ok (\<lambda>_ _ _. Forever) (None, Disabled) (Some ''0.0.0.0:443'', Enabled) (None, Disabled) = Forever \<and>
   api_new Ok (\<lambda>_ _ _. Forever) (None, Disabled) (None, Disabled) (None, Disabled) = Ends 0 (Ok ())"
  using api_new_runs [of Ok id "[Forever]" "\<lambda>_ _ _. Forever" "(Some ''0.0.0.0:443'', Enabled)" "(None, Disabled)" "(None, Disabled)"]
    api_new_runs [of Ok id "[]" "\<lambda>_ _ _. Forever" "(None, Disabled)" "(None, Disabled)" "(None, Disabled)"]
  by (simp add: configured_def)

end
