(* ===== verification/Dns_Records.thy ===== *)
theory Dns_Records
  imports Util
begin

text \<open>
  The part of the DNS data model that the program builds and reads: names, record types, record data
  and record sets. The library's behaviour beyond construction and projection is the parameter record
  \<open>dns_lib\<close>.
\<close>

section \<open>Names and records\<close>

text \<open>
  A name is the list of its labels, in the case-folded form in which the library compares names (and
  in which \<^verbatim>\<open>LowerName\<close> stores them), with the flag of a fully qualified name.
\<close>

record dns_name =
  labels :: "bytes list"
  fqdn :: bool

datatype rtype = RT_A | RT_CNAME | RT_TXT | RT_SOA | RT_Other "16 word"

record soa =
  mname :: dns_name
  rname :: dns_name
  serial :: "32 word"
  refresh_interval :: "32 word"
  retry_interval :: "32 word"
  expire :: "32 word"
  minimum :: "32 word"

datatype rdata = RD_A "32 word" | RD_CNAME dns_name | RD_TXT "string list" | RD_SOA soa

primrec rdata_type :: "rdata \<Rightarrow> rtype" where
  "rdata_type (RD_A ip) = RT_A"
| "rdata_type (RD_CNAME n) = RT_CNAME"
| "rdata_type (RD_TXT ts) = RT_TXT"
| "rdata_type (RD_SOA s) = RT_SOA"

record record_set =
  rs_name :: dns_name
  rs_type :: rtype
  rs_ttl :: "32 word"
  rs_data :: "rdata list"

definition empty_set :: "dns_name \<Rightarrow> rtype \<Rightarrow> 32 word \<Rightarrow> record_set" where
  "empty_set name t ttl = \<lparr>rs_name = name, rs_type = t, rs_ttl = ttl, rs_data = []\<rparr>"

text \<open>\<^verbatim>\<open>RecordSet::from(Record::from_rdata(name, ttl, rdata))\<close>.\<close>

definition from_rdata :: "dns_name \<Rightarrow> 32 word \<Rightarrow> rdata \<Rightarrow> record_set" where
  "from_rdata name ttl d = \<lparr>rs_name = name, rs_type = rdata_type d, rs_ttl = ttl, rs_data = [d]\<rparr>"

text \<open>The records of a configuration, by name and type.\<close>

type_synonym preconfigured = "dns_name \<rightharpoonup> (rtype \<rightharpoonup> record_set)"

section \<open>The library\<close>

datatype ip_addr = IP4 "32 word" | IP6 "128 word"

text \<open>
  \<open>parse_name\<close> and \<open>display_name\<close> are \<^verbatim>\<open>Name::from_str\<close> and its display; \<open>add_rdata\<close> is
  \<^verbatim>\<open>RecordSet::add_rdata\<close>, which says whether the record was added; \<open>is_empty\<close> is
  \<^verbatim>\<open>Name::is_empty\<close>; \<open>lookup_host\<close> is the system resolver.
\<close>

record dns_lib =
  parse_name :: "string \<Rightarrow> (string, dns_name) outcome"
  display_name :: "dns_name \<Rightarrow> string"
  name_is_empty :: "dns_name \<Rightarrow> bool"
  add_rdata :: "record_set \<Rightarrow> rdata \<Rightarrow> record_set \<times> bool"
  lookup_host :: "string \<Rightarrow> (io_error, ip_addr list) outcome"

text \<open>
  The documented behaviour of \<open>add_rdata\<close> for the types without a rule of their own: a record that
  is already there is not added again, any other is appended.
\<close>

definition plain_add :: "dns_lib \<Rightarrow> bool" where
  "plain_add L \<longleftrightarrow> (\<forall>rs d. rs_type rs = RT_A \<or> rs_type rs = RT_TXT \<longrightarrow>
     add_rdata L rs d = (if d \<in> set (rs_data rs) then (rs, False)
       else (rs\<lparr>rs_data := rs_data rs @ [d]\<rparr>, True)))"

lemma plain_addD: "plain_add L \<Longrightarrow> rs_type rs = RT_A \<or> rs_type rs = RT_TXT \<Longrightarrow>
    add_rdata L rs d = (if d \<in> set (rs_data rs) then (rs, False)
      else (rs\<lparr>rs_data := rs_data rs @ [d]\<rparr>, True))"
  unfolding plain_add_def by blast

text \<open>An example of such a library, for names without escapes.\<close>

fun split_dots :: "string \<Rightarrow> string \<Rightarrow> string list" where
  "split_dots acc [] = [rev acc]"
| "split_dots acc (c # cs) = (if c = CHR ''.'' then rev acc # split_dots [] cs else split_dots (c # acc) cs)"

fun join_dots :: "string list \<Rightarrow> string" where
  "join_dots [] = []"
| "join_dots [l] = l"
| "join_dots (l # ls) = l @ CHR ''.'' # join_dots ls"

definition example_dns :: "(string \<Rightarrow> (io_error, ip_addr list) outcome) \<Rightarrow> dns_lib" where
  "example_dns resolver = \<lparr>
     parse_name = (\<lambda>s. if s = [] then Err ''empty name''
       else if last s = CHR ''.'' then Ok \<lparr>labels = split_dots [] (butlast s), fqdn = True\<rparr>
       else Ok \<lparr>labels = split_dots [] s, fqdn = False\<rparr>),
     display_name = (\<lambda>n. join_dots (labels n) @ (if fqdn n then ''.'' else [])),
     name_is_empty = (\<lambda>n. labels n = []),
     add_rdata = (\<lambda>rs d. if rs_type rs = RT_CNAME then (rs\<lparr>rs_data := [d]\<rparr>, True)
       else if d \<in> set (rs_data rs) then (rs, False) else (rs\<lparr>rs_data := rs_data rs @ [d]\<rparr>, True)),
     lookup_host = resolver\<rparr>"

lemma plain_add_example: "plain_add (example_dns resolver)"
  by (auto simp: plain_add_def example_dns_def)

end
