(* ===== verification/Ipv4.thy ===== *)
theory Ipv4
  imports Dns_Records
begin

text \<open>
  The standard library's parser of IPv4 addresses, its printer, and the proof that the parser accepts
  exactly what the printer writes.
\<close>

section \<open>Parsing\<close>

text \<open>
  \<^verbatim>\<open>Ipv4Addr::from_str\<close> of the standard library: at most fifteen characters, four decimal octets of at
  most three digits without a leading zero, separated by dots.
\<close>

definition is_digit :: "char \<Rightarrow> bool" where
  "is_digit c \<longleftrightarrow> 48 \<le> (of_char c :: nat) \<and> (of_char c :: nat) \<le> 57"

definition digits_value :: "string \<Rightarrow> nat" where
  "digits_value ds = foldl (\<lambda>acc c. acc * 10 + (of_char c - 48)) 0 ds"

definition read_octet :: "string \<Rightarrow> (nat \<times> string) option" where
  "read_octet s =
     (let ds = takeWhile is_digit s; rest = dropWhile is_digit s in
      if ds = [] \<or> 3 < length ds \<or> (hd ds = CHR ''0'' \<and> 1 < length ds) \<or> 255 < digits_value ds
      then None else Some (digits_value ds, rest))"

fun read_octets :: "nat \<Rightarrow> string \<Rightarrow> nat list option" where
  "read_octets 0 s = (if s = [] then Some [] else None)"
| "read_octets (Suc n) s =
     (case read_octet s of
        None \<Rightarrow> None
      | Some (a, rest) \<Rightarrow>
          if n = 0 then map_option (Cons a) (read_octets 0 rest)
          else (case rest of
              [] \<Rightarrow> None
            | c # cs \<Rightarrow> if c = CHR ''.'' then map_option (Cons a) (read_octets n cs) else None))"

definition parse_ipv4 :: "string \<Rightarrow> (string, 32 word) outcome" where
  "parse_ipv4 s =
     (case if 15 < length s then None else read_octets 4 s of
        Some os \<Rightarrow> Ok (word_of_nat (foldl (\<lambda>acc a. acc * 256 + a) 0 os))
      | None \<Rightarrow> Err ''invalid IPv4 address syntax'')"

section \<open>Printing\<close>

definition digit :: "nat \<Rightarrow> char" where
  "digit n = char_of (48 + n)"

definition show_octet :: "nat \<Rightarrow> string" where
  "show_octet n =
     (if n < 10 then [digit n]
      else if n < 100 then [digit (n div 10), digit (n mod 10)]
      else [digit (n div 100), digit (n div 10 mod 10), digit (n mod 10)])"

definition octets :: "32 word \<Rightarrow> nat list" where
  "octets ip = [unat ip div 2 ^ 24, unat ip div 2 ^ 16 mod 256, unat ip div 2 ^ 8 mod 256, unat ip mod 256]"

definition show_ipv4 :: "32 word \<Rightarrow> string" where
  "show_ipv4 ip = join_dots (map show_octet (octets ip))"

lemma of_char_digit: "n < 10 \<Longrightarrow> (of_char (digit n) :: nat) = 48 + n"
  by (simp add: digit_def)

lemma is_digit_digit: "n < 10 \<Longrightarrow> is_digit (digit n)"
  by (simp add: is_digit_def of_char_digit)

lemma digit_not_zero: "0 < n \<Longrightarrow> n < 10 \<Longrightarrow> digit n \<noteq> CHR ''0''"
proof
  assume "0 < n" "n < 10" "digit n = CHR ''0''"
  then show False
    using of_char_digit [of n] by simp
qed

lemma not_digit_dot: "\<not> is_digit CHR ''.''"
  by (simp add: is_digit_def)

lemma read_octet_digits:
  assumes "ds \<noteq> []" and "length ds \<le> 3" and "\<forall>c \<in> set ds. is_digit c"
    and "hd ds \<noteq> CHR ''0'' \<or> length ds = 1" and "digits_value ds < 256"
    and "rest = [] \<or> hd rest = CHR ''.''"
  shows "read_octet (ds @ rest) = Some (digits_value ds, rest)"
proof -
  have "takeWhile is_digit rest = []" "dropWhile is_digit rest = rest"
    using assms(6) not_digit_dot by (cases rest; simp)+
  then have "takeWhile is_digit (ds @ rest) = ds" "dropWhile is_digit (ds @ rest) = rest"
    using assms(3) by (simp_all add: takeWhile_append2 dropWhile_append2)
  then show ?thesis
    using assms(1,2,4,5) by (auto simp: read_octet_def Let_def)
qed

lemma show_octet_digits:
  assumes "n < 256"
  shows "\<forall>c \<in> set (show_octet n). is_digit c" and "digits_value (show_octet n) = n"
    and "hd (show_octet n) \<noteq> CHR ''0'' \<or> length (show_octet n) = 1"
proof -
  have d: "n div 100 < 10" "n div 10 mod 10 < 10" "n mod 10 < 10"
    using assms by auto
  show "\<forall>c \<in> set (show_octet n). is_digit c"
    using d by (auto simp: show_octet_def intro: is_digit_digit)
  show "digits_value (show_octet n) = n"
  proof (cases "n < 100")
    case True
    then show ?thesis
      using d by (simp add: show_octet_def digits_value_def of_char_digit)
  next
    case False
    have "n div 100 = n div 10 div 10"
      by (simp flip: div_mult2_eq)
    then have "(n div 100 * 10 + n div 10 mod 10) * 10 + n mod 10 = n"
      by simp
    then show ?thesis
      using False d by (simp add: show_octet_def digits_value_def of_char_digit)
  qed
  show "hd (show_octet n) \<noteq> CHR ''0'' \<or> length (show_octet n) = 1"
    using digit_not_zero [of "n div 100"] digit_not_zero [of "n div 10"] d(1)
    by (simp add: show_octet_def)
qed

lemma read_show_octet:
  assumes "n < 256" and "rest = [] \<or> hd rest = CHR ''.''"
  shows "read_octet (show_octet n @ rest) = Some (n, rest)"
  using read_octet_digits [OF _ _ show_octet_digits(1,3) [OF assms(1)] _ assms(2)]
    show_octet_digits(2) [OF assms(1)] assms(1)
  by (simp add: show_octet_def)

lemma read_show_octets:
  assumes "os \<noteq> []" and "\<forall>a \<in> set os. a < 256"
  shows "read_octets (length os) (join_dots (map show_octet os)) = Some os"
  using assms
proof (induction os rule: induct_list012)
  case 1
  then show ?case by simp
next
  case (2 a)
  then show ?case
    using read_show_octet [of a "[]"] by simp
next
  case (3 a b os)
  then show ?case
    using read_show_octet [of a "CHR ''.'' # join_dots (show_octet b # map show_octet os)"] by simp
qed

lemma show_octet_length: "length (show_octet n) \<le> 3"
  by (simp add: show_octet_def)

lemma length_octets: "length (octets ip) = 4"
  by (simp add: octets_def)

lemma octets_less: "\<forall>a \<in> set (octets ip). a < 256"
proof -
  have "unat ip < 2 ^ LENGTH(32)"
    by (rule unsigned_less)
  then show ?thesis
    by (simp add: octets_def)
qed

lemma octets_value: "foldl (\<lambda>acc a. acc * 256 + a) 0 (octets ip) = unat ip"
proof -
  have step: "n div (k * 256) * 256 + n div k mod 256 = n div k" for n k :: nat
    by (simp add: div_mult2_eq)
  show ?thesis
    using step [of "unat ip" "2 ^ 16"] step [of "unat ip" "2 ^ 8"] step [of "unat ip" 1]
    by (simp add: octets_def)
qed

lemma parse_show_ipv4: "parse_ipv4 (show_ipv4 ip) = Ok ip"
proof -
  have "length (show_ipv4 ip) \<le> 15"
    using show_octet_length [of "unat ip div 2 ^ 24"] show_octet_length [of "unat ip div 2 ^ 16 mod 256"]
      show_octet_length [of "unat ip div 2 ^ 8 mod 256"] show_octet_length [of "unat ip mod 256"]
    by (simp add: show_ipv4_def octets_def del: power_numeral)
  moreover have "octets ip \<noteq> []"
    by (simp add: octets_def)
  then have "read_octets 4 (show_ipv4 ip) = Some (octets ip)"
    using read_show_octets [OF _ octets_less] length_octets [of ip] by (metis show_ipv4_def)
  ultimately show ?thesis
    by (simp add: parse_ipv4_def octets_value)
qed

section \<open>Uniqueness\<close>

lemma is_digitE:
  assumes "is_digit c"
  obtains k where "k < 10" and "c = digit k"
proof
  show "of_char c - 48 < (10 :: nat)"
    using assms by (auto simp: is_digit_def)
  show "c = digit (of_char c - 48)"
    using assms by (simp add: is_digit_def digit_def)
qed

lemma show_octet_value:
  assumes "\<forall>c \<in> set ds. is_digit c" and "ds \<noteq> []" and "length ds \<le> 3" and "hd ds \<noteq> CHR ''0'' \<or> length ds \<le> 1"
  shows "show_octet (digits_value ds) = ds"
proof -
  have zero: "digit 0 = CHR ''0''"
    by code_simp
  consider a where "ds = [a]" | a b where "ds = [a, b]" | a b c where "ds = [a, b, c]"
    using assms(2,3) by (cases ds rule: remdups_adj.cases; cases "tl (tl ds)") (auto simp: Suc_le_eq)
  then show ?thesis
  proof cases
    case (1 a)
    then show ?thesis
      using assms(1) by (auto simp: digits_value_def show_octet_def of_char_digit elim: is_digitE)
  next
    case (2 a b)
    obtain i j where "i < 10" "a = digit i" "j < 10" "b = digit j"
      using assms(1) 2 by (auto elim!: is_digitE)
    moreover have "i \<noteq> 0"
      using assms(4) 2 calculation zero by (cases i) auto
    ultimately show ?thesis
      using 2 by (simp add: digits_value_def show_octet_def of_char_digit)
  next
    case (3 a b c)
    obtain i j k where ijk: "i < 10" "a = digit i" "j < 10" "b = digit j" "k < 10" "c = digit k"
      using assms(1) 3 by (auto elim!: is_digitE)
    have "i \<noteq> 0"
      using assms(4) 3 ijk zero by (cases i) auto
    define n where "n = (i * 10 + j) * 10 + k"
    have base: "(u * 10 + v) div 10 = u" "(u * 10 + v) mod 10 = v" if "v < 10" for u v :: nat
      using that by simp_all
    have n: "n div 10 = i * 10 + j" "n mod 10 = k"
      unfolding n_def by (rule base [OF ijk(5)])+
    moreover have "n div 10 mod 10 = j"
      unfolding n by (rule base(2) [OF ijk(3)])
    moreover have "n div 100 = n div 10 div 10"
      by (simp flip: div_mult2_eq)
    then have "n div 100 = i"
      unfolding n by (simp only: base(1) [OF ijk(3)])
    moreover have "100 \<le> n"
      using \<open>i \<noteq> 0\<close> by (simp add: n_def)
    moreover have "digits_value ds = n"
      using 3 ijk by (simp add: digits_value_def of_char_digit n_def)
    ultimately show ?thesis
      using 3 ijk by (simp add: show_octet_def)
  qed
qed

lemma read_octet_SomeD:
  assumes "read_octet s = Some (a, rest)"
  shows "s = show_octet a @ rest \<and> a < 256"
proof -
  let ?ds = "takeWhile is_digit s"
  have ds: "?ds \<noteq> []" "length ?ds \<le> 3" "hd ?ds \<noteq> CHR ''0'' \<or> length ?ds \<le> 1"
      "a = digits_value ?ds" "rest = dropWhile is_digit s" "a < 256"
    using assms by (auto simp: read_octet_def Let_def split: if_splits)
  then have "show_octet a = ?ds"
    using show_octet_value [OF _ ds(1-3)] set_takeWhileD by metis
  then show ?thesis
    using ds by simp
qed

lemma read_octets_SomeD:
  "read_octets n s = Some os \<Longrightarrow> s = join_dots (map show_octet os) \<and> length os = n \<and> (\<forall>a \<in> set os. a < 256)"
proof (induction n s arbitrary: os rule: read_octets.induct)
  case (1 s)
  then show ?case by (simp split: if_splits)
next
  case (2 n s)
  obtain a rest where oct: "read_octet s = Some (a, rest)"
    using "2.prems" by (cases "read_octet s") auto
  note s = read_octet_SomeD [OF oct]
  show ?case
  proof (cases n)
    case 0
    then show ?thesis
      using "2.prems" oct s by (auto split: if_splits)
  next
    case (Suc m)
    then obtain cs os' where cs: "rest = CHR ''.'' # cs" "read_octets n cs = Some os'" "os = a # os'"
      using "2.prems" oct by (auto split: list.splits if_splits)
    have "cs = join_dots (map show_octet os') \<and> length os' = n \<and> (\<forall>a \<in> set os'. a < 256)"
      by (rule "2.IH"(2) [OF oct refl _ cs(1) refl cs(2)]) (simp add: Suc)
    moreover from this obtain b bs where "os' = b # bs"
      using Suc by (cases os') auto
    ultimately show ?thesis
      using s cs by simp
  qed
qed

lemma octets_word_of_nat:
  assumes "n < 2 ^ 32"
  shows "octets (word_of_nat n) = [n div 2 ^ 24, n div 2 ^ 16 mod 256, n div 2 ^ 8 mod 256, n mod 256]"
proof -
  have "unat (word_of_nat n :: 32 word) = n"
    using assms by (simp add: unsigned_of_nat take_bit_nat_eq_self)
  then show ?thesis
    by (simp only: octets_def)
qed

lemma octets_of_value:
  assumes "a < 256" "b < 256" "c < 256" "d < 256"
  shows "octets (word_of_nat (((a * 256 + b) * 256 + c) * 256 + d)) = [a, b, c, d]"
proof -
  define n where "n = ((a * 256 + b) * 256 + c) * 256 + d"
  have base: "(u * 256 + v) div 256 = u" "(u * 256 + v) mod 256 = v" if "v < 256" for u v :: nat
    using that by simp_all
  have "n div 256 = (a * 256 + b) * 256 + c" and mod: "n mod 256 = d"
    unfolding n_def by (rule base [OF assms(4)])+
  then have n1: "n div 2 ^ 8 = (a * 256 + b) * 256 + c"
    by simp
  have "n div 2 ^ 16 = n div 2 ^ 8 div 256"
    by (simp flip: div_mult2_eq)
  then have n2: "n div 2 ^ 16 = a * 256 + b"
    using n1 base(1) [OF assms(3)] by simp
  have "n div 2 ^ 24 = n div 2 ^ 16 div 256"
    by (simp flip: div_mult2_eq)
  then have n3: "n div 2 ^ 24 = a"
    using n2 base(1) [OF assms(2)] by simp
  have "n < 2 ^ 32"
    using assms by (simp add: n_def)
  then have "octets (word_of_nat n) = [n div 2 ^ 24, n div 2 ^ 16 mod 256, n div 2 ^ 8 mod 256, n mod 256]"
    by (rule octets_word_of_nat)
  also have "\<dots> = [a, b, c, d]"
    using mod n1 n2 n3 base(2) assms by (simp only:)
  finally show ?thesis
    by (simp only: n_def)
qed

lemma parse_ipv4_OkD:
  assumes "parse_ipv4 s = Ok ip"
  shows "s = show_ipv4 ip"
proof -
  obtain os where os: "read_octets 4 s = Some os" "ip = word_of_nat (foldl (\<lambda>acc a. acc * 256 + a) 0 os)"
    using assms by (auto simp: parse_ipv4_def split: option.splits if_splits)
  have "length os = Suc (Suc (Suc (Suc 0)))"
    using read_octets_SomeD [OF os(1)] by simp
  then obtain a b c d where abcd: "os = [a, b, c, d]"
    by (auto simp: length_Suc_conv)
  moreover have "a < 256" "b < 256" "c < 256" "d < 256"
    using read_octets_SomeD [OF os(1)] abcd by simp_all
  ultimately have "octets ip = os"
    using os(2) octets_of_value [of a b c d] by simp
  then show ?thesis
    using read_octets_SomeD [OF os(1)] by (simp add: show_ipv4_def)
qed

lemma parse_ipv4_iff: "parse_ipv4 s = Ok ip \<longleftrightarrow> s = show_ipv4 ip"
  using parse_ipv4_OkD parse_show_ipv4 by blast

lemma parse_ipv4_no_panic [simp]: "parse_ipv4 s \<noteq> Panic p"
  by (simp add: parse_ipv4_def split: option.split)

end
