(* ===== verification/Config_Records.thy ===== *)
theory Config_Records
  imports Config_Listener Ipv4
begin

text \<open>
  \<^verbatim>\<open>src/config/records.rs\<close>: the visitors that read the preconfigured DNS records.
\<close>

section \<open>The visitors\<close>

definition rtype_text :: "rtype \<Rightarrow> string" where
  "rtype_text t = (case t of RT_A \<Rightarrow> ''A'' | RT_CNAME \<Rightarrow> ''CNAME'' | RT_TXT \<Rightarrow> ''TXT'' | RT_SOA \<Rightarrow> ''SOA''
     | RT_Other n \<Rightarrow> ''Unknown'')"

definition parse_rdata :: "dns_lib \<Rightarrow> rtype \<Rightarrow> string \<Rightarrow> (de_error, rdata) outcome" where
  "parse_rdata L t data =
     (case t of
        RT_A \<Rightarrow> and_then (map_err Custom (parse_ipv4 data)) (\<lambda>ip. Ok (RD_A ip))
      | RT_TXT \<Rightarrow> Ok (RD_TXT [data])
      | RT_CNAME \<Rightarrow> and_then (map_err Custom (parse_name L data)) (\<lambda>n. Ok (RD_CNAME n))
      | _ \<Rightarrow> Err (Custom ''Invalid key''))"

fun visit_rdata :: "dns_lib \<Rightarrow> rtype \<Rightarrow> toml list \<Rightarrow> record_set \<Rightarrow> (de_error, record_set) outcome" where
  "visit_rdata L t [] rs = Ok rs"
| "visit_rdata L t (v # vs) rs =
     and_then (de_str v) (\<lambda>data.
     and_then (parse_rdata L t data) (\<lambda>d.
     (case add_rdata L rs d of
        (rs', True) \<Rightarrow> visit_rdata L t vs rs'
      | (rs', False) \<Rightarrow> Err (Custom (''Could not insert data '' @ rtype_text t @ '' '' @ data)))))"

fun de_record :: "dns_lib \<Rightarrow> dns_name \<Rightarrow> rtype \<Rightarrow> toml \<Rightarrow> (de_error, record_set) outcome" where
  "de_record L name t (T_Seq seq) =
     and_then (next_element de_u32 seq) (\<lambda>(ttl, seq).
     and_then (ok_or (Custom ''Could not find TTL'') ttl) (\<lambda>ttl.
     visit_rdata L t seq (empty_set name t ttl)))"
| "de_record L name t _ = Err (Invalid_type ''Record'')"

definition record_type_of :: "string \<Rightarrow> (de_error, rtype) outcome" where
  "record_type_of key =
     (if key = ''TXT'' then Ok RT_TXT else if key = ''A'' then Ok RT_A
      else if key = ''CNAME'' then Ok RT_CNAME else Err (Custom ''Could not find RecordType''))"

fun visit_record_data :: "dns_lib \<Rightarrow> dns_name \<Rightarrow> (string \<times> toml) list \<Rightarrow> (rtype \<rightharpoonup> record_set) \<Rightarrow>
    (de_error, rtype \<rightharpoonup> record_set) outcome" where
  "visit_record_data L name [] res = Ok res"
| "visit_record_data L name ((key, v) # es) res =
     and_then (record_type_of key) (\<lambda>t.
     and_then (de_record L name t v) (\<lambda>rs.
     visit_record_data L name es (res(t \<mapsto> rs))))"

fun de_record_data :: "dns_lib \<Rightarrow> dns_name \<Rightarrow> toml \<Rightarrow> (de_error, dns_name \<times> (rtype \<rightharpoonup> record_set)) outcome" where
  "de_record_data L name (T_Map es) =
     and_then (visit_record_data L name es Map.empty) (\<lambda>res. Ok (name, res))"
| "de_record_data L name _ = Err (Invalid_type ''RecordData'')"

fun visit_records :: "dns_lib \<Rightarrow> (string \<times> toml) list \<Rightarrow> preconfigured \<Rightarrow> (de_error, preconfigured) outcome" where
  "visit_records L [] res = Ok res"
| "visit_records L ((key, v) # es) res =
     and_then (map_err Custom (parse_name L key)) (\<lambda>name.
     and_then (de_record_data L (name\<lparr>fqdn := True\<rparr>) v) (\<lambda>(name, recs).
     visit_records L es (res(name \<mapsto> recs))))"

fun de_records :: "dns_lib \<Rightarrow> toml \<Rightarrow> (de_error, preconfigured) outcome" where
  "de_records L (T_Map es) = visit_records L es Map.empty"
| "de_records L _ = Err (Invalid_type ''PreconfiguredRecords'')"

section \<open>What is read\<close>

lemma visit_addresses:
  assumes "plain_add L" and "rs_type rs = RT_A"
  shows "distinct ips \<Longrightarrow> RD_A ` set ips \<inter> set (rs_data rs) = {} \<Longrightarrow>
      visit_rdata L RT_A (map (T_Str \<circ> show_ipv4) ips) rs = Ok (rs\<lparr>rs_data := rs_data rs @ map RD_A ips\<rparr>)"
    and "\<not> (distinct ips \<and> RD_A ` set ips \<inter> set (rs_data rs) = {}) \<Longrightarrow>
      \<exists>t. visit_rdata L RT_A (map (T_Str \<circ> show_ipv4) ips) rs = Err (Custom t)"
proof -
  show "distinct ips \<Longrightarrow> RD_A ` set ips \<inter> set (rs_data rs) = {} \<Longrightarrow>
      visit_rdata L RT_A (map (T_Str \<circ> show_ipv4) ips) rs = Ok (rs\<lparr>rs_data := rs_data rs @ map RD_A ips\<rparr>)"
    using assms(2)
  proof (induction ips arbitrary: rs)
    case Nil
    then show ?case by simp
  next
    case (Cons ip ips)
    then have "RD_A ip \<notin> set (rs_data rs)" by auto
    then show ?case
      using Cons.prems Cons.IH [of "rs\<lparr>rs_data := rs_data rs @ [RD_A ip]\<rparr>"]
      by (auto simp: parse_rdata_def parse_show_ipv4 plain_addD [OF assms(1)])
  qed
  show "\<not> (distinct ips \<and> RD_A ` set ips \<inter> set (rs_data rs) = {}) \<Longrightarrow>
      \<exists>t. visit_rdata L RT_A (map (T_Str \<circ> show_ipv4) ips) rs = Err (Custom t)"
    using assms(2)
  proof (induction ips arbitrary: rs)
    case Nil
    then show ?case by simp
  next
    case (Cons ip ips)
    show ?case
    proof (cases "RD_A ip \<in> set (rs_data rs)")
      case True
      then show ?thesis
        using Cons.prems(2) by (simp add: parse_rdata_def parse_show_ipv4 plain_addD [OF assms(1)])
    next
      case False
      then show ?thesis
        using Cons.prems Cons.IH [of "rs\<lparr>rs_data := rs_data rs @ [RD_A ip]\<rparr>"]
        by (auto simp: parse_rdata_def parse_show_ipv4 plain_addD [OF assms(1)])
    qed
  qed
qed

text \<open>
  \<^verbatim>\<open>add_rdata\<close> changes only the data of the set, and adds nothing but the given record (documented).
\<close>

definition tame_add :: "dns_lib \<Rightarrow> bool" where
  "tame_add L \<longleftrightarrow> (\<forall>rs d. \<exists>ds. fst (add_rdata L rs d) = rs\<lparr>rs_data := ds\<rparr> \<and>
     set ds \<subseteq> insert d (set (rs_data rs)))"

lemma tame_addD:
  assumes "tame_add L" and "add_rdata L rs d = (rs', b)"
  shows "rs_name rs' = rs_name rs" and "rs_type rs' = rs_type rs" and "rs_ttl rs' = rs_ttl rs"
    and "set (rs_data rs') \<subseteq> insert d (set (rs_data rs))"
proof -
  obtain ds where "fst (add_rdata L rs d) = rs\<lparr>rs_data := ds\<rparr>" "set ds \<subseteq> insert d (set (rs_data rs))"
    using assms(1) unfolding tame_add_def by blast
  then show "rs_name rs' = rs_name rs" "rs_type rs' = rs_type rs" "rs_ttl rs' = rs_ttl rs"
      "set (rs_data rs') \<subseteq> insert d (set (rs_data rs))"
    using assms(2) by simp_all
qed

definition set_ok :: "dns_name \<Rightarrow> rtype \<Rightarrow> record_set \<Rightarrow> bool" where
  "set_ok name t rs \<longleftrightarrow> rs_name rs = name \<and> rs_type rs = t \<and> (\<forall>d \<in> set (rs_data rs). rdata_type d = t)"

lemma parse_rdata_type: "parse_rdata L t data = Ok d \<Longrightarrow> rdata_type d = t"
  by (cases t) (auto simp: parse_rdata_def elim!: and_then_OkE)

lemma visit_rdata_ok:
  assumes "tame_add L" and "visit_rdata L t vs rs = Ok rs'" and "set_ok name t rs"
  shows "set_ok name t rs'"
  using assms(2,3)
proof (induction vs arbitrary: rs)
  case Nil
  then show ?case by simp
next
  case (Cons v vs)
  obtain data d where d: "de_str v = Ok data" "parse_rdata L t data = Ok d"
    using Cons.prems(1) by (auto elim!: and_then_OkE)
  obtain x b where add: "add_rdata L rs d = (x, b)" by fastforce
  have "set_ok name t x"
    using tame_addD [OF assms(1) add] Cons.prems(2) parse_rdata_type [OF d(2)]
    by (auto simp: set_ok_def)
  then show ?case
    using Cons d add by (cases b) auto
qed

lemma de_record_ok:
  assumes "tame_add L" and "de_record L name t v = Ok rs"
  shows "set_ok name t rs"
proof -
  obtain ttl vs where "visit_rdata L t vs (empty_set name t ttl) = Ok rs"
    using assms(2) by (cases "(L, name, t, v)" rule: de_record.cases) (auto elim!: and_then_OkE)
  then show ?thesis
    by (rule visit_rdata_ok [OF assms(1)]) (simp add: set_ok_def empty_set_def)
qed

definition data_ok :: "dns_name \<Rightarrow> (rtype \<rightharpoonup> record_set) \<Rightarrow> bool" where
  "data_ok name recs \<longleftrightarrow> (\<forall>t rs. recs t = Some rs \<longrightarrow> t \<in> {RT_A, RT_TXT, RT_CNAME} \<and> set_ok name t rs)"

lemma record_type_of_Ok: "record_type_of key = Ok t \<Longrightarrow> t \<in> {RT_A, RT_TXT, RT_CNAME}"
  by (auto simp: record_type_of_def split: if_splits)

lemma visit_record_data_ok:
  assumes "tame_add L" and "visit_record_data L name es recs = Ok recs'" and "data_ok name recs"
  shows "data_ok name recs'"
  using assms(2,3)
proof (induction es arbitrary: recs)
  case Nil
  then show ?case by simp
next
  case (Cons e es)
  obtain key v where e: "e = (key, v)" by fastforce
  obtain t rs where step: "record_type_of key = Ok t" "de_record L name t v = Ok rs"
      "visit_record_data L name es (recs(t \<mapsto> rs)) = Ok recs'"
    using Cons.prems(1) by (auto simp: e elim!: and_then_OkE)
  have "data_ok name (recs(t \<mapsto> rs))"
    using Cons.prems(2) record_type_of_Ok [OF step(1)] de_record_ok [OF assms(1) step(2)]
    by (auto simp: data_ok_def split: if_splits)
  then show ?case
    using Cons.IH step(3) by blast
qed

lemma de_record_data_ok:
  assumes "tame_add L" and "de_record_data L name v = Ok (name', recs)"
  shows "name' = name \<and> data_ok name recs"
proof -
  obtain es where es: "visit_record_data L name es Map.empty = Ok recs" "name' = name"
    using assms(2) by (cases "(L, name, v)" rule: de_record_data.cases) (auto elim!: and_then_OkE)
  have "data_ok name Map.empty"
    by (simp add: data_ok_def)
  then show ?thesis
    using visit_record_data_ok [OF assms(1) es(1)] es(2) by blast
qed

definition records_ok :: "preconfigured \<Rightarrow> bool" where
  "records_ok recs \<longleftrightarrow> (\<forall>name data. recs name = Some data \<longrightarrow> fqdn name \<and> data_ok name data)"

lemma visit_records_ok:
  assumes "tame_add L" and "visit_records L es recs = Ok recs'" and "records_ok recs"
  shows "records_ok recs'"
  using assms(2,3)
proof (induction es arbitrary: recs)
  case Nil
  then show ?case by simp
next
  case (Cons e es)
  obtain key v where e: "e = (key, v)" by fastforce
  obtain name name' data where step: "de_record_data L (name\<lparr>fqdn := True\<rparr>) v = Ok (name', data)"
      "visit_records L es (recs(name' \<mapsto> data)) = Ok recs'"
    using Cons.prems(1) by (auto simp: e elim!: and_then_OkE)
  have "records_ok (recs(name' \<mapsto> data))"
    using Cons.prems(2) de_record_data_ok [OF assms(1) step(1)]
    by (auto simp: records_ok_def split: if_splits)
  then show ?case
    using Cons.IH step(2) by blast
qed

section \<open>Properties\<close>

lemma parse_address_iff: "parse_rdata L RT_A data = Ok d \<longleftrightarrow> (\<exists>ip. data = show_ipv4 ip \<and> d = RD_A ip)"
  by (auto simp: parse_rdata_def parse_show_ipv4 dest!: parse_ipv4_OkD elim!: and_then_OkE)

lemma visit_addresses_OkD:
  "visit_rdata L RT_A vs rs = Ok rs' \<Longrightarrow> \<exists>ips. vs = map (T_Str \<circ> show_ipv4) ips"
proof (induction vs arbitrary: rs)
  case Nil
  show ?case by simp
next
  case (Cons v vs)
  obtain data d where d: "de_str v = Ok data" "parse_rdata L RT_A data = Ok d"
    using Cons.prems by (auto elim!: and_then_OkE)
  then obtain ip where "v = T_Str (show_ipv4 ip)"
    using parse_address_iff by (cases v) auto
  moreover obtain x where "visit_rdata L RT_A vs x = Ok rs'"
    using Cons.prems d by (auto split: prod.splits bool.splits)
  then obtain ips where "vs = map (T_Str \<circ> show_ipv4) ips"
    using Cons.IH by blast
  ultimately show ?case
    by (intro exI [of _ "ip # ips"]) simp
qed

lemma de_u32_OkD:
  assumes "de_u32 v = Ok ttl"
  shows "v = T_Int (uint ttl)"
proof -
  obtain i where "v = T_Int i" "0 \<le> i" "i < 2 ^ 32" "ttl = word_of_int i"
    using assms by (cases v) (auto split: if_splits)
  then show ?thesis
    by (simp add: uint_word_of_int)
qed

text \<open>
  C35: The address records that are accepted, and what they are read as: the value must be a list of a
  32-bit time to live and texts that are each exactly the dotted form of an address (no leading zero,
  sign or space), no address twice; the records are then these addresses, in order.
\<close>

theorem address_records_iff:
  assumes "plain_add L"
  shows "de_record L name RT_A v = Ok rs \<longleftrightarrow>
    (\<exists>ttl ips. distinct ips \<and> v = T_Seq (T_Int (uint ttl) # map (T_Str \<circ> show_ipv4) ips) \<and>
      rs = \<lparr>rs_name = name, rs_type = RT_A, rs_ttl = ttl, rs_data = map RD_A ips\<rparr>)"
proof
  assume ok: "de_record L name RT_A v = Ok rs"
  obtain ttl x vs where v: "v = T_Seq (x # vs)" "de_u32 x = Ok ttl"
      and vs: "visit_rdata L RT_A vs (empty_set name RT_A ttl) = Ok rs"
    using ok by (cases "(L, name, RT_A, v)" rule: de_record.cases; cases "case v of T_Seq xs \<Rightarrow> xs | _ \<Rightarrow> []")
      (auto elim!: and_then_OkE)
  obtain ips where ips: "vs = map (T_Str \<circ> show_ipv4) ips"
    using visit_addresses_OkD [OF vs] by blast
  then have "distinct ips"
    using visit_addresses(2) [OF assms, of "empty_set name RT_A ttl" ips] vs by (auto simp: empty_set_def)
  then show "\<exists>ttl ips. distinct ips \<and> v = T_Seq (T_Int (uint ttl) # map (T_Str \<circ> show_ipv4) ips) \<and>
      rs = \<lparr>rs_name = name, rs_type = RT_A, rs_ttl = ttl, rs_data = map RD_A ips\<rparr>"
    using v de_u32_OkD vs ips visit_addresses(1) [OF assms, of "empty_set name RT_A ttl" ips]
    by (intro exI [of _ ttl] exI [of _ ips]) (simp add: empty_set_def)
next
  assume "\<exists>ttl ips. distinct ips \<and> v = T_Seq (T_Int (uint ttl) # map (T_Str \<circ> show_ipv4) ips) \<and>
      rs = \<lparr>rs_name = name, rs_type = RT_A, rs_ttl = ttl, rs_data = map RD_A ips\<rparr>"
  then obtain ttl ips where "distinct ips" "v = T_Seq (T_Int (uint ttl) # map (T_Str \<circ> show_ipv4) ips)"
      "rs = \<lparr>rs_name = name, rs_type = RT_A, rs_ttl = ttl, rs_data = map RD_A ips\<rparr>" by blast
  moreover have "de_u32 (T_Int (uint ttl)) = Ok ttl"
    using uint_lt2p [of ttl] by simp
  ultimately show "de_record L name RT_A v = Ok rs"
    using visit_addresses(1) [OF assms, of "empty_set name RT_A ttl" ips] by (simp add: empty_set_def)
qed

theorem address_records_iff_witness:
  "de_record (example_dns (\<lambda>_. Ok [])) \<lparr>labels = [''a''], fqdn = True\<rparr> RT_A
      (T_Seq [T_Int 100, T_Str (show_ipv4 16843009), T_Str (show_ipv4 33686018)])
    = Ok \<lparr>rs_name = \<lparr>labels = [''a''], fqdn = True\<rparr>, rs_type = RT_A, rs_ttl = 100,
        rs_data = [RD_A 16843009, RD_A 33686018]\<rparr>"
  unfolding address_records_iff [OF plain_add_example]
  by (intro exI [of _ 100] exI [of _ "[16843009, 33686018]"]) simp

text \<open>
  A list of IPv4 addresses in dotted form is read back as exactly these addresses, in order, with
  the time to live before them, unless an address is repeated: then the configuration is refused.
\<close>

theorem address_records_read:
  assumes "plain_add L"
  shows "if distinct ips
    then de_record L name RT_A (T_Seq (T_Int (uint ttl) # map (T_Str \<circ> show_ipv4) ips))
      = Ok \<lparr>rs_name = name, rs_type = RT_A, rs_ttl = ttl, rs_data = map RD_A ips\<rparr>
    else (\<exists>t. de_record L name RT_A (T_Seq (T_Int (uint ttl) # map (T_Str \<circ> show_ipv4) ips)) = Err (Custom t))"
proof -
  have ttl: "de_u32 (T_Int (uint ttl)) = Ok ttl"
    using uint_lt2p [of ttl] by simp
  show ?thesis
    using visit_addresses [OF assms, of "empty_set name RT_A ttl" ips] ttl
    by (auto simp: empty_set_def inj_image_mem_iff)
qed

theorem address_records_read_witness:
  "de_record (example_dns (\<lambda>_. Ok [])) \<lparr>labels = [''a''], fqdn = True\<rparr> RT_A (T_Seq [T_Int 100, T_Str (show_ipv4 16843009), T_Str (show_ipv4 33686018)])
    = Ok \<lparr>rs_name = \<lparr>labels = [''a''], fqdn = True\<rparr>, rs_type = RT_A, rs_ttl = 100, rs_data = [RD_A 16843009, RD_A 33686018]\<rparr>"
  using address_records_read [OF plain_add_example, of "[16843009, 33686018]" "\<lambda>_. Ok []" "\<lparr>labels = [''a''], fqdn = True\<rparr>" 100] by simp

text \<open>
  C36: Whatever configuration is read, every name of the preconfigured records is fully qualified, only
  address, text and alias records are kept, and every set is filed under its own name and type with
  data of that type only.
\<close>

theorem records_well_formed:
  assumes "tame_add L" and "de_records L v = Ok recs" and "recs name = Some data" and "data t = Some rs"
  shows "fqdn name \<and> t \<in> {RT_A, RT_TXT, RT_CNAME} \<and> rs_name rs = name \<and> rs_type rs = t \<and>
    (\<forall>d \<in> set (rs_data rs). rdata_type d = t)"
proof -
  obtain es where es: "visit_records L es Map.empty = Ok recs"
    using assms(2) by (cases "(L, v)" rule: de_records.cases) auto
  have "records_ok Map.empty"
    by (simp add: records_ok_def)
  then have "records_ok recs"
    by (rule visit_records_ok [OF assms(1) es])
  then show ?thesis
    using assms(3,4) by (auto simp: records_ok_def data_ok_def set_ok_def)
qed

text \<open>A part of the records in the README.\<close>

definition readme_records :: toml where
  "readme_records = T_Map
     [(''acme2.example.com'', T_Map
        [(''TXT'', T_Seq [T_Int 100, T_Str ''Hallo'', T_Str ''World'']),
         (''CNAME'', T_Seq [T_Int 100, T_Str ''lb.cloudflare.com''])])]"

lemma tame_example: "tame_add (example_dns resolver)"
  unfolding tame_add_def
proof (intro allI)
  fix rs :: record_set and d
  consider "rs_type rs = RT_CNAME" | "rs_type rs \<noteq> RT_CNAME" "d \<in> set (rs_data rs)"
    | "rs_type rs \<noteq> RT_CNAME" "d \<notin> set (rs_data rs)" by blast
  then show "\<exists>ds. fst (add_rdata (example_dns resolver) rs d) = rs\<lparr>rs_data := ds\<rparr> \<and>
      set ds \<subseteq> insert d (set (rs_data rs))"
  proof cases
    case 1
    then show ?thesis by (auto simp: example_dns_def)
  next
    case 2
    then show ?thesis by (intro exI [of _ "rs_data rs"]) (simp add: example_dns_def subset_insertI)
  next
    case 3
    then show ?thesis by (auto simp: example_dns_def)
  qed
qed

theorem records_well_formed_witness:
  "\<exists>recs data rs. de_records (example_dns (\<lambda>_. Ok [])) readme_records = Ok recs \<and>
     recs \<lparr>labels = [''acme2'', ''example'', ''com''], fqdn = True\<rparr> = Some data \<and> data RT_TXT = Some rs \<and>
     rs_type rs = RT_TXT \<and> (\<forall>d \<in> set (rs_data rs). rdata_type d = RT_TXT)"
proof -
  let ?L = "example_dns (\<lambda>_. Ok [])"
  let ?n = "\<lparr>labels = [''acme2'', ''example'', ''com''], fqdn = True\<rparr>"
  obtain recs data rs where "de_records ?L readme_records = Ok recs" "recs ?n = Some data" "data RT_TXT = Some rs"
    by (simp add: readme_records_def example_dns_def record_type_of_def parse_rdata_def empty_set_def)
  then show ?thesis
    using records_well_formed [OF tame_example, of "\<lambda>_. Ok []" readme_records recs ?n data RT_TXT rs] by blast
qed

end
