(* ===== verification/Config.thy ===== *)
theory Config
  imports Config_Records
begin

text \<open>
  \<^verbatim>\<open>src/config/mod.rs\<close> and \<^verbatim>\<open>src/config/dns.rs\<close>: the configuration as a whole, its defaults, the
  resolver setting, and the redaction of the database address in the log.
\<close>

section \<open>IPv6 addresses\<close>

text \<open>
  \<^verbatim>\<open>IpAddr::from_str\<close> of the standard library accepts an IPv4 address or an IPv6 address: groups of at
  most four hexadecimal digits separated by colons, two groups possibly written as an IPv4 address,
  and at most one run of zero groups written as two colons.
\<close>

definition hex_value :: "char \<Rightarrow> nat option" where
  "hex_value c =
     (let n = of_char c in
      if 48 \<le> n \<and> n \<le> 57 then Some (n - 48)
      else if 97 \<le> n \<and> n \<le> 102 then Some (n - 87)
      else if 65 \<le> n \<and> n \<le> 70 then Some (n - 55)
      else None)"

definition read_group :: "string \<Rightarrow> (nat \<times> string) option" where
  "read_group s =
     (let hs = takeWhile (\<lambda>c. hex_value c \<noteq> None) s; rest = dropWhile (\<lambda>c. hex_value c \<noteq> None) s in
      if hs = [] \<or> 4 < length hs then None
      else Some (foldl (\<lambda>acc c. acc * 16 + the (hex_value c)) 0 hs, rest))"

definition read_char :: "char \<Rightarrow> string \<Rightarrow> string option" where
  "read_char c s = (case s of [] \<Rightarrow> None | d # ds \<Rightarrow> if c = d then Some ds else None)"

definition read_sep :: "bool \<Rightarrow> string \<Rightarrow> string option" where
  "read_sep first s = (if first then Some s else read_char CHR '':'' s)"

definition read_inner_ipv4 :: "string \<Rightarrow> (nat list \<times> string) option" where
  "read_inner_ipv4 s =
     Option.bind (read_octet s) (\<lambda>(a, s). Option.bind (read_char CHR ''.'' s) (\<lambda>s.
     Option.bind (read_octet s) (\<lambda>(b, s). Option.bind (read_char CHR ''.'' s) (\<lambda>s.
     Option.bind (read_octet s) (\<lambda>(c, s). Option.bind (read_char CHR ''.'' s) (\<lambda>s.
     Option.bind (read_octet s) (\<lambda>(d, s). Some ([a * 256 + b, c * 256 + d], s))))))))"

text \<open>The groups read, whether the last two were an IPv4 address, and the rest of the text.\<close>

fun read_groups :: "nat \<Rightarrow> bool \<Rightarrow> string \<Rightarrow> nat list \<times> bool \<times> string" where
  "read_groups 0 first s = ([], False, s)"
| "read_groups (Suc n) first s =
     (case (if n = 0 then None else Option.bind (read_sep first s) read_inner_ipv4) of
        Some (gs, rest) \<Rightarrow> (gs, True, rest)
      | None \<Rightarrow>
          (case Option.bind (read_sep first s) read_group of
             Some (g, rest) \<Rightarrow> (case read_groups n False rest of (gs, v4, rest') \<Rightarrow> (g # gs, v4, rest'))
           | None \<Rightarrow> ([], False, s)))"

definition parse_ipv6 :: "string \<Rightarrow> nat list option" where
  "parse_ipv6 s =
     (case read_groups 8 True s of (head, v4, rest) \<Rightarrow>
        if length head = 8 then (if rest = [] then Some head else None)
        else if v4 then None
        else Option.bind (read_char CHR '':'' rest) (\<lambda>rest.
             Option.bind (read_char CHR '':'' rest) (\<lambda>rest.
             (case read_groups (7 - length head) True rest of (tail, _, rest) \<Rightarrow>
                if rest = [] then Some (head @ replicate (8 - length head - length tail) 0 @ tail)
                else None))))"

definition parse_ip :: "string \<Rightarrow> (string, ip_addr) outcome" where
  "parse_ip s =
     (case parse_ipv4 s of
        Ok ip \<Rightarrow> Ok (IP4 ip)
      | _ \<Rightarrow> (case parse_ipv6 s of
          Some gs \<Rightarrow> Ok (IP6 (word_of_nat (foldl (\<lambda>acc g. acc * 65536 + g) 0 gs)))
        | None \<Rightarrow> Err ''invalid IP address syntax''))"

section \<open>The resolver setting\<close>

datatype name_servers = Cloudflare | Cloudflare_https | Cloudflare_tls | Ips_clear "ip_addr list" nat bool

text \<open>The setting is an optional string: the argument is \<^const>\<open>None\<close> when the option is absent.\<close>

definition de_resolver :: "toml option \<Rightarrow> (de_error, name_servers option) outcome" where
  "de_resolver v =
     (case v of
        None \<Rightarrow> Ok None
      | Some v \<Rightarrow>
          and_then (de_str v) (\<lambda>res.
            if res = ''cloudflare'' then Ok (Some Cloudflare)
            else if res = ''cloudflare_https'' then Ok (Some Cloudflare_https)
            else if res = ''cloudflare_tls'' then Ok (Some Cloudflare_tls)
            else if starts_with ''tls://'' res then Panic ''internal error: entered unreachable code''
            else if starts_with ''https://'' res then Panic ''internal error: entered unreachable code''
            else and_then (map_err Custom (parse_ip res)) (\<lambda>ip. Ok (Some (Ips_clear [ip] 53 False)))))"

section \<open>The configuration\<close>

record api_config =
  api_http :: listener
  api_https :: listener
  api_prom :: listener

record general =
  g_test :: "name_servers option"
  g_dns :: string
  g_db :: string
  g_acme :: string
  g_name :: string

record config =
  conf_general :: general
  conf_api :: api_config
  conf_records :: preconfigured

definition DEFAULT_ACME :: string where
  "DEFAULT_ACME = ''https://acme-v02.api.letsencrypt.org/directory''"

definition default_acme :: string where
  "default_acme = DEFAULT_ACME"

definition DEFAULT_CONFIG_PATH :: string where
  "DEFAULT_CONFIG_PATH = ''config.toml''"

text \<open>
  A derived \<^verbatim>\<open>Deserialize\<close> visits the entries of a table in order (their keys are distinct), reads the
  fields it knows, skips the others, and then fills in the defaults or reports a missing field, in the
  order of the fields.
\<close>

fun visit_fields :: "(string \<Rightarrow> toml \<Rightarrow> 'p \<Rightarrow> (de_error, 'p) outcome) \<Rightarrow> (string \<times> toml) list \<Rightarrow> 'p \<Rightarrow>
    (de_error, 'p) outcome" where
  "visit_fields f [] p = Ok p"
| "visit_fields f ((key, v) # es) p = and_then (f key v p) (visit_fields f es)"

definition required :: "string \<Rightarrow> 'a option \<Rightarrow> (de_error, 'a) outcome" where
  "required key x = ok_or (Missing_field key) x"

definition or_default :: "'a \<Rightarrow> 'a option \<Rightarrow> 'a" where
  "or_default d x = (case x of Some a \<Rightarrow> a | None \<Rightarrow> d)"

type_synonym api_fields = "listener option \<times> listener option \<times> listener option"

definition api_field :: "(toml list \<Rightarrow> (de_error, unit) outcome) \<Rightarrow> string \<Rightarrow> toml \<Rightarrow> api_fields \<Rightarrow>
    (de_error, api_fields) outcome" where
  "api_field finish key v = (\<lambda>(h, hs, p).
     if key = ''http'' then and_then (de_listener finish v) (\<lambda>l. Ok (Some l, hs, p))
     else if key = ''https'' then and_then (de_listener finish v) (\<lambda>l. Ok (h, Some l, p))
     else if key = ''prom'' then and_then (de_listener finish v) (\<lambda>l. Ok (h, hs, Some l))
     else Ok (h, hs, p))"

fun de_api :: "(toml list \<Rightarrow> (de_error, unit) outcome) \<Rightarrow> toml \<Rightarrow> (de_error, api_config) outcome" where
  "de_api finish (T_Map es) =
     and_then (visit_fields (api_field finish) es (None, None, None)) (\<lambda>(h, hs, p).
     Ok \<lparr>api_http = or_default listener_default h, api_https = or_default listener_default hs,
        api_prom = or_default listener_default p\<rparr>)"
| "de_api finish _ = Err (Invalid_type ''struct Api'')"

type_synonym general_fields =
  "name_servers option option \<times> string option \<times> string option \<times> string option \<times> string option"

definition general_field :: "string \<Rightarrow> toml \<Rightarrow> general_fields \<Rightarrow> (de_error, general_fields) outcome" where
  "general_field key v = (\<lambda>(t, dn, d, a, n).
     if key = ''test'' then and_then (de_resolver (Some v)) (\<lambda>x. Ok (Some x, dn, d, a, n))
     else if key = ''dns'' then and_then (de_string v) (\<lambda>x. Ok (t, Some x, d, a, n))
     else if key = ''db'' then and_then (de_string v) (\<lambda>x. Ok (t, dn, Some x, a, n))
     else if key = ''acme'' then and_then (de_string v) (\<lambda>x. Ok (t, dn, d, Some x, n))
     else if key = ''name'' then and_then (de_string v) (\<lambda>x. Ok (t, dn, d, a, Some x))
     else Ok (t, dn, d, a, n))"

fun de_general :: "toml \<Rightarrow> (de_error, general) outcome" where
  "de_general (T_Map es) =
     and_then (visit_fields general_field es (None, None, None, None, None)) (\<lambda>(t, dn, d, a, n).
     and_then (required ''dns'' dn) (\<lambda>dn.
     and_then (required ''db'' d) (\<lambda>d.
     and_then (required ''name'' n) (\<lambda>n.
     Ok \<lparr>g_test = or_default None t, g_dns = dn, g_db = d, g_acme = or_default default_acme a, g_name = n\<rparr>))))"
| "de_general _ = Err (Invalid_type ''struct General'')"

type_synonym config_fields = "general option \<times> api_config option \<times> preconfigured option"

definition config_field :: "dns_lib \<Rightarrow> (toml list \<Rightarrow> (de_error, unit) outcome) \<Rightarrow> string \<Rightarrow> toml \<Rightarrow> config_fields \<Rightarrow>
    (de_error, config_fields) outcome" where
  "config_field L finish key v = (\<lambda>(g, a, r).
     if key = ''general'' then and_then (de_general v) (\<lambda>x. Ok (Some x, a, r))
     else if key = ''api'' then and_then (de_api finish v) (\<lambda>x. Ok (g, Some x, r))
     else if key = ''records'' then and_then (de_records L v) (\<lambda>x. Ok (g, a, Some x))
     else Ok (g, a, r))"

fun de_config :: "dns_lib \<Rightarrow> (toml list \<Rightarrow> (de_error, unit) outcome) \<Rightarrow> toml \<Rightarrow> (de_error, config) outcome" where
  "de_config L finish (T_Map es) =
     and_then (visit_fields (config_field L finish) es (None, None, None)) (\<lambda>(g, a, r).
     and_then (required ''general'' g) (\<lambda>g.
     and_then (required ''api'' a) (\<lambda>a.
     Ok \<lparr>conf_general = g, conf_api = a, conf_records = or_default Map.empty r\<rparr>)))"
| "de_config L finish _ = Err (Invalid_type ''struct Config'')"

section \<open>The log\<close>

text \<open>
  The derived \<^verbatim>\<open>Debug\<close> output of a string: quoted, with backslashes, quotes and control characters
  escaped; printable characters stand as they are, as those beyond ASCII do here.
\<close>

definition hex_char :: "nat \<Rightarrow> char" where
  "hex_char n = ''0123456789abcdef'' ! n"

definition escape_char :: "char \<Rightarrow> string" where
  "escape_char c =
     (let n = of_char c :: nat in
      if n = 34 then [char_of (92::nat), c]
      else if n = 92 then [c, c]
      else if n = 0 then char_of (92::nat) # ''0''
      else if n = 9 then char_of (92::nat) # ''t''
      else if n = 10 then char_of (92::nat) # ''n''
      else if n = 13 then char_of (92::nat) # ''r''
      else if n < 16 then char_of (92::nat) # ''u{'' @ [hex_char n] @ ''}''
      else if n < 32 \<or> n = 127 then char_of (92::nat) # ''u{'' @ [hex_char (n div 16), hex_char (n mod 16)] @ ''}''
      else [c])"

definition debug_str :: "string \<Rightarrow> string" where
  "debug_str s = char_of (34::nat) # concat (map escape_char s) @ [char_of (34::nat)]"

definition debug_listener :: "listener \<Rightarrow> string" where
  "debug_listener l =
     ''('' @ (case fst l of None \<Rightarrow> ''None'' | Some a \<Rightarrow> ''Some('' @ debug_str a @ '')'') @ '', '' @
     (case snd l of Enabled \<Rightarrow> ''Enabled'' | Disabled \<Rightarrow> ''Disabled'') @ '')''"

text \<open>The output of the library's types is the parameter pair \<open>dbg\<close>: the resolver and the records.\<close>

type_synonym debug_lib = "(name_servers option \<Rightarrow> string) \<times> (preconfigured \<Rightarrow> string)"

definition debug_config :: "debug_lib \<Rightarrow> config \<Rightarrow> string" where
  "debug_config dbg c =
     ''Config { general: General { test: '' @ fst dbg (g_test (conf_general c)) @
     '', dns: '' @ debug_str (g_dns (conf_general c)) @
     '', db: '' @ debug_str (g_db (conf_general c)) @
     '', acme: '' @ debug_str (g_acme (conf_general c)) @
     '', name: '' @ debug_str (g_name (conf_general c)) @
     '' }, api: Api { http: '' @ debug_listener (api_http (conf_api c)) @
     '', https: '' @ debug_listener (api_https (conf_api c)) @
     '', prom: '' @ debug_listener (api_prom (conf_api c)) @
     '' }, records: '' @ snd dbg (conf_records c) @ '' }''"

text \<open>
  \<^verbatim>\<open>str::replace\<close>: the matches of the pattern from left to right, without overlaps; the empty pattern
  matches before every character and at the end.
\<close>

function str_replace :: "string \<Rightarrow> string \<Rightarrow> string \<Rightarrow> string" where
  "str_replace pat to [] = (if pat = [] then to else [])"
| "str_replace pat to (c # cs) =
     (if pat = [] then to @ c # str_replace pat to cs
      else if starts_with pat (c # cs) then to @ str_replace pat to (drop (length pat - 1) cs)
      else c # str_replace pat to cs)"
  by pat_completeness auto
termination
  by (relation "measure (\<lambda>(pat, to, s). length s)") auto

text \<open>
  \<^verbatim>\<open>load_config\<close> returns the configuration with the line it logs; \<open>read_file\<close> and \<open>from_slice\<close> are the
  file system and the TOML parser.
\<close>

definition redacted :: "debug_lib \<Rightarrow> config \<Rightarrow> string" where
  "redacted dbg c = str_replace (g_db (conf_general c)) ''******'' (debug_config dbg c)"

definition load_config :: "dns_lib \<Rightarrow> (toml list \<Rightarrow> (de_error, unit) outcome) \<Rightarrow> debug_lib \<Rightarrow>
    (string \<Rightarrow> (io_error, bytes) outcome) \<Rightarrow> (bytes \<Rightarrow> (de_error, toml) outcome) \<Rightarrow> string option \<Rightarrow>
    (any_err, config \<times> string) outcome" where
  "load_config L finish dbg read_file from_slice config_path =
     (let path = or_default DEFAULT_CONFIG_PATH config_path in
      and_then (map_err (\<lambda>_. A_Msg (''{config_path='' @ path @ ''}'')) (read_file path)) (\<lambda>file.
      and_then (map_err (\<lambda>_. A_Msg ''could not deserialize the configuration'')
        (and_then (from_slice file) (de_config L finish))) (\<lambda>config.
      Ok (config, redacted dbg config))))"

section \<open>Redaction\<close>

lemma replace_prefix:
  assumes "pat \<noteq> []" and "to \<noteq> []" and "hd to \<notin> set q" and "str_replace pat to s = q @ r"
  shows "\<exists>r'. s = q @ r'"
  using assms
proof (induction pat to s arbitrary: q rule: str_replace.induct)
  case (1 pat to)
  then show ?case by simp
next
  case (2 pat to c cs)
  show ?case
  proof (cases q)
    case Nil
    then show ?thesis by simp
  next
    case (Cons d q')
    show ?thesis
    proof (cases "starts_with pat (c # cs)")
      case True
      then have "hd to = d"
        using 2(4,5,7) Cons by (cases to) auto
      then show ?thesis
        using 2(6) Cons by simp
    next
      case False
      then have "d = c" "str_replace pat to cs = q' @ r"
        using 2(4,7) Cons by auto
      then show ?thesis
        using 2(3) [OF 2(4) False 2(4,5), of q'] 2(6) Cons by auto
    qed
  qed
qed

text \<open>An occurrence in the result is an occurrence in a piece that was kept, which has none.\<close>

lemma replace_removes:
  assumes "pat \<noteq> []" and "to \<noteq> []" and "set to \<inter> set pat = {}"
  shows "str_replace pat to s \<noteq> p @ pat @ r"
  using assms
proof (induction pat to s arbitrary: p rule: str_replace.induct)
  case (1 pat to)
  then show ?case by simp
next
  case (2 pat to c cs)
  have hd: "hd to \<notin> set pat"
    using 2(5,6) by (cases to) auto
  show ?case
  proof (cases "starts_with pat (c # cs)")
    case False
    show ?thesis
    proof
      assume eq: "str_replace pat to (c # cs) = p @ pat @ r"
      show False
      proof (cases p)
        case Nil
        then have "\<exists>r'. c # cs = pat @ r'"
          using replace_prefix [OF 2(4,5) hd, of "c # cs" r] eq by simp
        then show False
          using False by auto
      next
        case (Cons d p')
        then have "str_replace pat to cs = p' @ pat @ r"
          using eq 2(4) False by simp
        then show False
          using 2(3) [OF 2(4) False 2(4-6)] by blast
      qed
    qed
  next
    case True
    let ?rest = "str_replace pat to (drop (length pat - 1) cs)"
    have rest: "?rest \<noteq> p' @ pat @ r" for p'
      using 2(2) [OF 2(4) True 2(4-6)] by blast
    show ?thesis
    proof
      assume "str_replace pat to (c # cs) = p @ pat @ r"
      then have eq: "to @ ?rest = p @ (pat @ r)"
        using True 2(4) by simp
      show False
      proof (cases "length to \<le> length p")
        case True
        then obtain p' where "p = to @ p'"
          using eq by (metis append_eq_append_conv_if append_take_drop_id)
        then have "?rest = p' @ pat @ r"
          using eq by simp
        then show False
          using rest by blast
      next
        case False
        then have "(to @ ?rest) ! length p = to ! length p"
          by (simp add: nth_append)
        moreover have "(p @ (pat @ r)) ! length p = hd pat"
          using 2(4) by (simp add: nth_append hd_conv_nth)
        ultimately have "hd pat = to ! length p"
          using eq by simp
        moreover have "to ! length p \<in> set to"
          using False by simp
        moreover have "hd pat \<in> set pat"
          using 2(4) by simp
        ultimately show False
          using 2(6) by auto
      qed
    qed
  qed
qed

lemma replace_unmatched: "\<not> occurs pat s \<Longrightarrow> str_replace pat to s = s"
  by (induction s) auto

lemma debug_str_plain:
  assumes "\<forall>c \<in> set s. escape_char c = [c]"
  shows "occurs s (debug_str s)"
proof -
  have "concat (map escape_char s) = s"
    using assms by (induction s) auto
  then show ?thesis
    unfolding occurs_iff debug_str_def by (metis append_Cons append_Nil)
qed

lemma debug_config_db: "occurs (debug_str (g_db (conf_general c))) (debug_config dbg c)"
proof -
  have "\<exists>before after. debug_config dbg c = before @ debug_str (g_db (conf_general c)) @ after"
    unfolding debug_config_def append.assoc [symmetric] by (metis append.assoc)
  then show ?thesis
    by (simp add: occurs_iff)
qed

section \<open>Properties\<close>

text \<open>An example configuration.\<close>

definition example_config :: "string \<Rightarrow> config" where
  "example_config database = \<lparr>
     conf_general = \<lparr>g_test = None, g_dns = ''0.0.0.0:53'', g_db = database, g_acme = default_acme,
       g_name = ''acme.example.com''\<rparr>,
     conf_api = \<lparr>api_http = listener_default, api_https = (Some ''0.0.0.0:443'', Disabled),
       api_prom = listener_default\<rparr>,
     conf_records = Map.empty\<rparr>"

definition example_toml :: "string \<Rightarrow> toml" where
  "example_toml db = T_Map [(''general'', T_Map [(''dns'', T_Str ''0.0.0.0:53''), (''db'', T_Str db),
     (''name'', T_Str ''acme.example.com'')]), (''api'', T_Map [])]"

text \<open>An address with a quote in its password.\<close>

definition quoted_address :: string where
  "quoted_address = ''postgres://u:se'' @ char_of (34::nat) # ''cret@host''"

definition example_debug :: debug_lib where
  "example_debug = (\<lambda>_. ''None'', \<lambda>_. ''{}'')"



text \<open>
  A configuration needs only the listening address, the database address and the name: the ACME
  directory, the listeners, the resolver and the records have their documented defaults, and keys that
  are not known are ignored.
\<close>

theorem config_defaults:
  "de_config L finish (T_Map [(''general'', T_Map [(''dns'', T_Str dn), (''db'', T_Str d), (''name'', T_Str n)]),
     (''api'', T_Map []), (''comment'', v)])
   = Ok \<lparr>conf_general = \<lparr>g_test = None, g_dns = dn, g_db = d,
           g_acme = ''https://acme-v02.api.letsencrypt.org/directory'', g_name = n\<rparr>,
         conf_api = \<lparr>api_http = (None, Disabled), api_https = (None, Disabled), api_prom = (None, Disabled)\<rparr>,
         conf_records = Map.empty\<rparr>"
  by (simp add: config_field_def general_field_def required_def or_default_def default_acme_def
      DEFAULT_ACME_def listener_default_def proxy_default_def)

text \<open>
  Reading the resolver setting panics exactly for the settings that begin with tls:// or https://;
  every other setting is accepted or refused with an error.
\<close>

theorem resolver_panics:
  "is_panic (de_resolver (Some (T_Str s))) \<longleftrightarrow> starts_with ''tls://'' s \<or> starts_with ''https://'' s"
proof -
  have "\<not> is_panic (parse_ip s)"
    by (simp add: parse_ip_def split: outcome.split option.split)
  then have ip: "\<not> is_panic (and_then (map_err Custom (parse_ip s)) (\<lambda>ip. Ok (Some (Ips_clear [ip] 53 False))))"
    by (cases "parse_ip s") simp_all
  show ?thesis
    using ip by (auto simp: de_resolver_def)
qed

end
