(* ===== verification/Store.thy ===== *)
theory Store
  imports Prelude
begin

text \<open>
  A collection keyed by a string: the model of both a Rust \<^verbatim>\<open>HashMap\<close> and a table with a primary
  key. It holds its entries in the order in which an iteration (or a scan without ORDER BY) meets
  them. That order is not specified, and may change with every write that restructures the
  collection, so it is decided by an arbitrary ranking of the keys, one for each generation of the
  collection.
\<close>

record 'v store =
  entries :: "(string \<times> 'v) list"
  ranking :: "nat \<Rightarrow> string \<Rightarrow> nat"
  generation :: nat

definition empty_store :: "(nat \<Rightarrow> string \<Rightarrow> nat) \<Rightarrow> 'v store" where
  "empty_store r = \<lparr>entries = [], ranking = r, generation = 0\<rparr>"

definition lookup :: "'v store \<Rightarrow> string \<Rightarrow> 'v option" where
  "lookup m k = map_of (entries m) k"

definition first_value :: "'v store \<Rightarrow> 'v option" where
  "first_value m = (case entries m of [] \<Rightarrow> None | (k, v) # _ \<Rightarrow> Some v)"

definition reorder :: "'v store \<Rightarrow> 'v store" where
  "reorder m = m\<lparr>entries := sort_key (ranking m (Suc (generation m)) \<circ> fst) (entries m),
                 generation := Suc (generation m)\<rparr>"

text \<open>Replacing the value of a key that is there; other keys are untouched.\<close>

definition replace :: "string \<Rightarrow> 'v \<Rightarrow> 'v store \<Rightarrow> 'v store" where
  "replace k v m = m\<lparr>entries := map (\<lambda>(i, w). if i = k then (i, v) else (i, w)) (entries m)\<rparr>"

definition insert_new :: "string \<Rightarrow> 'v \<Rightarrow> 'v store \<Rightarrow> 'v store" where
  "insert_new k v m = reorder (m\<lparr>entries := entries m @ [(k, v)]\<rparr>)"

text \<open>\<^verbatim>\<open>HashMap::insert\<close>: an existing key keeps its place and gets the new value.\<close>

definition put :: "string \<Rightarrow> 'v \<Rightarrow> 'v store \<Rightarrow> 'v store" where
  "put k v m = (if lookup m k = None then insert_new k v m else replace k v m)"

definition wf_store :: "'v store \<Rightarrow> bool" where
  "wf_store m \<longleftrightarrow> distinct (map fst (entries m))"

definition store_size :: "'v store \<Rightarrow> nat" where
  "store_size m = length (entries m)"

lemma wf_empty_store [simp]: "wf_store (empty_store r)"
  by (simp add: wf_store_def empty_store_def)

lemma lookup_empty_store [simp]: "lookup (empty_store r) = Map.empty"
  by (simp add: lookup_def empty_store_def fun_eq_iff)

lemma map_fst_replace [simp]: "map fst (entries (replace k v m)) = map fst (entries m)"
  by (simp add: replace_def comp_def case_prod_beta if_distrib cong: if_cong)

lemma lookup_replace [simp]:
  "lookup (replace k v m) = (if lookup m k = None then lookup m else (lookup m)(k \<mapsto> v))"
proof -
  have "map_of (map (\<lambda>(i, w). if i = k then (i, v) else (i, w)) xs)
      = (if map_of xs k = None then map_of xs else (map_of xs)(k \<mapsto> v))" for xs
    by (induction xs) auto
  then show ?thesis
    by (simp add: lookup_def replace_def fun_eq_iff)
qed

lemma wf_replace [simp]: "wf_store (replace k v m) = wf_store m"
  by (simp add: wf_store_def)

lemma wf_reorder [simp]: "wf_store (reorder m) = wf_store m"
  by (simp add: wf_store_def reorder_def distinct_map)

lemma lookup_reorder [simp]: "wf_store m \<Longrightarrow> lookup (reorder m) = lookup m"
  by (simp add: lookup_def reorder_def wf_store_def map_of_sort_key fun_eq_iff)

lemma lookup_None_iff: "lookup m k = None \<longleftrightarrow> k \<notin> fst ` set (entries m)"
  by (simp add: lookup_def map_of_eq_None_iff)

lemma wf_insert_new [simp]: "wf_store m \<Longrightarrow> lookup m k = None \<Longrightarrow> wf_store (insert_new k v m)"
  by (simp add: insert_new_def lookup_None_iff) (simp add: wf_store_def)

lemma lookup_insert_new [simp]:
  assumes "wf_store m" and "lookup m k = None"
  shows "lookup (insert_new k v m) = (lookup m)(k \<mapsto> v)"
proof -
  let ?m = "m\<lparr>entries := entries m @ [(k, v)]\<rparr>"
  have "wf_store ?m"
    using assms by (simp add: wf_store_def lookup_None_iff)
  then have "lookup (insert_new k v m) = lookup ?m"
    by (simp add: insert_new_def)
  also have "\<dots> = (lookup m)(k \<mapsto> v)"
    using assms(2) by (auto simp: lookup_def fun_eq_iff map_add_def split: option.split)
  finally show ?thesis .
qed

lemma wf_put [simp]: "wf_store m \<Longrightarrow> wf_store (put k v m)"
  by (simp add: put_def)

lemma lookup_put [simp]: "wf_store m \<Longrightarrow> lookup (put k v m) = (lookup m)(k \<mapsto> v)"
  by (simp add: put_def)

lemma size_replace [simp]: "store_size (replace k v m) = store_size m"
  by (simp add: store_size_def replace_def)

lemma size_reorder [simp]: "store_size (reorder m) = store_size m"
  by (simp add: store_size_def reorder_def)

lemma size_insert_new [simp]: "store_size (insert_new k v m) = Suc (store_size m)"
  by (simp add: insert_new_def) (simp add: store_size_def)

lemma size_0_iff: "store_size m = 0 \<longleftrightarrow> lookup m = Map.empty"
  by (cases "entries m") (auto simp: store_size_def lookup_def fun_eq_iff map_of_eq_None_iff)

text \<open>
  The first value met is some entry of the collection, and with at most one entry the order does not
  matter.
\<close>

lemma first_value_None_iff: "first_value m = None \<longleftrightarrow> store_size m = 0"
  by (simp add: first_value_def store_size_def split: list.split)

lemma first_value_SomeE:
  assumes "first_value m = Some v"
  obtains k where "lookup m k = Some v" and "(k, v) \<in> set (entries m)"
proof (cases "entries m")
  case Nil
  with assms show ?thesis by (simp add: first_value_def)
next
  case (Cons e es)
  with assms show ?thesis
    using that [of "fst e"] by (cases e) (simp add: first_value_def lookup_def)
qed

lemma single_entryE:
  assumes "store_size m \<le> 1" and "lookup m k = Some v"
  shows "entries m = [(k, v)]"
  using assms by (cases "entries m") (auto simp: store_size_def lookup_def split: if_splits)

lemma first_value_single: "store_size m \<le> 1 \<Longrightarrow> lookup m k = Some v \<Longrightarrow> first_value m = Some v"
  by (simp add: first_value_def single_entryE)

lemma lookup_single:
  assumes "store_size m \<le> 1" and "first_value m = Some v"
  obtains k where "lookup m = [k \<mapsto> v]"
proof -
  from assms(2) obtain k where "lookup m k = Some v" by (rule first_value_SomeE)
  with assms(1) have "entries m = [(k, v)]" by (rule single_entryE)
  then have "lookup m = [k \<mapsto> v]" by (simp add: lookup_def fun_eq_iff)
  then show ?thesis by (rule that)
qed

text \<open>Every value is stored under the key it names itself by.\<close>

definition keyed_by :: "('v \<Rightarrow> string) \<Rightarrow> 'v store \<Rightarrow> bool" where
  "keyed_by f m \<longleftrightarrow> (\<forall>k v. lookup m k = Some v \<longrightarrow> f v = k)"

lemma keyed_byD: "keyed_by f m \<Longrightarrow> lookup m k = Some v \<Longrightarrow> f v = k"
  by (simp add: keyed_by_def)

lemma keyed_by_empty [simp]: "keyed_by f (empty_store r)"
  by (simp add: keyed_by_def)

lemma keyed_by_upd: "keyed_by f m \<Longrightarrow> lookup m' = (lookup m)(f v \<mapsto> v) \<Longrightarrow> keyed_by f m'"
  by (simp add: keyed_by_def)

lemma keyed_by_single:
  assumes "store_size m \<le> 1" and "keyed_by f m" and "first_value m = Some v"
  shows "entries m = [(f v, v)]"
proof -
  from assms(3) obtain k where k: "lookup m k = Some v" by (rule first_value_SomeE)
  have "entries m = [(k, v)]"
    using assms(1) k by (rule single_entryE)
  moreover have "f v = k"
    using assms(2) k by (rule keyed_byD)
  ultimately show ?thesis by simp
qed

end
