(* ===== verification/Facade.thy ===== *)
theory Facade
  imports Util Store
begin

text \<open>
  The data of \<^verbatim>\<open>src/facade\<close>, its two traits as records of operations, the job protocol of
  \<^verbatim>\<open>start_cert\<close> and \<^verbatim>\<open>stop_cert\<close> as a specification on an abstract state, and the locales that
  say what an implementation of the traits promises. The two implementations are in
  \<open>Facade_Memory\<close> and \<open>Facade_Database\<close>; the clients (certificate manager, DNS authority, TLS
  acceptor, HTTP routes) rely on the locales only.
\<close>

section \<open>Certificates and domains\<close>

text \<open>\<^verbatim>\<open>State::Ok\<close> is renamed: \<open>Ok\<close> is the success of an outcome.\<close>

datatype cert_state = State_Ok | Updating

record cert =
  c_id :: string
  c_update :: i64
  c_state :: cert_state
  c_cert :: "string option"
  c_private :: "string option"
  c_domain :: string

text \<open>\<^verbatim>\<open>PartialEq for Cert\<close> compares three of the six fields.\<close>

definition cert_eq :: "cert \<Rightarrow> cert \<Rightarrow> bool" where
  "cert_eq a b \<longleftrightarrow> c_id a = c_id b \<and> c_cert a = c_cert b \<and> c_private a = c_private b"

record domain =
  d_id :: string
  d_username :: string
  d_password :: string
  d_txt :: "string option"

record domain_dto =
  dto_id :: string
  dto_username :: string
  dto_password :: string

section \<open>What the operations take from outside\<close>

text \<open>
  The clock, the random 128-bit values in the order in which an operation draws them, the bcrypt
  hash function (a library) with its default cost, and the byte order of the machine.
\<close>

record env =
  clock :: int
  drawn :: "nat \<Rightarrow> 128 word"
  bcrypt_hash :: "string \<Rightarrow> nat \<Rightarrow> (string, string) outcome"
  default_cost :: nat
  byte_order :: endian

definition dto_default :: "env \<Rightarrow> domain_dto" where
  "dto_default env = \<lparr>dto_id = uuid (drawn env 0), dto_username = uuid (drawn env 1),
     dto_password = uuid (drawn env 2)\<rparr>"

definition domain_try_from :: "env \<Rightarrow> domain_dto \<Rightarrow> (any_err, domain) outcome" where
  "domain_try_from env input =
     and_then (map_err A_Bcrypt (bcrypt_hash env (dto_password input) (default_cost env)))
       (\<lambda>password. Ok \<lparr>d_id = dto_id input, d_username = dto_username input,
          d_password = password, d_txt = None\<rparr>)"

definition domain_new :: "env \<Rightarrow> (any_err, domain) outcome" where
  "domain_new env =
     and_then (map_err A_Bcrypt (bcrypt_hash env (uuid (drawn env 0)) (default_cost env)))
       (\<lambda>password. Ok \<lparr>d_id = uuid (drawn env 1), d_username = uuid (drawn env 2),
          d_password = password, d_txt = None\<rparr>)"

definition cert_new :: "env \<Rightarrow> domain \<Rightarrow> (any_err, cert) outcome" where
  "cert_new env d =
     and_then (now (clock env))
       (\<lambda>t. Ok \<lparr>c_id = uuid (drawn env 3), c_update = to_i64 (byte_order env) t,
          c_state = Updating, c_cert = None, c_private = None, c_domain = d_id d\<rparr>)"

section \<open>The traits\<close>

text \<open>
  \<^verbatim>\<open>DomainFacade\<close> and \<^verbatim>\<open>CertFacade\<close> as records of operations over a state \<open>'s\<close>. \<^verbatim>\<open>stop_cert\<close>
  takes the certificate by mutable reference, so it returns it as it left it.
\<close>

record 's domain_facade =
  find_domain_by_id :: "string \<Rightarrow> ('s, sqlx_error, domain option) op"
  create_domain :: "domain \<Rightarrow> ('s, sqlx_error, unit) op"
  update_domain :: "domain \<Rightarrow> ('s, sqlx_error, unit) op"

record 's facade = "'s domain_facade" +
  first_cert :: "('s, sqlx_error, cert option) op"
  update_cert :: "cert \<Rightarrow> ('s, sqlx_error, unit) op"
  create_cert :: "cert \<Rightarrow> ('s, sqlx_error, unit) op"
  start_cert :: "env \<Rightarrow> ('s, any_err, cert option) op"
  stop_cert :: "cert \<Rightarrow> ('s, sqlx_error, cert) op"

section \<open>The job protocol on an abstract state\<close>

text \<open>
  What both implementations hold, without the order of the entries: the domains by their id, and
  the certificate (the program never creates a second one).
\<close>

record astate =
  a_domains :: "string \<rightharpoonup> domain"
  a_cert :: "cert option"

definition one_hour_ago :: "i64 \<Rightarrow> i64" where
  "one_hour_ago t = t - HOUR_IN_SECONDS"

text \<open>
  A job is the work on a certificate in state \<open>Updating\<close>. Its lease runs from \<open>c_update\<close>; it is
  expired when it started more than an hour ago.
\<close>

definition lease_expired :: "i64 \<Rightarrow> cert \<Rightarrow> bool" where
  "lease_expired t c \<longleftrightarrow> sint (c_update c) < sint (one_hour_ago t)"

definition start_spec :: "env \<Rightarrow> astate \<Rightarrow> (any_err, cert option) outcome \<times> astate" where
  "start_spec env a =
     (case a_cert a of
        Some c \<Rightarrow>
          if c_state c = State_Ok then
            let c' = c\<lparr>c_state := Updating\<rparr> in (Ok (Some c'), a\<lparr>a_cert := Some c'\<rparr>)
          else
            (case now (clock env) of
               Ok t \<Rightarrow>
                 if lease_expired (to_i64 (byte_order env) t) c then
                   let c' = c\<lparr>c_update := to_i64 (byte_order env) t, c_state := Updating\<rparr>
                   in (Ok (Some c'), a\<lparr>a_cert := Some c'\<rparr>)
                 else (Ok None, a)
             | Err e \<Rightarrow> (Err e, a)
             | Panic p \<Rightarrow> (Panic p, a))
      | None \<Rightarrow>
          (case and_then (domain_new env)
                  (\<lambda>d. and_then (cert_new env d) (\<lambda>c. Ok (d, c))) of
             Ok (d, c) \<Rightarrow>
               (Ok (Some c), a\<lparr>a_domains := (a_domains a)(d_id d \<mapsto> d), a_cert := Some c\<rparr>)
           | Err e \<Rightarrow> (Err e, a)
           | Panic p \<Rightarrow> (Panic p, a)))"

definition stop_spec :: "cert \<Rightarrow> astate \<Rightarrow> cert \<times> astate" where
  "stop_spec m a =
     (case a_cert a of
        Some c \<Rightarrow>
          if c_state c = Updating \<and> c_update c = c_update m then
            let m' = m\<lparr>c_state := State_Ok\<rparr> in (m', a\<lparr>a_cert := Some m'\<rparr>)
          else (m, a)
      | None \<Rightarrow> (m, a))"

text \<open>The certificate refers to a domain that is there, as the foreign key of the schema says.\<close>

definition a_wf :: "astate \<Rightarrow> bool" where
  "a_wf a \<longleftrightarrow> (\<forall>i d. a_domains a i = Some d \<longrightarrow> d_id d = i) \<and>
     (case a_cert a of None \<Rightarrow> True | Some c \<Rightarrow> a_domains a (c_domain c) \<noteq> None)"

lemma a_wf_key: "a_wf a \<Longrightarrow> a_domains a i = Some d \<Longrightarrow> d_id d = i"
  by (simp add: a_wf_def)

lemma a_wf_cert: "a_wf a \<Longrightarrow> a_cert a = Some c \<Longrightarrow> a_domains a (c_domain c) \<noteq> None"
  by (simp add: a_wf_def)

lemma domain_new_OkD: "domain_new env = Ok d \<Longrightarrow>
    d_id d = uuid (drawn env 1) \<and> d_username d = uuid (drawn env 2) \<and> d_txt d = None \<and>
    bcrypt_hash env (uuid (drawn env 0)) (default_cost env) = Ok (d_password d)"
  by (cases "bcrypt_hash env (uuid (drawn env 0)) (default_cost env)") (auto simp: domain_new_def)

lemma cert_new_OkD: "cert_new env d = Ok c \<Longrightarrow>
    c_id c = uuid (drawn env 3) \<and> c_update c = word_of_int (clock env) \<and> c_state c = Updating \<and>
    c_cert c = None \<and> c_private c = None \<and> c_domain c = d_id d \<and> 0 \<le> clock env"
  by (auto simp: cert_new_def now_def split: if_splits)

lemma start_spec_cases:
  obtains (idle) c where "a_cert a = Some c" and "c_state c = State_Ok"
      and "start_spec env a = (Ok (Some (c\<lparr>c_state := Updating\<rparr>)),
             a\<lparr>a_cert := Some (c\<lparr>c_state := Updating\<rparr>)\<rparr>)"
    | (expired) c where "a_cert a = Some c" and "c_state c = Updating" and "0 \<le> clock env"
      and "lease_expired (word_of_int (clock env)) c"
      and "start_spec env a = (Ok (Some (c\<lparr>c_update := word_of_int (clock env)\<rparr>)),
             a\<lparr>a_cert := Some (c\<lparr>c_update := word_of_int (clock env)\<rparr>)\<rparr>)"
    | (running) c where "a_cert a = Some c" and "c_state c = Updating" and "0 \<le> clock env"
      and "\<not> lease_expired (word_of_int (clock env)) c" and "start_spec env a = (Ok None, a)"
    | (fresh) d c where "a_cert a = None" and "domain_new env = Ok d" and "cert_new env d = Ok c"
      and "start_spec env a = (Ok (Some c),
             a\<lparr>a_domains := (a_domains a)(d_id d \<mapsto> d), a_cert := Some c\<rparr>)"
    | (failed) r where "start_spec env a = (r, a)" and "\<And>x. r \<noteq> Ok x"
proof (cases "a_cert a")
  case None
  show ?thesis
  proof (cases "and_then (domain_new env) (\<lambda>d. and_then (cert_new env d) (\<lambda>c. Ok (d, c)))")
    case (Ok dc)
    then obtain d c where "domain_new env = Ok d" "cert_new env d = Ok c" "dc = (d, c)"
      by (elim and_then_OkE) auto
    with None Ok show ?thesis by (intro fresh) (auto simp: start_spec_def)
  next
    case (Err e)
    with None show ?thesis by (intro failed [of "Err e"]) (auto simp: start_spec_def)
  next
    case (Panic p)
    with None show ?thesis by (intro failed [of "Panic p"]) (auto simp: start_spec_def)
  qed
next
  case (Some c)
  consider "c_state c = State_Ok" | "c_state c = Updating" "0 \<le> clock env"
    | "c_state c = Updating" "clock env < 0"
    by (cases "c_state c"; cases "clock env < 0") auto
  then show ?thesis
  proof cases
    case 1
    with Some show ?thesis by (intro idle) (auto simp: start_spec_def Let_def)
  next
    case 2
    have upd: "c\<lparr>c_update := t, c_state := Updating\<rparr> = c\<lparr>c_update := t\<rparr>" for t
      using 2(1) by simp
    show ?thesis
    proof (cases "lease_expired (word_of_int (clock env)) c")
      case True
      with Some 2 show ?thesis by (intro expired) (simp_all add: start_spec_def Let_def upd)
    next
      case False
      with Some 2 show ?thesis by (intro running) (simp_all add: start_spec_def)
    qed
  next
    case 3
    with Some show ?thesis
      by (intro failed [of "Panic ''unix epoch is safe''"]) (auto simp: start_spec_def now_def)
  qed
qed

lemma start_spec_wf: "a_wf a \<Longrightarrow> a_wf (snd (start_spec env a))"
  by (cases rule: start_spec_cases [of a env])
    (auto simp: a_wf_def dest: cert_new_OkD split: if_splits)

lemma start_spec_Some:
  assumes "start_spec env a = (Ok (Some c), a')"
  shows "a_cert a' = Some c" and "c_state c = Updating"
  using assms by (cases rule: start_spec_cases [of a env]; auto dest: cert_new_OkD)+

lemma start_spec_None: "start_spec env a = (Ok None, a') \<Longrightarrow> a' = a"
  by (cases rule: start_spec_cases [of a env]) auto

lemma start_spec_not_Ok: "start_spec env a = (r, a') \<Longrightarrow> (\<And>x. r \<noteq> Ok x) \<Longrightarrow> a' = a"
  by (cases rule: start_spec_cases [of a env]) auto

text \<open>A start panics only on a clock before 1970 or when bcrypt does.\<close>

lemma start_spec_Panic:
  "fst (start_spec env a) = Panic p \<Longrightarrow> p = ''unix epoch is safe'' \<and> clock env < 0 \<or>
    bcrypt_hash env (uuid (drawn env 0)) (default_cost env) = Panic p"
  by (cases "bcrypt_hash env (uuid (drawn env 0)) (default_cost env)")
    (auto simp: start_spec_def domain_new_def cert_new_def now_def Let_def split: option.splits if_splits)

section \<open>Leases\<close>

lemma one_hour_ago_sint: "0 \<le> t \<Longrightarrow> t < 2 ^ 63 \<Longrightarrow> sint (one_hour_ago (word_of_int t)) = t - 3600"
proof -
  assume "0 \<le> t" "t < 2 ^ 63"
  have "one_hour_ago (word_of_int t) = word_of_int (t - 3600)"
    by (simp add: one_hour_ago_def HOUR_IN_SECONDS_def)
  with \<open>0 \<le> t\<close> \<open>t < 2 ^ 63\<close> show ?thesis
    by (simp only:) (rule sint_word_of_int_64; simp)
qed

text \<open>
  At any clock: \<^verbatim>\<open>to_i64\<close> wraps from the year 292 billion on, and the subtraction brings the first hour
  after that back.
\<close>

definition lease_bound :: "int \<Rightarrow> int" where
  "lease_bound t = (if t < 2 ^ 63 + 3600 then t - 3600 else t - 3600 - 2 ^ 64)"

lemma one_hour_ago_wrap:
  assumes "0 \<le> t" and "t < 2 ^ 64"
  shows "sint (one_hour_ago (word_of_int t)) = lease_bound t"
proof -
  have "one_hour_ago (word_of_int t) = word_of_int (t - 3600)"
    by (simp add: one_hour_ago_def HOUR_IN_SECONDS_def)
  also have "\<dots> = word_of_int (lease_bound t)"
  proof -
    have "(word_of_int (2 ^ 64) :: i64) = 0"
      by simp
    then show ?thesis
      unfolding lease_bound_def by (simp only: of_int_diff if_split) simp
  qed
  also have "sint \<dots> = lease_bound t"
    using assms by (intro sint_word_of_int_64) (simp_all add: lease_bound_def)
  finally show ?thesis .
qed

lemma start_spec_lease:
  assumes "a_cert a = Some c" and "c_state c = Updating" and "0 \<le> clock env" and "clock env < 2 ^ 64"
  shows "start_spec env a =
    (if sint (c_update c) < lease_bound (clock env)
     then (Ok (Some (c\<lparr>c_update := word_of_int (clock env)\<rparr>)), a\<lparr>a_cert := Some (c\<lparr>c_update := word_of_int (clock env)\<rparr>)\<rparr>)
     else (Ok None, a))"
proof -
  have "c\<lparr>c_update := t, c_state := Updating\<rparr> = c\<lparr>c_update := t\<rparr>" for t
    using assms(2) by simp
  then show ?thesis
    using assms(1-3) by (simp add: start_spec_def lease_expired_def one_hour_ago_wrap [OF assms(3,4)] Let_def)
qed

lemma lease_expired_iff:
  assumes "0 \<le> t" and "t < 2 ^ 63"
  shows "lease_expired (word_of_int t) c \<longleftrightarrow> sint (c_update c) < t - 3600"
  by (simp only: lease_expired_def one_hour_ago_sint [OF assms])

text \<open>A job whose lease runs keeps every other one out.\<close>

lemma start_spec_running:
  assumes "a_cert a = Some c" and "c_state c = Updating"
    and "0 \<le> clock env" and "clock env < 2 ^ 63" and "clock env - 3600 \<le> sint (c_update c)"
  shows "start_spec env a = (Ok None, a)"
  using assms by (simp add: start_spec_def lease_expired_iff)

lemma start_spec_expired:
  assumes "a_cert a = Some c" and "c_state c = Updating"
    and "0 \<le> clock env" and "clock env < 2 ^ 63" and "sint (c_update c) < clock env - 3600"
  shows "start_spec env a = (Ok (Some (c\<lparr>c_update := word_of_int (clock env)\<rparr>)),
    a\<lparr>a_cert := Some (c\<lparr>c_update := word_of_int (clock env)\<rparr>)\<rparr>)"
proof -
  have "c\<lparr>c_update := t, c_state := Updating\<rparr> = c\<lparr>c_update := t\<rparr>" for t
    using assms(2) by simp
  then show ?thesis
    using assms by (simp add: start_spec_def lease_expired_iff Let_def)
qed

lemma stop_spec_current:
  assumes "a_cert a = Some c" and "c_state c = Updating" and "c_update c = c_update m"
  shows "stop_spec m a = (m\<lparr>c_state := State_Ok\<rparr>, a\<lparr>a_cert := Some (m\<lparr>c_state := State_Ok\<rparr>)\<rparr>)"
  using assms by (simp add: stop_spec_def Let_def)

lemma stop_spec_superseded:
  assumes "a_cert a = Some c" and "c_update c \<noteq> c_update m"
  shows "stop_spec m a = (m, a)"
  using assms by (simp add: stop_spec_def)

section \<open>What an implementation promises\<close>

text \<open>
  \<open>abs\<close> reads the abstract state and \<open>ok\<close> is the implementation's invariant. An operation that
  fails may have failed before or after its effect (a lost reply), so after an \<open>Err\<close> the abstract
  state is the old one or the one success would have left. Panics are excluded where the caller
  respects the operation's precondition.
\<close>

definition add_domain :: "domain \<Rightarrow> astate \<Rightarrow> astate" where
  "add_domain d a = a\<lparr>a_domains := (a_domains a)(d_id d \<mapsto> d)\<rparr>"

lemma add_domain_simps [simp]:
  "a_domains (add_domain d a) = (a_domains a)(d_id d \<mapsto> d)"
  "a_cert (add_domain d a) = a_cert a"
  by (simp_all add: add_domain_def)

lemma add_domain_wf: "a_wf a \<Longrightarrow> a_wf (add_domain d a)"
  by (auto simp: a_wf_def split: option.splits if_splits)

locale domain_provider =
  fixes F :: "('s, 'm) domain_facade_scheme"
    and abs :: "'s \<Rightarrow> astate"
    and ok :: "'s \<Rightarrow> bool"
  assumes wf: "ok s \<Longrightarrow> a_wf (abs s)"
    and find_frame: "find_domain_by_id F i s = (q, t) \<Longrightarrow> ok s \<Longrightarrow> ok t \<and> abs t = abs s"
    and find_Ok: "find_domain_by_id F i s = (Ok x, t) \<Longrightarrow> ok s \<Longrightarrow> x = a_domains (abs s) i"
    and find_Panic: "find_domain_by_id F i s = (Panic p, t) \<Longrightarrow> \<not> ok s"
    and create_frame: "create_domain F d s = (r, t) \<Longrightarrow> ok s \<Longrightarrow> ok t"
    and create_Ok: "create_domain F d s = (Ok u, t) \<Longrightarrow> ok s \<Longrightarrow> abs t = add_domain d (abs s)"
    and create_Err: "create_domain F d s = (Err e, t) \<Longrightarrow> ok s \<Longrightarrow>
      abs t = abs s \<or> abs t = add_domain d (abs s)"
    and create_Panic: "create_domain F d s = (Panic p, t) \<Longrightarrow> \<not> ok s"
    and update_frame: "update_domain F d s = (r, t) \<Longrightarrow> ok s \<Longrightarrow> a_domains (abs s) (d_id d) \<noteq> None \<Longrightarrow> ok t"
    and update_Ok: "update_domain F d s = (Ok u, t) \<Longrightarrow> ok s \<Longrightarrow> a_domains (abs s) (d_id d) \<noteq> None \<Longrightarrow>
      abs t = add_domain d (abs s)"
    and update_Err: "update_domain F d s = (Err e, t) \<Longrightarrow> ok s \<Longrightarrow> a_domains (abs s) (d_id d) \<noteq> None \<Longrightarrow>
      abs t = abs s \<or> abs t = add_domain d (abs s)"
    and update_Panic: "update_domain F d s = (Panic p, t) \<Longrightarrow> ok s \<Longrightarrow> a_domains (abs s) (d_id d) = None"
begin

lemma create_then_find:
  assumes "ok s" and "create_domain F d s = (Ok u, t)" and "find_domain_by_id F (d_id d) t = (Ok r, t')"
  shows "r = Some d"
  using find_Ok [OF assms(3) create_frame [OF assms(2,1)]] create_Ok [OF assms(2,1)] by simp

lemma update_then_find:
  assumes "ok s" and "a_domains (abs s) (d_id d) \<noteq> None"
    and "update_domain F d s = (Ok u, t)" and "find_domain_by_id F (d_id d) t = (Ok r, t')"
  shows "r = Some d"
  using find_Ok [OF assms(4) update_frame [OF assms(3,1,2)]] update_Ok [OF assms(3,1,2)] by simp

end

text \<open>
  A certificate handed out by \<open>start_cert\<close> goes back to \<open>stop_cert\<close> with the identity and the
  domain it came with.
\<close>

definition same_job :: "cert \<Rightarrow> astate \<Rightarrow> bool" where
  "same_job m a = (case a_cert a of None \<Rightarrow> True
     | Some c \<Rightarrow> c_id c = c_id m \<and> c_domain c = c_domain m)"

locale cert_provider =
  fixes F :: "('s, 'm) facade_scheme"
    and abs :: "'s \<Rightarrow> astate"
    and ok :: "'s \<Rightarrow> bool"
  assumes first_frame: "first_cert F s = (q, t) \<Longrightarrow> ok s \<Longrightarrow> ok t \<and> abs t = abs s"
    and first_Ok: "first_cert F s = (Ok c, t) \<Longrightarrow> ok s \<Longrightarrow> c = a_cert (abs s)"
    and first_Panic: "first_cert F s = (Panic p, t) \<Longrightarrow> \<not> ok s"
    and start_frame: "start_cert F env s = (q', t) \<Longrightarrow> ok s \<Longrightarrow> ok t"
    and start_Ok: "start_cert F env s = (Ok c, t) \<Longrightarrow> ok s \<Longrightarrow> start_spec env (abs s) = (Ok c, abs t)"
    and start_Err: "start_cert F env s = (Err e', t) \<Longrightarrow> ok s \<Longrightarrow>
      abs t = abs s \<or> abs t = snd (start_spec env (abs s))"
    and start_Panic: "start_cert F env s = (Panic p, t) \<Longrightarrow> ok s \<Longrightarrow>
      start_spec env (abs s) = (Panic p, abs t)"
    and stop_frame: "stop_cert F m s = (r, t) \<Longrightarrow> ok s \<Longrightarrow> same_job m (abs s) \<Longrightarrow> ok t"
    and stop_Ok: "stop_cert F m s = (Ok m', t) \<Longrightarrow> ok s \<Longrightarrow> same_job m (abs s) \<Longrightarrow>
      stop_spec m (abs s) = (m', abs t)"
    and stop_Err: "stop_cert F m s = (Err e, t) \<Longrightarrow> ok s \<Longrightarrow> same_job m (abs s) \<Longrightarrow>
      abs t = abs s \<or> abs t = snd (stop_spec m (abs s))"
    and stop_Panic: "stop_cert F m s = (Panic p, t) \<Longrightarrow> ok s \<Longrightarrow> \<not> same_job m (abs s)"
begin

text \<open>
  Exclusion: while a job's lease runs, no other \<open>start_cert\<close> hands out a certificate, whatever
  state the other caller's request ends in.
\<close>

lemma exclusive:
  assumes "ok s" and "start_cert F env s = (Ok (Some c), t)"
    and "start_cert F env' t = (Ok r, u)"
    and "0 \<le> clock env'" and "clock env' < 2 ^ 63" and "clock env' - 3600 \<le> sint (c_update c)"
  shows "r = None \<and> abs u = abs t"
proof -
  have held: "a_cert (abs t) = Some c" "c_state c = Updating"
    using start_spec_Some [OF start_Ok [OF assms(2,1)]] by blast+
  have "start_spec env' (abs t) = (Ok r, abs u)"
    by (rule start_Ok [OF assms(3) start_frame [OF assms(2,1)]])
  then show ?thesis
    using start_spec_running [OF held assms(4-6)] by simp
qed

text \<open>A job that was taken over cannot finish: its \<open>stop_cert\<close> changes nothing.\<close>

lemma superseded:
  assumes "ok s" and "a_cert (abs s) = Some c" and "same_job m (abs s)" and "c_update c \<noteq> c_update m"
    and "stop_cert F m s = (r, t)"
  shows "abs t = abs s"
proof (cases r)
  case (Ok m')
  then show ?thesis
    using stop_Ok [of m s m' t] stop_spec_superseded [OF assms(2,4)] assms by simp
next
  case (Err e)
  then show ?thesis
    using stop_Err [of m s e t] stop_spec_superseded [OF assms(2,4)] assms by auto
next
  case (Panic p)
  then show ?thesis
    using stop_Panic [of m s p t] assms by simp
qed

end

locale facade_provider = domain_provider F abs ok + cert_provider F abs ok
  for F :: "('s, 'm) facade_scheme" and abs :: "'s \<Rightarrow> astate" and ok :: "'s \<Rightarrow> bool"

end
