(* ===== verification/Cert_Jobs.thy ===== *)
theory Cert_Jobs
  imports Facade
begin

text \<open>
  The use the program makes of a facade, as a step relation: certificate managers that start and
  finish jobs (\<^verbatim>\<open>CertManager::manage\<close>), the challenge loop that rewrites a job's domain
  (\<^verbatim>\<open>CertManager::validate\<close>) and the register route that adds domains, in any interleaving of
  whole facade operations. A configuration is the facade's state with the jobs in progress, each
  the certificate its \<^verbatim>\<open>start_cert\<close> returned.
\<close>

type_synonym 's job_config = "'s \<times> cert list"

definition finished :: "cert \<Rightarrow> string option \<Rightarrow> string option \<Rightarrow> cert" where
  "finished m crt key = m\<lparr>c_cert := crt, c_private := key\<rparr>"

lemma finished_simps [simp]:
  "c_id (finished m crt key) = c_id m" "c_domain (finished m crt key) = c_domain m"
  "c_update (finished m crt key) = c_update m"
  by (simp_all add: finished_def)

inductive job_step :: "('s, 'm) facade_scheme \<Rightarrow> 's job_config \<Rightarrow> 's job_config \<Rightarrow> bool" for F where
  start: "start_cert F env s = (r, t) \<Longrightarrow>
    job_step F (s, jobs) (t, case r of Ok (Some c) \<Rightarrow> c # jobs | _ \<Rightarrow> jobs)"
| finish: "m \<in> set jobs \<Longrightarrow> stop_cert F (finished m crt key) s = (r, t) \<Longrightarrow>
    job_step F (s, jobs) (t, remove1 m jobs)"
| give_up: "m \<in> set jobs \<Longrightarrow> job_step F (s, jobs) (s, remove1 m jobs)"
| challenge: "m \<in> set jobs \<Longrightarrow> d_id d = c_domain m \<Longrightarrow> update_domain F d s = (r, t) \<Longrightarrow>
    job_step F (s, jobs) (t, jobs)"
| register: "create_domain F d s = (r, t) \<Longrightarrow> job_step F (s, jobs) (t, jobs)"

inductive reachable :: "('s, 'm) facade_scheme \<Rightarrow> 's \<Rightarrow> 's job_config \<Rightarrow> bool" for F s0 where
  init: "reachable F s0 (s0, [])"
| step: "reachable F s0 x \<Longrightarrow> job_step F x y \<Longrightarrow> reachable F s0 y"

text \<open>
  What can happen while the job on \<open>c\<close> is held within its lease: other managers try to start, late holders
  (with another time) try to finish, the challenge is rewritten, domains are registered, and the
  facade is read.
\<close>

inductive held_run :: "('s, 'm) facade_scheme \<Rightarrow> cert \<Rightarrow> 's \<Rightarrow> 's \<Rightarrow> bool" for F c s where
  held: "held_run F c s s"
| other_start: "held_run F c s t \<Longrightarrow> start_cert F env t = (r, u) \<Longrightarrow> 0 \<le> clock env \<Longrightarrow> clock env < 2 ^ 63 \<Longrightarrow>
    clock env - 3600 \<le> sint (c_update c) \<Longrightarrow> held_run F c s u"
| late_finish: "held_run F c s t \<Longrightarrow> c_id m = c_id c \<Longrightarrow> c_domain m = c_domain c \<Longrightarrow> c_update m \<noteq> c_update c \<Longrightarrow>
    stop_cert F m t = (r', u) \<Longrightarrow> held_run F c s u"
| rewritten: "held_run F c s t \<Longrightarrow> d_id d = c_domain c \<Longrightarrow> update_domain F d t = (q, u) \<Longrightarrow> held_run F c s u"
| registration: "held_run F c s t \<Longrightarrow> create_domain F d t = (q, u) \<Longrightarrow> held_run F c s u"
| cert_read: "held_run F c s t \<Longrightarrow> first_cert F t = (q', u) \<Longrightarrow> held_run F c s u"
| domain_read: "held_run F c s t \<Longrightarrow> find_domain_by_id F i t = (q'', u) \<Longrightarrow> held_run F c s u"

text \<open>Registrations of other domains than \<open>i\<close>, as they happen while a job waits.\<close>

inductive registered :: "('s, 'm) facade_scheme \<Rightarrow> string \<Rightarrow> 's \<Rightarrow> 's \<Rightarrow> bool" for F i where
  nothing: "registered F i s s"
| another: "registered F i s t \<Longrightarrow> create_domain F d t = (r, u) \<Longrightarrow> d_id d \<noteq> i \<Longrightarrow> registered F i s u"

text \<open>Every job in progress is about the certificate that is stored.\<close>

definition job_known :: "astate \<Rightarrow> cert \<Rightarrow> bool" where
  "job_known a m \<longleftrightarrow> a_cert a \<noteq> None \<and> same_job m a"

lemma job_known_iff: "job_known a m \<longleftrightarrow>
    (\<exists>c. a_cert a = Some c \<and> c_id c = c_id m \<and> c_domain c = c_domain m)"
  by (auto simp: job_known_def same_job_def split: option.split)

lemma job_known_add_domain [simp]: "job_known (add_domain d a) m = job_known a m"
  by (simp add: job_known_iff)

lemma job_known_finished [simp]: "job_known a (finished m crt key) = job_known a m"
  by (simp add: job_known_iff)

lemma job_known_domain: "a_wf a \<Longrightarrow> job_known a m \<Longrightarrow> a_domains a (c_domain m) \<noteq> None"
  by (metis a_wf_cert job_known_iff)

lemma start_spec_known:
  assumes "start_spec env a = (r, a')" and "job_known a m"
  shows "job_known a' m"
  using assms by (cases rule: start_spec_cases [of a env]) (auto simp: job_known_iff)

lemma start_spec_new_known: "start_spec env a = (Ok (Some c), a') \<Longrightarrow> job_known a' c"
  by (simp add: job_known_iff start_spec_Some(1))

lemma stop_spec_known:
  assumes "stop_spec m a = (m', a')" and "job_known a m" and "job_known a n"
  shows "job_known a' n"
  using assms by (auto simp: stop_spec_def job_known_iff Let_def split: if_splits)

context facade_provider
begin

definition config_ok :: "'s job_config \<Rightarrow> bool" where
  "config_ok x \<longleftrightarrow> ok (fst x) \<and> (\<forall>m \<in> set (snd x). job_known (abs (fst x)) m)"

lemma start_known:
  assumes "ok s" and "start_cert F env s = (r, t)" and "job_known (abs s) m"
  shows "job_known (abs t) m"
proof (cases r)
  case (Ok c)
  then show ?thesis
    using start_Ok assms start_spec_known by metis
next
  case (Err e)
  then have "abs t = abs s \<or> abs t = snd (start_spec env (abs s))"
    using start_Err assms by metis
  then show ?thesis
    using assms(3) start_spec_known [of env "abs s" "fst (start_spec env (abs s))"] by auto
next
  case (Panic p)
  then show ?thesis
    using start_Panic assms start_spec_known by metis
qed

lemma stop_known:
  assumes "ok s" and "stop_cert F m s = (r, t)" and "job_known (abs s) m" and "job_known (abs s) n"
  shows "job_known (abs t) n"
proof -
  have same: "same_job m (abs s)"
    using assms(3) by (simp add: job_known_def)
  show ?thesis
  proof (cases r)
    case (Ok m')
    then show ?thesis
      using stop_Ok [of m s m' t] assms same stop_spec_known by metis
  next
    case (Err e)
    then have "abs t = abs s \<or> abs t = snd (stop_spec m (abs s))"
      using stop_Err [of m s e t] assms same by metis
    then show ?thesis
      using assms(3,4) stop_spec_known [of m "abs s" "fst (stop_spec m (abs s))"] by auto
  next
    case (Panic p)
    then show ?thesis
      using stop_Panic assms same by metis
  qed
qed

lemma update_known:
  assumes "ok s" and "update_domain F d s = (r, t)" and "a_domains (abs s) (d_id d) \<noteq> None"
    and "job_known (abs s) m"
  shows "job_known (abs t) m"
  using assms update_Ok [of d s _ t] update_Err [of d s _ t] update_Panic [of d s _ t]
  by (cases r) auto

lemma create_known:
  assumes "ok s" and "create_domain F d s = (r, t)" and "job_known (abs s) m"
  shows "job_known (abs t) m"
  using assms create_Ok [of d s _ t] create_Err [of d s _ t] create_Panic [of d s _ t]
  by (cases r) auto

lemma config_ok_domain:
  "config_ok (s, jobs) \<Longrightarrow> m \<in> set jobs \<Longrightarrow> a_domains (abs s) (c_domain m) \<noteq> None"
  using job_known_domain [OF wf] by (simp add: config_ok_def)

lemma step_config_ok: "job_step F x y \<Longrightarrow> config_ok x \<Longrightarrow> config_ok y"
proof (induction rule: job_step.induct)
  case (start env s r t jobs)
  then have s: "ok s" "\<forall>m \<in> set jobs. job_known (abs s) m"
    by (simp_all add: config_ok_def)
  have new: "job_known (abs t) c" if "r = Ok (Some c)" for c
    using start_Ok [of env s "Some c" t] s(1) start.hyps that start_spec_new_known by metis
  have "\<forall>m \<in> set jobs. job_known (abs t) m"
    using start_known s start.hyps by blast
  then show ?case
    using start_frame [OF start.hyps s(1)] new
    by (auto simp: config_ok_def split: outcome.split option.split)
next
  case (finish m jobs crt key s r t)
  then have s: "ok s" "\<forall>n \<in> set jobs. job_known (abs s) n"
    by (simp_all add: config_ok_def)
  have m: "job_known (abs s) (finished m crt key)"
    using s(2) finish.hyps(1) by simp
  have "\<forall>n \<in> set jobs. job_known (abs t) n"
    using stop_known [OF s(1) finish.hyps(2) m] s(2) by blast
  moreover have "ok t"
    using stop_frame [OF finish.hyps(2) s(1)] m by (simp add: job_known_def)
  ultimately show ?case
    using set_remove1_subset [of m jobs] by (auto simp: config_ok_def)
next
  case (give_up m jobs s)
  then show ?case
    using set_remove1_subset [of m jobs] by (auto simp: config_ok_def)
next
  case (challenge m jobs d s r t)
  then have s: "ok s" "\<forall>n \<in> set jobs. job_known (abs s) n" "a_domains (abs s) (d_id d) \<noteq> None"
    using config_ok_domain [OF challenge.prems challenge.hyps(1)] by (simp_all add: config_ok_def)
  then show ?case
    using update_known [OF s(1) challenge.hyps(3) s(3)] update_frame [OF challenge.hyps(3) s(1,3)]
    by (simp add: config_ok_def)
next
  case (register d s r t jobs)
  then show ?case
    using create_known [OF _ register.hyps] create_frame [OF register.hyps]
    by (simp add: config_ok_def)
qed

lemma reachable_config_ok:
  assumes "reachable F s0 x" and "ok s0"
  shows "config_ok x"
  using assms by (induction rule: reachable.induct) (auto simp: config_ok_def [of "(s0, [])"] intro: step_config_ok)

text \<open>Neither finishing a job nor answering its challenge can panic.\<close>

lemma reachable_finish_no_panic:
  assumes "reachable F s0 (s, jobs)" and "ok s0" and "m \<in> set jobs"
  shows "\<not> is_panic (fst (stop_cert F (finished m crt key) s))"
proof
  assume "is_panic (fst (stop_cert F (finished m crt key) s))"
  then obtain p t where "stop_cert F (finished m crt key) s = (Panic p, t)"
    by (cases "stop_cert F (finished m crt key) s"; cases "fst (stop_cert F (finished m crt key) s)") auto
  moreover have "config_ok (s, jobs)"
    by (rule reachable_config_ok [OF assms(1,2)])
  then have "ok s" "job_known (abs s) (finished m crt key)"
    using assms(3) by (simp_all add: config_ok_def)
  ultimately show False
    using stop_Panic by (metis job_known_def)
qed

lemma reachable_challenge_no_panic:
  assumes "reachable F s0 (s, jobs)" and "ok s0" and "m \<in> set jobs" and "d_id d = c_domain m"
  shows "\<not> is_panic (fst (update_domain F d s))"
proof
  assume "is_panic (fst (update_domain F d s))"
  then obtain p t where "update_domain F d s = (Panic p, t)"
    by (cases "update_domain F d s"; cases "fst (update_domain F d s)") auto
  moreover have c: "config_ok (s, jobs)"
    by (rule reachable_config_ok [OF assms(1,2)])
  ultimately show False
    using update_Panic [of d s p t] config_ok_domain [OF c assms(3)] assms(4)
    by (simp add: config_ok_def)
qed

lemma registered_keeps:
  "registered F i s t \<Longrightarrow> ok s \<Longrightarrow>
    ok t \<and> a_cert (abs t) = a_cert (abs s) \<and> a_domains (abs t) i = a_domains (abs s) i"
proof (induction rule: registered.induct)
  case (nothing s)
  then show ?case by simp
next
  case (another s t d r u)
  then have "ok t" "ok u"
    using create_frame by blast+
  moreover have "abs u = abs t \<or> abs u = add_domain d (abs t)"
    using create_Ok [of d t _ u] create_Err [of d t _ u] create_Panic [of d t _ u] another.hyps(2) \<open>ok t\<close>
    by (cases r) auto
  ultimately show ?case
    using another by auto
qed

text \<open>The job stays with its holder.\<close>

lemma held_start:
  assumes "ok t" and "a_cert (abs t) = Some c" and "c_state c = Updating" and "start_cert F env t = (r, u)"
    and "0 \<le> clock env" and "clock env < 2 ^ 63" and "clock env - 3600 \<le> sint (c_update c)"
  shows "abs u = abs t \<and> (r = Ok None \<or> (\<exists>e. r = Err e))"
proof -
  have spec: "start_spec env (abs t) = (Ok None, abs t)"
    by (rule start_spec_running [OF assms(2,3,5-7)])
  show ?thesis
    using start_Ok [of env t _ u] start_Err [of env t _ u] start_Panic [of env t _ u] assms(1,4) spec
    by (cases r) auto
qed

lemma held_run_keeps:
  assumes "held_run F c s t" and "ok s" and "a_cert (abs s) = Some c" and "c_state c = Updating"
  shows "ok t \<and> a_cert (abs t) = Some c"
  using assms(1)
proof (induction rule: held_run.induct)
  case held
  then show ?case using assms(2,3) by simp
next
  case (other_start t env r u)
  then show ?case
    using held_start [of t c env r u] start_frame [of env t r u] assms(4) by simp
next
  case (late_finish t m r' u)
  then have "same_job m (abs t)"
    by (simp add: same_job_def)
  then show ?case
    using late_finish superseded [of t c m r' u] stop_frame [of m t r' u] by simp
next
  case (rewritten t d q u)
  then have "a_domains (abs t) (d_id d) \<noteq> None"
    using a_wf_cert [OF wf] by simp
  then show ?case
    using rewritten update_frame [of d t q u] update_Ok [of d t _ u] update_Err [of d t _ u] update_Panic [of d t _ u]
    by (cases q) auto
next
  case (registration t d q u)
  then show ?case
    using create_frame [of d t q u] create_Ok [of d t _ u] create_Err [of d t _ u] create_Panic [of d t _ u]
    by (cases q) auto
next
  case (cert_read t q' u)
  then show ?case
    using first_frame [of t q' u] by simp
next
  case (domain_read t i q'' u)
  then show ?case
    using find_frame [of i t q'' u] by simp
qed

lemma held_finish:
  assumes "ok t" and "a_cert (abs t) = Some c" and "c_state c = Updating"
    and "stop_cert F (finished c crt key) t = (Ok m, u)"
  shows "a_cert (abs u) = Some ((finished c crt key)\<lparr>c_state := State_Ok\<rparr>)"
proof -
  have "same_job (finished c crt key) (abs t)"
    using assms(2) by (simp add: same_job_def)
  then have "abs u = (abs t)\<lparr>a_cert := Some ((finished c crt key)\<lparr>c_state := State_Ok\<rparr>)\<rparr>"
    using stop_Ok [OF assms(4,1)] stop_spec_current [OF assms(2,3), of "finished c crt key"]
    by (metis finished_simps(3) prod.inject)
  then show ?thesis
    by simp
qed

end

end
