(* ===== verification/Facade_Tables.thy ===== *)
theory Facade_Tables
  imports Cert_Jobs
begin

text \<open>
  What both facades store: the certificates and the domains, each keyed by its identity. The
  in-memory facade holds exactly this; the database adds the account table and the network. Here are
  the invariant of the two collections and the abstract state they stand for.
\<close>

record tables =
  certs :: "cert store"
  domains :: "domain store"

definition tables_abs :: "'a tables_scheme \<Rightarrow> astate" where
  "tables_abs s = \<lparr>a_domains = lookup (domains s), a_cert = first_value (certs s)\<rparr>"

definition tables_ok :: "'a tables_scheme \<Rightarrow> bool" where
  "tables_ok s \<longleftrightarrow> wf_store (certs s) \<and> wf_store (domains s) \<and> store_size (certs s) \<le> 1 \<and>
     keyed_by c_id (certs s) \<and> a_wf (tables_abs s)"

lemma tables_abs_sel [simp]:
  "a_domains (tables_abs s) = lookup (domains s)" "a_cert (tables_abs s) = first_value (certs s)"
  by (simp_all add: tables_abs_def)

lemma tables_okD:
  assumes "tables_ok s"
  shows "wf_store (certs s)" and "wf_store (domains s)" and "store_size (certs s) \<le> 1"
    and "keyed_by c_id (certs s)" and "a_wf (tables_abs s)"
  using assms by (simp_all add: tables_ok_def)

text \<open>The single certificate is stored under its own identity.\<close>

lemma tables_ok_cert:
  assumes "tables_ok s" and "first_value (certs s) = Some c"
  shows "lookup (certs s) = [c_id c \<mapsto> c]"
  using keyed_by_single [OF tables_okD(3,4) [OF assms(1)] assms(2)]
  by (simp add: lookup_def fun_eq_iff)

text \<open>Writing the certificate, or a domain, keeps the invariant.\<close>

lemma tables_upd_cert:
  assumes "tables_ok s" and "wf_store m" and "store_size m \<le> 1"
    and "lookup m = (lookup (certs s))(c_id c \<mapsto> c)" and "lookup (domains s) (c_domain c) \<noteq> None"
  shows "tables_ok (s\<lparr>certs := m\<rparr>)"
    and "tables_abs (s\<lparr>certs := m\<rparr>) = (tables_abs s)\<lparr>a_cert := Some c\<rparr>"
proof -
  show abs: "tables_abs (s\<lparr>certs := m\<rparr>) = (tables_abs s)\<lparr>a_cert := Some c\<rparr>"
    using first_value_single [OF assms(3), of "c_id c" c] assms(4) by (simp add: tables_abs_def)
  have "a_wf (tables_abs (s\<lparr>certs := m\<rparr>))"
    using tables_okD(5) [OF assms(1)] assms(5) unfolding abs a_wf_def by simp
  moreover have "keyed_by c_id m"
    by (rule keyed_by_upd [OF tables_okD(4) [OF assms(1)] assms(4)])
  ultimately show "tables_ok (s\<lparr>certs := m\<rparr>)"
    using assms(2,3) tables_okD(2) [OF assms(1)] unfolding tables_ok_def by simp
qed

lemma tables_upd_domain:
  assumes "tables_ok s" and "wf_store m" and "lookup m = (lookup (domains s))(d_id d \<mapsto> d)"
  shows "tables_ok (s\<lparr>domains := m\<rparr>)"
    and "tables_abs (s\<lparr>domains := m\<rparr>) = add_domain d (tables_abs s)"
proof -
  show abs: "tables_abs (s\<lparr>domains := m\<rparr>) = add_domain d (tables_abs s)"
    using assms(3) by (simp add: tables_abs_def add_domain_def)
  have "a_wf (tables_abs (s\<lparr>domains := m\<rparr>))"
    unfolding abs by (rule add_domain_wf [OF tables_okD(5) [OF assms(1)]])
  then show "tables_ok (s\<lparr>domains := m\<rparr>)"
    using tables_okD(1,3,4) [OF assms(1)] assms(2) unfolding tables_ok_def by simp
qed

end
