(* ===== verification/Facade_Memory.thy ===== *)
theory Facade_Memory
  imports Facade_Tables
begin

text \<open>
  \<^verbatim>\<open>InMemoryFacade\<close>: two hash maps behind one mutex. Every operation takes the lock for its whole
  body, so each is one atomic step on the state. \<^verbatim>\<open>get_mut(..).unwrap()\<close> panics on a key that is
  not there; the lock is a \<^verbatim>\<open>parking_lot\<close> one, which a panic releases without poisoning.
\<close>

type_synonym memory = tables

definition memory_default :: "(nat \<Rightarrow> string \<Rightarrow> nat) \<Rightarrow> memory" where
  "memory_default r = \<lparr>certs = empty_store r, domains = empty_store r\<rparr>"

section \<open>Operations\<close>

definition mem_first_cert :: "(memory, 'e, cert option) op" where
  "mem_first_cert = (\<lambda>s. (Ok (first_value (certs s)), s))"

definition mem_update_cert :: "cert \<Rightarrow> (memory, 'e, unit) op" where
  "mem_update_cert c = (\<lambda>s.
     (case unwrap (lookup (certs s) (c_id c)) of
        Ok _ \<Rightarrow> (Ok (), s\<lparr>certs := replace (c_id c) c (certs s)\<rparr>)
      | Err e \<Rightarrow> (Err e, s)
      | Panic p \<Rightarrow> (Panic p, s)))"

definition mem_create_cert :: "cert \<Rightarrow> (memory, 'e, unit) op" where
  "mem_create_cert c = (\<lambda>s. (Ok (), s\<lparr>certs := put (c_id c) c (certs s)\<rparr>))"

definition mem_find_domain_by_id :: "string \<Rightarrow> (memory, sqlx_error, domain option) op" where
  "mem_find_domain_by_id i = (\<lambda>s. (Ok (lookup (domains s) i), s))"

definition mem_create_domain :: "domain \<Rightarrow> (memory, 'e, unit) op" where
  "mem_create_domain d = (\<lambda>s. (Ok (), s\<lparr>domains := put (d_id d) d (domains s)\<rparr>))"

definition mem_update_domain :: "domain \<Rightarrow> (memory, sqlx_error, unit) op" where
  "mem_update_domain d = (\<lambda>s.
     (case unwrap (lookup (domains s) (d_id d)) of
        Ok _ \<Rightarrow> (Ok (), s\<lparr>domains := replace (d_id d) d (domains s)\<rparr>)
      | Err e \<Rightarrow> (Err e, s)
      | Panic p \<Rightarrow> (Panic p, s)))"

definition mem_start_cert :: "env \<Rightarrow> (memory, any_err, cert option) op" where
  "mem_start_cert env = bind_op mem_first_cert (\<lambda>found.
     case found of
       Some cert \<Rightarrow>
         if c_state cert = State_Ok then
           let cert = cert\<lparr>c_state := Updating\<rparr> in
           bind_op (mem_update_cert cert) (\<lambda>_. ret (Some cert))
         else
           bind_op (lift_outcome (now (clock env))) (\<lambda>t.
           let now' = to_i64 (byte_order env) t; hour_ago = now' - HOUR_IN_SECONDS in
           if sint (c_update cert) < sint hour_ago then
             let cert = cert\<lparr>c_update := now', c_state := Updating\<rparr> in
             bind_op (mem_update_cert cert) (\<lambda>_. ret (Some cert))
           else ret None)
     | None \<Rightarrow>
         bind_op (lift_outcome (domain_new env)) (\<lambda>domain.
         bind_op (lift_outcome (cert_new env domain)) (\<lambda>cert.
         bind_op (mem_create_domain domain) (\<lambda>_.
         bind_op (mem_create_cert cert) (\<lambda>_.
         ret (Some cert))))))"

definition mem_stop_cert :: "cert \<Rightarrow> (memory, sqlx_error, cert) op" where
  "mem_stop_cert memory_cert = bind_op mem_first_cert (\<lambda>found.
     case found of
       Some cert \<Rightarrow>
         if c_state cert = Updating \<and> c_update cert = c_update memory_cert then
           let memory_cert = memory_cert\<lparr>c_state := State_Ok\<rparr> in
           bind_op (mem_update_cert memory_cert) (\<lambda>_. ret memory_cert)
         else ret memory_cert
     | None \<Rightarrow> ret memory_cert)"

definition memory_facade :: "memory facade" where
  "memory_facade = \<lparr>
     find_domain_by_id = mem_find_domain_by_id,
     create_domain = mem_create_domain,
     update_domain = mem_update_domain,
     first_cert = mem_first_cert,
     update_cert = mem_update_cert,
     create_cert = mem_create_cert,
     start_cert = mem_start_cert,
     stop_cert = mem_stop_cert\<rparr>"

lemma memory_facade_sel [simp]:
  "find_domain_by_id memory_facade = mem_find_domain_by_id"
  "create_domain memory_facade = mem_create_domain"
  "update_domain memory_facade = mem_update_domain"
  "first_cert memory_facade = mem_first_cert"
  "update_cert memory_facade = mem_update_cert"
  "create_cert memory_facade = mem_create_cert"
  "start_cert memory_facade = mem_start_cert"
  "stop_cert memory_facade = mem_stop_cert"
  by (simp_all add: memory_facade_def)

section \<open>How each operation runs\<close>

lemmas mem_defs = mem_first_cert_def mem_update_cert_def mem_create_cert_def
  mem_find_domain_by_id_def mem_create_domain_def mem_update_domain_def

lemma mem_update_cert_run:
  "mem_update_cert c s = (if lookup (certs s) (c_id c) = None
     then (Panic ''called `Option::unwrap()` on a `None` value'', s)
     else (Ok (), s\<lparr>certs := replace (c_id c) c (certs s)\<rparr>))"
  by (auto simp: mem_update_cert_def unwrap_def split: option.split)

lemma mem_update_domain_run:
  "mem_update_domain d s = (if lookup (domains s) (d_id d) = None
     then (Panic ''called `Option::unwrap()` on a `None` value'', s)
     else (Ok (), s\<lparr>domains := replace (d_id d) d (domains s)\<rparr>))"
  by (auto simp: mem_update_domain_def unwrap_def split: option.split)

section \<open>The consistent states\<close>

lemma tables_ok_default: "tables_ok (memory_default r)"
  by (simp add: tables_ok_def memory_default_def tables_abs_def a_wf_def)
    (simp add: store_size_def empty_store_def first_value_def)

lemma mem_set_cert:
  assumes "tables_ok s" and "first_value (certs s) = Some c"
    and "c_id c' = c_id c" and "c_domain c' = c_domain c"
  shows "mem_update_cert c' s = (Ok (), s\<lparr>certs := replace (c_id c') c' (certs s)\<rparr>)"
    and "tables_ok (s\<lparr>certs := replace (c_id c') c' (certs s)\<rparr>)"
    and "tables_abs (s\<lparr>certs := replace (c_id c') c' (certs s)\<rparr>)
      = (tables_abs s)\<lparr>a_cert := Some c'\<rparr>"
proof -
  note look = tables_ok_cert [OF assms(1,2)]
  then show "mem_update_cert c' s = (Ok (), s\<lparr>certs := replace (c_id c') c' (certs s)\<rparr>)"
    using assms(3) by (simp add: mem_update_cert_run)
  have "a_domains (tables_abs s) (c_domain c') \<noteq> None"
    using a_wf_cert [OF tables_okD(5) [OF assms(1)]] assms(2,4) by simp
  then show "tables_ok (s\<lparr>certs := replace (c_id c') c' (certs s)\<rparr>)"
    and "tables_abs (s\<lparr>certs := replace (c_id c') c' (certs s)\<rparr>)
      = (tables_abs s)\<lparr>a_cert := Some c'\<rparr>"
    using tables_upd_cert [OF assms(1), of "replace (c_id c') c' (certs s)" c'] look assms(3)
      tables_okD(1,3) [OF assms(1)] by simp_all
qed

lemma mem_set_domain:
  assumes "tables_ok s" and "t = s\<lparr>domains := m\<rparr>"
    and "wf_store m" and "lookup m = (lookup (domains s))(d_id d \<mapsto> d)"
  shows "tables_ok t" and "tables_abs t = add_domain d (tables_abs s)"
  using tables_upd_domain [OF assms(1,3,4)] assms(2) by simp_all

lemma mem_insert_cert:
  assumes "tables_ok s" and "first_value (certs s) = None" and "lookup (domains s) (c_domain c) \<noteq> None"
  shows "tables_ok (s\<lparr>certs := put (c_id c) c (certs s)\<rparr>)"
    and "tables_abs (s\<lparr>certs := put (c_id c) c (certs s)\<rparr>) = (tables_abs s)\<lparr>a_cert := Some c\<rparr>"
proof -
  have "store_size (put (c_id c) c (certs s)) \<le> 1"
    using assms(2) by (simp add: put_def first_value_None_iff size_0_iff)
  then show "tables_ok (s\<lparr>certs := put (c_id c) c (certs s)\<rparr>)"
    and "tables_abs (s\<lparr>certs := put (c_id c) c (certs s)\<rparr>) = (tables_abs s)\<lparr>a_cert := Some c\<rparr>"
    using tables_upd_cert [OF assms(1), of "put (c_id c) c (certs s)" c] assms(3)
      tables_okD(1) [OF assms(1)] by simp_all
qed

section \<open>The operations implement the job protocol\<close>

lemma mem_start_run:
  assumes "tables_ok s" and "mem_start_cert env s = (r, t)"
  shows "tables_ok t \<and> start_spec env (tables_abs s) = (r, tables_abs t)"
proof (cases "first_value (certs s)")
  case (Some c)
  have keep: "(mem_update_cert c' s :: (any_err, unit) outcome \<times> memory) = (Ok (), s\<lparr>certs := replace (c_id c') c' (certs s)\<rparr>)"
    "tables_ok (s\<lparr>certs := replace (c_id c') c' (certs s)\<rparr>)"
    "tables_abs (s\<lparr>certs := replace (c_id c') c' (certs s)\<rparr>) = (tables_abs s)\<lparr>a_cert := Some c'\<rparr>"
    if "c_id c' = c_id c" "c_domain c' = c_domain c" for c'
    using mem_set_cert [OF assms(1) Some that] by simp_all
  show ?thesis
    using assms Some keep [of "c\<lparr>c_state := Updating\<rparr>"]
      keep [of "c\<lparr>c_update := word_of_int (clock env), c_state := Updating\<rparr>"]
    by (auto simp: mem_start_cert_def start_spec_def mem_first_cert_def bind_op_def ret_def
        lift_outcome_def now_def lease_expired_def one_hour_ago_def Let_def split: if_splits)
next
  case None
  show ?thesis
  proof (cases "and_then (domain_new env) (\<lambda>d. and_then (cert_new env d) (\<lambda>c. Ok (d, c)))")
    case (Ok dc)
    then obtain d c where dc: "domain_new env = Ok d" "cert_new env d = Ok c" "dc = (d, c)"
      by (elim and_then_OkE) auto
    let ?u = "s\<lparr>domains := put (d_id d) d (domains s)\<rparr>"
    let ?t = "?u\<lparr>certs := put (c_id c) c (certs ?u)\<rparr>"
    have u: "tables_ok ?u" "tables_abs ?u = add_domain d (tables_abs s)"
      using mem_set_domain [OF assms(1), of ?u "put (d_id d) d (domains s)" d] tables_okD(2) [OF assms(1)]
      by simp_all
    have dom: "lookup (domains ?u) (c_domain c) \<noteq> None"
      using tables_okD(2) [OF assms(1)] cert_new_OkD [OF dc(2)] by simp
    have t: "tables_ok ?t" "tables_abs ?t = (tables_abs ?u)\<lparr>a_cert := Some c\<rparr>"
      using mem_insert_cert [OF u(1) _ dom] None by simp_all
    have "(r, t) = (Ok (Some c), ?t)"
      using assms(2) None dc
      by (simp add: mem_start_cert_def mem_first_cert_def mem_create_domain_def
          mem_create_cert_def bind_op_def ret_def lift_outcome_def)
    then show ?thesis
      using t u(2) None Ok dc(3) by (simp add: start_spec_def add_domain_def)
  next
    case (Err e)
    then have "mem_start_cert env s = (Err e, s)"
      using None by (cases "domain_new env"; cases "cert_new env (case domain_new env of Ok d \<Rightarrow> d)")
        (auto simp: mem_start_cert_def mem_first_cert_def bind_op_def lift_outcome_def)
    then show ?thesis
      using assms None Err by (simp add: start_spec_def)
  next
    case (Panic p)
    then have "mem_start_cert env s = (Panic p, s)"
      using None by (cases "domain_new env"; cases "cert_new env (case domain_new env of Ok d \<Rightarrow> d)")
        (auto simp: mem_start_cert_def mem_first_cert_def bind_op_def lift_outcome_def)
    then show ?thesis
      using assms None Panic by (simp add: start_spec_def)
  qed
qed

lemma mem_stop_run:
  assumes "tables_ok s" and "same_job m (tables_abs s)" and "mem_stop_cert m s = (r, t)"
  shows "tables_ok t \<and> r = Ok (fst (stop_spec m (tables_abs s))) \<and> tables_abs t = snd (stop_spec m (tables_abs s))"
proof (cases "first_value (certs s)")
  case None
  then show ?thesis
    using assms by (simp add: mem_stop_cert_def mem_first_cert_def bind_op_def ret_def stop_spec_def)
next
  case (Some c)
  have same: "c_id (m\<lparr>c_state := State_Ok\<rparr>) = c_id c" "c_domain (m\<lparr>c_state := State_Ok\<rparr>) = c_domain c"
    using assms(2) Some by (simp_all add: same_job_def)
  show ?thesis
    using assms(1,3) Some mem_set_cert(2,3) [OF assms(1) Some same]
    by (auto simp: mem_stop_cert_def mem_first_cert_def bind_op_def ret_def stop_spec_def Let_def
        mem_set_cert(1) [OF assms(1) Some same] split: if_splits)
qed

text \<open>The in-memory facade keeps the promises of both traits, and never returns an error.\<close>

interpretation mem: facade_provider memory_facade tables_abs tables_ok
proof unfold_locales
  fix s assume "tables_ok s" then show "a_wf (tables_abs s)" by (rule tables_okD)
next
  fix i and s t :: memory and q :: "(sqlx_error, domain option) outcome"
  assume "find_domain_by_id memory_facade i s = (q, t)" "tables_ok s"
  then show "tables_ok t \<and> tables_abs t = tables_abs s" by (simp add: mem_find_domain_by_id_def)
next
  fix i x and s t :: memory
  assume "find_domain_by_id memory_facade i s = (Ok x, t)"
  then show "x = a_domains (tables_abs s) i" by (auto simp: mem_find_domain_by_id_def)
next
  fix d and s t :: memory and r :: "(sqlx_error, unit) outcome"
  assume "create_domain memory_facade d s = (r, t)" "tables_ok s"
  then show "tables_ok t"
    using mem_set_domain(1) [of s t "put (d_id d) d (domains s)" d] tables_okD(2) [of s]
    by (auto simp: mem_create_domain_def)
next
  fix d u and s t :: memory
  assume "create_domain memory_facade d s = (Ok u, t)" "tables_ok s"
  then show "tables_abs t = add_domain d (tables_abs s)"
    using mem_set_domain(2) [of s t "put (d_id d) d (domains s)" d] tables_okD(2) [of s]
    by (auto simp: mem_create_domain_def)
next
  fix d and s t :: memory and r :: "(sqlx_error, unit) outcome"
  assume "update_domain memory_facade d s = (r, t)" "tables_ok s" "a_domains (tables_abs s) (d_id d) \<noteq> None"
  then show "tables_ok t"
    using mem_set_domain(1) [of s t "replace (d_id d) d (domains s)" d] tables_okD(2) [of s]
    by (auto simp: mem_update_domain_run)
next
  fix d u and s t :: memory
  assume "update_domain memory_facade d s = (Ok u, t)" "tables_ok s" "a_domains (tables_abs s) (d_id d) \<noteq> None"
  then show "tables_abs t = add_domain d (tables_abs s)"
    using mem_set_domain(2) [of s t "replace (d_id d) d (domains s)" d] tables_okD(2) [of s]
    by (auto simp: mem_update_domain_run)
next
  fix m m' and s t :: memory
  assume "stop_cert memory_facade m s = (Ok m', t)" "tables_ok s" "same_job m (tables_abs s)"
  then show "stop_spec m (tables_abs s) = (m', tables_abs t)"
    using mem_stop_run [of s m "Ok m'" t] by simp
qed (auto simp: mem_find_domain_by_id_def mem_create_domain_def mem_update_domain_run
    mem_first_cert_def split: if_splits dest: mem_start_run mem_stop_run)

lemma takeover_steps:
  assumes "tables_ok s" and "mem_start_cert env s = (Ok (Some c), t)"
    and "0 \<le> clock env'" and "clock env' < 2 ^ 63" and "sint (c_update c) < clock env' - 3600"
  shows "fst (mem_start_cert env' t) = Ok (Some (c\<lparr>c_update := word_of_int (clock env')\<rparr>)) \<and>
    tables_abs (snd (mem_stop_cert (finished c crt key) (snd (mem_start_cert env' t))))
      = tables_abs (snd (mem_start_cert env' t))"
proof -
  let ?c = "c\<lparr>c_update := word_of_int (clock env')\<rparr>"
  obtain r u where u: "mem_start_cert env' t = (r, u)" by fastforce
  have t: "tables_ok t" "start_spec env (tables_abs s) = (Ok (Some c), tables_abs t)"
    using mem_start_run [OF assms(1,2)] by simp_all
  have "start_spec env' (tables_abs t) = (Ok (Some ?c), (tables_abs t)\<lparr>a_cert := Some ?c\<rparr>)"
    by (rule start_spec_expired [OF start_spec_Some [OF t(2)] assms(3-5)])
  then have r: "r = Ok (Some ?c)" "tables_ok u" "tables_abs u = (tables_abs t)\<lparr>a_cert := Some ?c\<rparr>"
    using mem_start_run [OF t(1) u] by simp_all
  have "sint (c_update ?c) = clock env'"
    using assms(3,4) by (simp add: sint_word_of_int_64 del: signed_of_int)
  then have "c_update ?c \<noteq> c_update (finished c crt key)"
    using assms(5) by auto
  moreover have "a_cert (tables_abs u) = Some ?c"
    unfolding r(3) by simp
  moreover from this have "same_job (finished c crt key) (tables_abs u)"
    by (simp add: same_job_def)
  moreover obtain q v where "mem_stop_cert (finished c crt key) u = (q, v)" by fastforce
  ultimately have "tables_abs (snd (mem_stop_cert (finished c crt key) u)) = tables_abs u"
    using mem.superseded [OF r(2), of ?c "finished c crt key" q v] by simp
  then show ?thesis
    using u r(1) by simp
qed

section \<open>Properties\<close>

text \<open>Concrete data for the witnesses: one stored certificate, last issued at time 1000.\<close>

definition example_env :: "int \<Rightarrow> env" where
  "example_env t = \<lparr>clock = t, drawn = (\<lambda>n. word_of_nat (Suc n)),
     bcrypt_hash = (\<lambda>p cost. Ok (CHR ''#'' # p)), default_cost = 12, byte_order = Little\<rparr>"

definition example_cert :: cert where
  "example_cert = \<lparr>c_id = ''c'', c_update = 1000, c_state = State_Ok, c_cert = Some ''crt'',
     c_private = Some ''key'', c_domain = ''d''\<rparr>"

definition example_domain :: domain where
  "example_domain = \<lparr>d_id = ''d'', d_username = ''u'', d_password = ''p'', d_txt = None\<rparr>"

definition example_memory :: "cert \<Rightarrow> memory" where
  "example_memory c = \<lparr>
     certs = \<lparr>entries = [(c_id c, c)], ranking = (\<lambda>_ _. 0), generation = 0\<rparr>,
     domains = \<lparr>entries = [(''d'', example_domain)], ranking = (\<lambda>_ _. 0), generation = 0\<rparr>\<rparr>"

lemma example_memory_ok: "c_domain c = ''d'' \<Longrightarrow> tables_ok (example_memory c)"
  by (simp add: tables_ok_def example_memory_def wf_store_def store_size_def keyed_by_def lookup_def
      a_wf_def tables_abs_def first_value_def example_domain_def)

lemma example_env_sel [simp]:
  "clock (example_env t) = t" "byte_order (example_env t) = Little"
  by (simp_all add: example_env_def)

lemmas example_run = mem_start_cert_def mem_stop_cert_def mem_first_cert_def mem_update_cert_run
  bind_op_def ret_def lift_outcome_def Let_def HOUR_IN_SECONDS_def
  example_memory_def example_cert_def first_value_def lookup_def replace_def

text \<open>
  C1: The in-memory facade's \<^verbatim>\<open>start_cert\<close> implements the job protocol: from every consistent state
  it ends (success, error or panic) exactly as the specification does on the abstract state, leaves
  the state the specification leaves, and keeps the state consistent.
\<close>

theorem mem_start_refines:
  assumes "tables_ok s"
  shows "tables_ok (snd (mem_start_cert env s)) \<and>
    start_spec env (tables_abs s) = (fst (mem_start_cert env s), tables_abs (snd (mem_start_cert env s)))"
  using mem_start_run [OF assms, of env] by (metis prod.collapse)

theorem mem_start_refines_witness:
  "tables_ok (example_memory example_cert) \<and>
   tables_ok (snd (mem_start_cert (example_env 9000) (example_memory example_cert)))"
proof -
  have "tables_ok (example_memory example_cert)"
    by (rule example_memory_ok) (simp add: example_cert_def)
  then show ?thesis
    using mem_start_refines [of "example_memory example_cert" "example_env 9000"] by blast
qed

text \<open>
  Exclusion. After a \<^verbatim>\<open>start_cert\<close> has handed out a certificate, no further \<^verbatim>\<open>start_cert\<close> hands
  one out, nor changes the store, as long as at most an hour has passed since the time recorded in
  the certificate.
\<close>

theorem mem_job_exclusive:
  assumes "tables_ok s" and "mem_start_cert env s = (Ok (Some c), t)"
    and "0 \<le> clock env'" and "clock env' < 2 ^ 63" and "clock env' - 3600 \<le> sint (c_update c)"
  shows "fst (mem_start_cert env' t) = Ok None \<and> tables_abs (snd (mem_start_cert env' t)) = tables_abs t"
proof -
  have t: "tables_ok t" "start_spec env (tables_abs s) = (Ok (Some c), tables_abs t)"
    using mem_start_run [OF assms(1,2)] by simp_all
  have "start_spec env' (tables_abs t) = (Ok None, tables_abs t)"
    by (rule start_spec_running [OF start_spec_Some [OF t(2)] assms(3-5)])
  then show ?thesis
    using mem_start_run [OF t(1), of env'] by (metis prod.collapse prod.inject)
qed

theorem mem_job_exclusive_witness:
  "fst (mem_start_cert (example_env 9600)
      (snd (mem_start_cert (example_env 9000)
        (example_memory (example_cert\<lparr>c_state := Updating\<rparr>))))) = Ok None"
proof -
  let ?c = "example_cert\<lparr>c_state := Updating\<rparr>"
  let ?s = "example_memory ?c"
  have ok: "tables_ok ?s"
    by (rule example_memory_ok) (simp add: example_cert_def)
  have run: "mem_start_cert (example_env 9000) ?s
      = (Ok (Some (?c\<lparr>c_update := 9000\<rparr>)), snd (mem_start_cert (example_env 9000) ?s))"
    by (simp add: example_run)
  show ?thesis
    using mem_job_exclusive [OF ok run, of "example_env 9600"] by (simp add: example_cert_def)
qed

text \<open>
  C12: Takeover. When a job has been running for more than an hour, the next \<^verbatim>\<open>start_cert\<close> takes it
  over with a new time, and the late \<^verbatim>\<open>stop_cert\<close> of the first holder changes nothing, whatever
  certificate and key it brings.
\<close>

theorem mem_takeover:
  assumes "tables_ok s" and "mem_start_cert env s = (Ok (Some c), t)"
    and "0 \<le> clock env'" and "clock env' < 2 ^ 63" and "sint (c_update c) < clock env' - 3600"
  shows "fst (mem_start_cert env' t) = Ok (Some (c\<lparr>c_update := word_of_int (clock env')\<rparr>)) \<and>
    tables_abs (snd (mem_stop_cert (finished c crt key) (snd (mem_start_cert env' t))))
      = tables_abs (snd (mem_start_cert env' t))"
  by (rule takeover_steps [OF assms])

theorem mem_takeover_witness:
  "fst (mem_start_cert (example_env 99000)
      (snd (mem_start_cert (example_env 9000)
        (example_memory (example_cert\<lparr>c_state := Updating\<rparr>)))))
    = Ok (Some (example_cert\<lparr>c_state := Updating, c_update := 99000\<rparr>))"
proof -
  let ?c = "example_cert\<lparr>c_state := Updating\<rparr>"
  let ?s = "example_memory ?c"
  have ok: "tables_ok ?s"
    by (rule example_memory_ok) (simp add: example_cert_def)
  have run: "mem_start_cert (example_env 9000) ?s
      = (Ok (Some (?c\<lparr>c_update := 9000\<rparr>)), snd (mem_start_cert (example_env 9000) ?s))"
    by (simp add: example_run)
  show ?thesis
    using mem_takeover [OF ok run, of "example_env 99000"] by (simp add: example_cert_def)
qed

text \<open>
  C14: The two \<^verbatim>\<open>get_mut(..).unwrap()\<close> of the in-memory facade never fire. In every state that any
  interleaving of certificate jobs, challenge updates and registrations reaches from an empty facade:
  when \<^verbatim>\<open>start_cert\<close> panics, the cause is a clock before 1970 or a panic of bcrypt, never its calls of
  \<^verbatim>\<open>update_cert\<close>; and finishing a job in progress (\<^verbatim>\<open>stop_cert\<close>, which calls \<^verbatim>\<open>update_cert\<close>) and
  rewriting the domain of one (\<^verbatim>\<open>update_domain\<close>) do not panic.
\<close>

theorem mem_unwraps_safe:
  assumes "reachable memory_facade (memory_default r) (s, jobs)"
  shows "(\<forall>env p. fst (mem_start_cert env s) = Panic p \<longrightarrow>
      p = ''unix epoch is safe'' \<and> clock env < 0 \<or>
      bcrypt_hash env (uuid (drawn env 0)) (default_cost env) = Panic p) \<and>
    (\<forall>m \<in> set jobs. \<forall>crt key. \<not> is_panic (fst (mem_stop_cert (finished m crt key) s))) \<and>
    (\<forall>m \<in> set jobs. \<forall>d. d_id d = c_domain m \<longrightarrow> \<not> is_panic (fst (mem_update_domain d s)))"
proof -
  have "tables_ok s"
    using mem.reachable_config_ok [OF assms tables_ok_default] by (simp add: mem.config_ok_def)
  then have "fst (mem_start_cert env s) = fst (start_spec env (tables_abs s))" for env
    using mem_start_run by (metis prod.collapse fst_conv)
  then show ?thesis
    using start_spec_Panic mem.reachable_finish_no_panic [OF assms tables_ok_default]
      mem.reachable_challenge_no_panic [OF assms tables_ok_default]
    by simp
qed

theorem mem_unwraps_safe_witness:
  "\<exists>s m. reachable memory_facade (memory_default (\<lambda>_ _. 0)) (s, [m]) \<and>
     \<not> is_panic (fst (mem_start_cert (example_env 99000) s)) \<and>
     \<not> is_panic (fst (mem_stop_cert (finished m (Some ''crt'') (Some ''key'')) s)) \<and>
     \<not> is_panic (fst (mem_update_domain (example_domain\<lparr>d_id := c_domain m\<rparr>) s))"
proof -
  let ?s = "memory_default (\<lambda>_ _. 0)"
  obtain c t where run: "mem_start_cert (example_env 9000) ?s = (Ok (Some c), t)"
    by (simp add: example_run memory_default_def empty_store_def domain_new_def cert_new_def
        example_env_def mem_create_domain_def mem_create_cert_def)
  have "job_step memory_facade (?s, []) (t, [c])"
    using job_step.start [of memory_facade "example_env 9000" ?s "Ok (Some c)" t "[]"] run by simp
  then have reach: "reachable memory_facade ?s (t, [c])"
    by (rule reachable.step [OF reachable.init])
  note safe = mem_unwraps_safe [OF reach]
  have "\<not> is_panic (fst (mem_start_cert (example_env 99000) t))"
    using safe [THEN conjunct1, rule_format, of "example_env 99000"]
    by (cases "fst (mem_start_cert (example_env 99000) t)") (auto simp: example_env_def)
  then show ?thesis
    using safe reach by (intro exI [of _ t] exI [of _ c]) simp
qed

text \<open>
  C21: A job that renews a certificate starts with an expired lease: \<^verbatim>\<open>start_cert\<close> sets the state but
  not the time, so when the certificate was last touched more than an hour ago (every renewal), a
  second \<^verbatim>\<open>start_cert\<close> at once takes the job over, and the \<^verbatim>\<open>stop_cert\<close> of the first one is ignored.
\<close>

theorem mem_renewal_not_exclusive:
  assumes "tables_ok s" and "first_value (certs s) = Some c" and "c_state c = State_Ok"
    and "0 \<le> clock env" and "clock env < 2 ^ 63" and "sint (c_update c) < clock env - 3600"
  shows "\<exists>t u. mem_start_cert env s = (Ok (Some (c\<lparr>c_state := Updating\<rparr>)), t) \<and>
    mem_start_cert env t = (Ok (Some (c\<lparr>c_state := Updating, c_update := word_of_int (clock env)\<rparr>)), u) \<and>
    tables_abs (snd (mem_stop_cert (finished (c\<lparr>c_state := Updating\<rparr>) crt key) u)) = tables_abs u"
proof -
  let ?c = "c\<lparr>c_state := Updating\<rparr>"
  obtain r t where t: "mem_start_cert env s = (r, t)" by fastforce
  obtain q u where u: "mem_start_cert env t = (q, u)" by fastforce
  have r: "r = Ok (Some ?c)"
    using mem_start_run [OF assms(1) t] assms(2,3) by (simp add: start_spec_def Let_def)
  then have "q = Ok (Some (?c\<lparr>c_update := word_of_int (clock env)\<rparr>)) \<and>
    tables_abs (snd (mem_stop_cert (finished ?c crt key) u)) = tables_abs u"
    using takeover_steps [OF assms(1), of env ?c t env crt key] t u assms(4-6) by simp
  with t u r show ?thesis by auto
qed

theorem mem_renewal_not_exclusive_witness:
  "\<exists>t u. mem_start_cert (example_env 9000) (example_memory example_cert)
      = (Ok (Some (example_cert\<lparr>c_state := Updating\<rparr>)), t) \<and>
    mem_start_cert (example_env 9000) t
      = (Ok (Some (example_cert\<lparr>c_state := Updating, c_update := 9000\<rparr>)), u)"
proof -
  have ok: "tables_ok (example_memory example_cert)"
    by (rule example_memory_ok) (simp add: example_cert_def)
  show ?thesis
    using mem_renewal_not_exclusive [OF ok, of example_cert "example_env 9000"]
    by (auto simp: example_run)
qed

text \<open>
  C13: The exact bound of a lease, at every clock an unsigned 64-bit integer can show: a job in progress
  is taken over if and only if its recorded time, as a signed integer, lies below the clock minus an
  hour, where the clock is read as a signed integer after the subtraction has wrapped. Otherwise
  nothing is handed out, and in both cases nothing else changes.
\<close>

theorem mem_lease_bound:
  assumes "tables_ok s" and "a_cert (tables_abs s) = Some c" and "c_state c = Updating"
    and "0 \<le> clock env" and "clock env < 2 ^ 64"
  shows "let expired = (sint (c_update c) <
          (if clock env < 2 ^ 63 + 3600 then clock env - 3600 else clock env - 3600 - 2 ^ 64));
        c' = c\<lparr>c_update := word_of_int (clock env)\<rparr> in
    fst (mem_start_cert env s) = Ok (if expired then Some c' else None) \<and>
    tables_abs (snd (mem_start_cert env s)) = (tables_abs s)\<lparr>a_cert := Some (if expired then c' else c)\<rparr>"
proof -
  obtain r t where run: "mem_start_cert env s = (r, t)" by fastforce
  have "start_spec env (tables_abs s) = (r, tables_abs t)"
    using mem_start_run [OF assms(1) run] by simp
  moreover have "(tables_abs s)\<lparr>a_cert := Some c\<rparr> = tables_abs s"
    using assms(2) by (cases "tables_abs s") simp
  ultimately show ?thesis
    using start_spec_lease [OF assms(2-5)] run
    by (simp add: Let_def lease_bound_def split: if_splits)
qed

theorem mem_lease_bound_witness:
  "fst (mem_start_cert (example_env (2 ^ 63 + 10)) (example_memory (example_cert\<lparr>c_state := Updating\<rparr>)))
     = Ok (Some (example_cert\<lparr>c_state := Updating, c_update := word_of_int (2 ^ 63 + 10)\<rparr>)) \<and>
   fst (mem_start_cert (example_env (2 ^ 63 + 3600)) (example_memory (example_cert\<lparr>c_state := Updating\<rparr>)))
     = Ok None"
proof -
  let ?c = "example_cert\<lparr>c_state := Updating\<rparr>"
  let ?s = "example_memory ?c"
  have ok: "tables_ok ?s"
    by (rule example_memory_ok) (simp add: example_cert_def)
  have cert: "a_cert (tables_abs ?s) = Some ?c"
    by (simp add: tables_abs_def example_memory_def first_value_def)
  have "sint (c_update ?c) = 1000"
    by (simp add: example_cert_def)
  then show ?thesis
    using mem_lease_bound [OF ok cert, of "example_env (2 ^ 63 + 10)"]
      mem_lease_bound [OF ok cert, of "example_env (2 ^ 63 + 3600)"]
    by (simp add: Let_def example_cert_def)
qed

text \<open>
  A job that runs undisturbed: after \<^verbatim>\<open>start_cert\<close> has handed out a certificate, \<^verbatim>\<open>stop_cert\<close> with
  the new certificate and key stores exactly these under the same identity, in state \<open>State_Ok\<close>, and
  returns what it stored.
\<close>

theorem mem_job_completes:
  assumes "tables_ok s" and "mem_start_cert env s = (Ok (Some c), t)"
  shows "let m = (finished c crt key)\<lparr>c_state := State_Ok\<rparr>; (r, u) = mem_stop_cert (finished c crt key) t in
    r = Ok m \<and> tables_ok u \<and> tables_abs u = (tables_abs t)\<lparr>a_cert := Some m\<rparr>"
proof -
  obtain r u where u: "mem_stop_cert (finished c crt key) t = (r, u)" by fastforce
  have t: "tables_ok t" "start_spec env (tables_abs s) = (Ok (Some c), tables_abs t)"
    using mem_start_run [OF assms] by simp_all
  note held = start_spec_Some [OF t(2)]
  have "same_job (finished c crt key) (tables_abs t)"
    using held(1) by (simp add: same_job_def)
  then show ?thesis
    using mem_stop_run [OF t(1) _ u] u stop_spec_current [OF held, of "finished c crt key"]
    by (simp add: Let_def)
qed

theorem mem_job_completes_witness:
  "let c = example_cert\<lparr>c_state := Updating\<rparr>;
       t = snd (mem_start_cert (example_env 9000) (example_memory example_cert)) in
   fst (mem_stop_cert (finished c (Some ''new'') (Some ''k'')) t)
     = Ok (example_cert\<lparr>c_cert := Some ''new'', c_private := Some ''k''\<rparr>)"
proof -
  have ok: "tables_ok (example_memory example_cert)"
    by (rule example_memory_ok) (simp add: example_cert_def)
  have run: "mem_start_cert (example_env 9000) (example_memory example_cert)
      = (Ok (Some (example_cert\<lparr>c_state := Updating\<rparr>)),
         snd (mem_start_cert (example_env 9000) (example_memory example_cert)))"
    by (simp add: example_run)
  show ?thesis
    using mem_job_completes [OF ok run, of "Some ''new''" "Some ''k''"]
    by (simp add: Let_def finished_def example_cert_def split: prod.splits)
qed

end
