(* ===== verification/Facade_Database.thy ===== *)
theory Facade_Database
  imports Facade_Tables
begin

text \<open>
  \<^verbatim>\<open>DatabaseFacade<Postgres>\<close>: the SQL statements of \<^verbatim>\<open>src/facade\<close> and \<^verbatim>\<open>src/acme.rs\<close> on the tables
  of \<^verbatim>\<open>migrations/postgres\<close>, with their keys, unique indexes, foreign key and column widths. The
  server is remote: every request can be lost, before or after the server has acted on it. A
  transaction runs under Postgres's default isolation (READ COMMITTED): a statement sees what is
  committed when it runs and what its own transaction has written; the writes become visible at the
  commit, and are dropped with the transaction otherwise.
  The widths of \<^verbatim>\<open>char(n)\<close> columns are checked; the blank padding of shorter values is left out,
  because every identifier the program stores has 32 characters.
\<close>

section \<open>The database\<close>

record acme_row =
  r_key :: string
  r_realm :: i64
  r_kind :: string
  r_value :: bytes

text \<open>What happens to the next requests; when the list has run out, all are delivered.\<close>

datatype fault = Delivered | Lost_request | Lost_reply

record db = tables +
  acme_rows :: "acme_row list"
  network :: "fault list"

datatype stmt =
    Insert_domain domain
  | Update_domain domain
  | Insert_cert cert
  | Update_cert cert
  | Insert_acme acme_row
  | Update_acme acme_row

section \<open>Statements\<close>

definition other_value :: "('v \<Rightarrow> 'w) \<Rightarrow> string \<Rightarrow> 'w \<Rightarrow> 'v store \<Rightarrow> bool" where
  "other_value f k x m \<longleftrightarrow> list_ex (\<lambda>(i, v). i \<noteq> k \<and> f v = x) (entries m)"

definition check_domain :: "domain \<Rightarrow> db \<Rightarrow> sqlx_error option" where
  "check_domain d s =
     (if 32 < length (d_username d) then Some (Value_too_long ''username'')
      else if 60 < length (d_password d) then Some (Value_too_long ''password'')
      else if other_value d_password (d_id d) (d_password d) (domains s)
        then Some (Unique_violation ''domain_password_uindex'')
      else if other_value d_username (d_id d) (d_username d) (domains s)
        then Some (Unique_violation ''domain_username_uindex'')
      else None)"

definition check_cert :: "cert \<Rightarrow> db \<Rightarrow> sqlx_error option" where
  "check_cert c s =
     (if 32 < length (c_domain c) then Some (Value_too_long ''domain_id'')
      else if other_value c_domain (c_id c) (c_domain c) (certs s)
        then Some (Unique_violation ''cert_cert_uindex'')
      else if lookup (domains s) (c_domain c) = None then Some (Foreign_key_violation ''domain'')
      else None)"

definition same_acme_key :: "acme_row \<Rightarrow> acme_row \<Rightarrow> bool" where
  "same_acme_key a b \<longleftrightarrow> r_key a = r_key b \<and> r_realm a = r_realm b \<and> r_kind a = r_kind b"

fun exec_stmt :: "stmt \<Rightarrow> db \<Rightarrow> (sqlx_error, unit) outcome \<times> db" where
  "exec_stmt (Insert_domain d) s =
     (if 32 < length (d_id d) then (Err (Value_too_long ''id''), s)
      else if lookup (domains s) (d_id d) \<noteq> None then (Err (Unique_violation ''domain_pk''), s)
      else (case check_domain d s of
              Some e \<Rightarrow> (Err e, s)
            | None \<Rightarrow> (Ok (), s\<lparr>domains := insert_new (d_id d) d (domains s)\<rparr>)))"
| "exec_stmt (Update_domain d) s =
     (if lookup (domains s) (d_id d) = None then (Ok (), s)
      else (case check_domain d s of
              Some e \<Rightarrow> (Err e, s)
            | None \<Rightarrow> (Ok (), s\<lparr>domains := reorder (replace (d_id d) d (domains s))\<rparr>)))"
| "exec_stmt (Insert_cert c) s =
     (if 32 < length (c_id c) then (Err (Value_too_long ''id''), s)
      else if lookup (certs s) (c_id c) \<noteq> None then (Err (Unique_violation ''cert_pk''), s)
      else (case check_cert c s of
              Some e \<Rightarrow> (Err e, s)
            | None \<Rightarrow> (Ok (), s\<lparr>certs := insert_new (c_id c) c (certs s)\<rparr>)))"
| "exec_stmt (Update_cert c) s =
     (if lookup (certs s) (c_id c) = None then (Ok (), s)
      else (case check_cert c s of
              Some e \<Rightarrow> (Err e, s)
            | None \<Rightarrow> (Ok (), s\<lparr>certs := reorder (replace (c_id c) c (certs s))\<rparr>)))"
| "exec_stmt (Insert_acme r) s = (Ok (), s\<lparr>acme_rows := acme_rows s @ [r]\<rparr>)"
| "exec_stmt (Update_acme r) s =
     (Ok (), s\<lparr>acme_rows := map (\<lambda>q. if same_acme_key r q then q\<lparr>r_value := r_value r\<rparr> else q) (acme_rows s)\<rparr>)"

section \<open>Requests and transactions\<close>

text \<open>
  One round trip: \<open>f\<close> is what the server does. A transaction is the list of the statements it has
  executed; \<open>view\<close> is the database as the transaction sees it.
\<close>

definition request :: "(db \<Rightarrow> (sqlx_error, 'a) outcome \<times> db) \<Rightarrow> (db, sqlx_error, 'a) op" where
  "request f = (\<lambda>s.
     let s' = s\<lparr>network := tl (network s)\<rparr> in
     case network s of
       [] \<Rightarrow> f s
     | Delivered # _ \<Rightarrow> f s'
     | Lost_request # _ \<Rightarrow> (Err Connection_lost, s')
     | Lost_reply # _ \<Rightarrow> (Err Connection_lost, snd (f s')))"

definition view :: "stmt list \<Rightarrow> db \<Rightarrow> db" where
  "view tx s = fold (\<lambda>q t. snd (exec_stmt q t)) tx s"

definition pool_begin :: "(db, sqlx_error, stmt list) op" where
  "pool_begin = request (\<lambda>s. (Ok [], s))"

definition tx_query :: "(db \<Rightarrow> 'a) \<Rightarrow> stmt list \<Rightarrow> (db, sqlx_error, 'a) op" where
  "tx_query f tx = request (\<lambda>s. (Ok (f (view tx s)), s))"

definition tx_execute :: "stmt \<Rightarrow> stmt list \<Rightarrow> (db, sqlx_error, stmt list) op" where
  "tx_execute q tx = request (\<lambda>s. case fst (exec_stmt q (view tx s)) of
       Ok _ \<Rightarrow> (Ok (tx @ [q]), s)
     | Err e \<Rightarrow> (Err e, s)
     | Panic p \<Rightarrow> (Panic p, s))"

definition tx_commit :: "stmt list \<Rightarrow> (db, sqlx_error, unit) op" where
  "tx_commit tx = request (\<lambda>s. (Ok (), view tx s))"

text \<open>On the pool, a statement is its own transaction.\<close>

definition pool_query :: "(db \<Rightarrow> 'a) \<Rightarrow> (db, sqlx_error, 'a) op" where
  "pool_query f = request (\<lambda>s. (Ok (f s), s))"

definition pool_execute :: "stmt \<Rightarrow> (db, sqlx_error, unit) op" where
  "pool_execute q = request (exec_stmt q)"

section \<open>The facade\<close>

definition select_cert :: "db \<Rightarrow> cert option" where
  "select_cert s = first_value (certs s)"

definition db_first_cert :: "(db, sqlx_error, cert option) op" where
  "db_first_cert = pool_query select_cert"

definition db_update_cert :: "cert \<Rightarrow> (db, sqlx_error, unit) op" where
  "db_update_cert c = pool_execute (Update_cert c)"

definition db_create_cert :: "cert \<Rightarrow> (db, sqlx_error, unit) op" where
  "db_create_cert c = pool_execute (Insert_cert c)"

definition db_find_domain_by_id :: "string \<Rightarrow> (db, sqlx_error, domain option) op" where
  "db_find_domain_by_id i = pool_query (\<lambda>s. lookup (domains s) i)"

definition db_create_domain :: "domain \<Rightarrow> (db, sqlx_error, unit) op" where
  "db_create_domain d = pool_execute (Insert_domain d)"

definition db_update_domain :: "domain \<Rightarrow> (db, sqlx_error, unit) op" where
  "db_update_domain d = pool_execute (Update_domain d)"

definition db_start_body :: "env \<Rightarrow> stmt list \<Rightarrow> cert option \<Rightarrow> (db, any_err, stmt list \<times> cert option) op" where
  "db_start_body env tx found =
     (case found of
        Some cert \<Rightarrow>
          if c_state cert = State_Ok then
            let cert = cert\<lparr>c_state := Updating\<rparr> in
            bind_op (map_err_op A_Sqlx (tx_execute (Update_cert cert) tx)) (\<lambda>tx. ret (tx, Some cert))
          else
            bind_op (lift_outcome (now (clock env))) (\<lambda>t.
            let now' = to_i64 (byte_order env) t; hour_ago = now' - HOUR_IN_SECONDS in
            if sint (c_update cert) < sint hour_ago then
              let cert = cert\<lparr>c_update := now', c_state := Updating\<rparr> in
              bind_op (map_err_op A_Sqlx (tx_execute (Update_cert cert) tx)) (\<lambda>tx. ret (tx, Some cert))
            else ret (tx, None))
      | None \<Rightarrow>
          bind_op (lift_outcome (domain_new env)) (\<lambda>domain.
          bind_op (lift_outcome (cert_new env domain)) (\<lambda>cert.
          bind_op (map_err_op A_Sqlx (tx_execute (Insert_domain domain) tx)) (\<lambda>tx.
          bind_op (map_err_op A_Sqlx (tx_execute (Insert_cert cert) tx)) (\<lambda>tx.
          ret (tx, Some cert))))))"

definition db_start_cert :: "env \<Rightarrow> (db, any_err, cert option) op" where
  "db_start_cert env =
     bind_op (map_err_op A_Sqlx pool_begin) (\<lambda>tx.
     bind_op (map_err_op A_Sqlx (tx_query select_cert tx)) (\<lambda>found.
     bind_op (db_start_body env tx found) (\<lambda>(tx, cert).
     bind_op (map_err_op A_Sqlx (tx_commit tx)) (\<lambda>_.
     ret cert))))"

text \<open>
  \<^verbatim>\<open>stop_cert\<close> writes through the pool, not through the transaction it has opened.
\<close>

definition db_stop_body :: "cert \<Rightarrow> cert option \<Rightarrow> (db, sqlx_error, cert) op" where
  "db_stop_body memory_cert found =
     (case found of
        Some cert \<Rightarrow>
          if c_state cert = Updating \<and> c_update cert = c_update memory_cert then
            let memory_cert = memory_cert\<lparr>c_state := State_Ok\<rparr> in
            bind_op (pool_execute (Update_cert memory_cert)) (\<lambda>_. ret memory_cert)
          else ret memory_cert
      | None \<Rightarrow> ret memory_cert)"

definition db_stop_cert :: "cert \<Rightarrow> (db, sqlx_error, cert) op" where
  "db_stop_cert memory_cert =
     bind_op pool_begin (\<lambda>tx.
     bind_op (tx_query select_cert tx) (\<lambda>found.
     bind_op (db_stop_body memory_cert found) (\<lambda>memory_cert.
     bind_op (tx_commit tx) (\<lambda>_.
     ret memory_cert))))"

definition database_facade :: "db facade" where
  "database_facade = \<lparr>
     find_domain_by_id = db_find_domain_by_id,
     create_domain = db_create_domain,
     update_domain = db_update_domain,
     first_cert = db_first_cert,
     update_cert = db_update_cert,
     create_cert = db_create_cert,
     start_cert = db_start_cert,
     stop_cert = db_stop_cert\<rparr>"

lemma database_facade_sel [simp]:
  "find_domain_by_id database_facade = db_find_domain_by_id"
  "create_domain database_facade = db_create_domain"
  "update_domain database_facade = db_update_domain"
  "first_cert database_facade = db_first_cert"
  "update_cert database_facade = db_update_cert"
  "create_cert database_facade = db_create_cert"
  "start_cert database_facade = db_start_cert"
  "stop_cert database_facade = db_stop_cert"
  by (simp_all add: database_facade_def)

section \<open>How a request can end\<close>

text \<open>
  Two databases are the same up to the requests still to come when they differ in \<open>network\<close> only.
\<close>

definition same_data :: "db \<Rightarrow> db \<Rightarrow> bool" where
  "same_data s t \<longleftrightarrow> (\<exists>n. t = s\<lparr>network := n\<rparr>)"

lemma same_dataI [intro]: "same_data s (s\<lparr>network := n\<rparr>)"
  by (auto simp: same_data_def)

lemma same_data_refl [simp]: "same_data s s"
  by (auto simp: same_data_def intro: exI [of _ "network s"])

lemma same_data_trans: "same_data s t \<Longrightarrow> same_data t u \<Longrightarrow> same_data s u"
  by (auto simp: same_data_def)

lemma same_data_sel:
  assumes "same_data s t"
  shows "certs t = certs s" "domains t = domains s" "acme_rows t = acme_rows s"
  using assms by (auto simp: same_data_def)

lemma check_network [simp]:
  "check_domain d (s\<lparr>network := n\<rparr>) = check_domain d s"
  "check_cert c (s\<lparr>network := n\<rparr>) = check_cert c s"
  by (simp_all add: check_domain_def check_cert_def)

lemma exec_stmt_network [simp]:
  "exec_stmt q (s\<lparr>network := n\<rparr>) = (fst (exec_stmt q s), (snd (exec_stmt q s))\<lparr>network := n\<rparr>)"
  by (cases q) (auto split: option.split)

lemma exec_stmt_no_panic [simp]: "fst (exec_stmt q s) \<noteq> Panic p"
  by (cases q) (auto split: option.split)

lemma exec_stmt_Err: "fst (exec_stmt q s) = Err e \<Longrightarrow> snd (exec_stmt q s) = s"
  by (cases q) (auto split: option.splits if_splits)

lemma request_cases:
  assumes "request f s = (r, t)"
    and "\<And>n. f (s\<lparr>network := n\<rparr>) = (fst (f s), (snd (f s))\<lparr>network := n\<rparr>)"
  obtains (reply) n where "r = fst (f s)" and "t = (snd (f s))\<lparr>network := n\<rparr>"
    | (lost) n where "r = Err Connection_lost" and "t = s\<lparr>network := n\<rparr>"
    | (no_reply) n where "r = Err Connection_lost" and "t = (snd (f s))\<lparr>network := n\<rparr>"
proof (cases "network s")
  case Nil
  with assms(1) have "f s = (r, t)" by (simp add: request_def)
  moreover have "f s = (fst (f s), (snd (f s))\<lparr>network := network s\<rparr>)"
    using assms(2) [of "network s"] by simp
  ultimately show ?thesis using reply [of "network s"] by (metis prod.inject)
next
  case (Cons x xs)
  with assms show ?thesis
    using reply lost no_reply by (cases x) (auto simp: request_def Let_def)
qed

lemma view_network [simp]: "view tx (s\<lparr>network := n\<rparr>) = (view tx s)\<lparr>network := n\<rparr>"
  by (induction tx arbitrary: s) (simp_all add: view_def)

lemma view_simps [simp]:
  "view [] s = s" "view (tx @ [q]) s = snd (exec_stmt q (view tx s))"
  by (simp_all add: view_def)

lemma same_data_tables:
  assumes "same_data s t"
  shows "tables_ok t = tables_ok s" and "tables_abs t = tables_abs s"
  using same_data_sel [OF assms] by (simp_all add: tables_ok_def tables_abs_def)

lemma same_data_view: "same_data s t \<Longrightarrow> same_data (view tx s) (view tx t)"
  by (auto simp: same_data_def)

lemma pool_begin_run:
  "pool_begin s = (r, t) \<Longrightarrow> same_data s t \<and> (r = Ok [] \<or> r = Err Connection_lost)"
  unfolding pool_begin_def by (erule request_cases) auto

lemma select_cert_network [simp]: "select_cert (s\<lparr>network := n\<rparr>) = select_cert s"
  by (simp add: select_cert_def)

lemma tx_query_run:
  "tx_query select_cert tx s = (r, t) \<Longrightarrow>
    same_data s t \<and> (r = Ok (select_cert (view tx s)) \<or> r = Err Connection_lost)"
  unfolding tx_query_def by (erule request_cases) auto

lemma tx_execute_run:
  assumes "tx_execute q tx s = (r, t)"
  shows "same_data s t \<and>
    (r = Ok (tx @ [q]) \<and> fst (exec_stmt q (view tx s)) = Ok () \<or> (\<exists>e. r = Err e))"
  using assms unfolding tx_execute_def
  by (elim request_cases) (auto split: outcome.splits)

lemma tx_commit_run:
  "tx_commit tx s = (r, t) \<Longrightarrow>
    r = Ok () \<and> same_data (view tx s) t \<or>
    r = Err Connection_lost \<and> (same_data s t \<or> same_data (view tx s) t)"
  unfolding tx_commit_def by (erule request_cases) auto

lemma pool_query_run:
  assumes "pool_query f s = (r, t)" and "\<And>n. f (s\<lparr>network := n\<rparr>) = f s"
  shows "same_data s t \<and> (r = Ok (f s) \<or> r = Err Connection_lost)"
  using assms(1) unfolding pool_query_def by (elim request_cases) (auto simp: assms(2))

lemma pool_execute_run:
  assumes "pool_execute q s = (r, t)"
  shows "r = Ok () \<and> fst (exec_stmt q s) = Ok () \<and> same_data (snd (exec_stmt q s)) t \<or>
    (\<exists>e. r = Err e) \<and> (same_data s t \<or>
      fst (exec_stmt q s) = Ok () \<and> same_data (snd (exec_stmt q s)) t)"
proof -
  have "same_data s (snd (exec_stmt q s))" if "fst (exec_stmt q s) = Err e" for e
    using exec_stmt_Err [OF that] by simp
  then show ?thesis
    using assms unfolding pool_execute_def
    by (elim request_cases; cases "fst (exec_stmt q s)")
      (auto intro: same_data_trans)
qed

section \<open>What a successful statement does\<close>

lemma exec_update_cert:
  assumes "tables_ok s" and "first_value (certs s) = Some c"
    and "c_id c' = c_id c" and "c_domain c' = c_domain c"
    and "fst (exec_stmt (Update_cert c') s) = Ok u"
  defines "t \<equiv> snd (exec_stmt (Update_cert c') s)"
  shows "tables_ok t" and "tables_abs t = (tables_abs s)\<lparr>a_cert := Some c'\<rparr>"
proof -
  let ?m = "reorder (replace (c_id c') c' (certs s))"
  note look = tables_ok_cert [OF assms(1,2)]
  have t: "t = s\<lparr>certs := ?m\<rparr>"
    using assms(3,5) look by (auto simp: t_def split: option.splits if_splits)
  have "a_domains (tables_abs s) (c_domain c') \<noteq> None"
    using a_wf_cert [OF tables_okD(5) [OF assms(1)]] assms(2,4) by simp
  then show "tables_ok t" and "tables_abs t = (tables_abs s)\<lparr>a_cert := Some c'\<rparr>"
    using tables_upd_cert [OF assms(1), of ?m c'] look assms(3) tables_okD(1,3) [OF assms(1)]
    unfolding t by simp_all
qed

lemma exec_insert_cert:
  assumes "tables_ok s" and "first_value (certs s) = None"
    and "fst (exec_stmt (Insert_cert c) s) = Ok u"
  defines "t \<equiv> snd (exec_stmt (Insert_cert c) s)"
  shows "tables_ok t" and "tables_abs t = (tables_abs s)\<lparr>a_cert := Some c\<rparr>"
proof -
  let ?m = "insert_new (c_id c) c (certs s)"
  have t: "t = s\<lparr>certs := ?m\<rparr>" and new: "lookup (certs s) (c_id c) = None"
    and dom: "lookup (domains s) (c_domain c) \<noteq> None"
    using assms(3) by (auto simp: t_def check_cert_def split: option.splits if_splits)
  have "store_size ?m \<le> 1"
    using assms(2) by (simp add: first_value_None_iff)
  then show "tables_ok t" and "tables_abs t = (tables_abs s)\<lparr>a_cert := Some c\<rparr>"
    using tables_upd_cert [OF assms(1), of ?m c] new dom tables_okD(1) [OF assms(1)]
    unfolding t by simp_all
qed

lemma exec_insert_domain:
  assumes "tables_ok s" and "fst (exec_stmt (Insert_domain d) s) = Ok u"
  defines "t \<equiv> snd (exec_stmt (Insert_domain d) s)"
  shows "tables_ok t" and "tables_abs t = add_domain d (tables_abs s)" and "certs t = certs s"
    and "lookup (domains s) (d_id d) = None"
proof -
  let ?m = "insert_new (d_id d) d (domains s)"
  have t: "t = s\<lparr>domains := ?m\<rparr>" and new: "lookup (domains s) (d_id d) = None"
    using assms(2) by (auto simp: t_def split: option.splits if_splits)
  show "tables_ok t" and "tables_abs t = add_domain d (tables_abs s)"
    and "certs t = certs s" and "lookup (domains s) (d_id d) = None"
    using tables_upd_domain [OF assms(1), of ?m d] new tables_okD(2) [OF assms(1)]
    unfolding t by simp_all
qed

lemma exec_update_domain:
  assumes "tables_ok s" and "lookup (domains s) (d_id d) \<noteq> None"
    and "fst (exec_stmt (Update_domain d) s) = Ok u"
  defines "t \<equiv> snd (exec_stmt (Update_domain d) s)"
  shows "tables_ok t" and "tables_abs t = add_domain d (tables_abs s)"
proof -
  let ?m = "reorder (replace (d_id d) d (domains s))"
  have t: "t = s\<lparr>domains := ?m\<rparr>"
    using assms(2,3) by (auto simp: t_def split: option.splits if_splits)
  have "wf_store ?m" and "lookup ?m = (lookup (domains s))(d_id d \<mapsto> d)"
    using assms(2) tables_okD(2) [OF assms(1)] by auto
  then show "tables_ok t" and "tables_abs t = add_domain d (tables_abs s)"
    unfolding t by (rule tables_upd_domain [OF assms(1)])+
qed

declare exec_stmt.simps [simp del]

section \<open>The facade implements the job protocol\<close>

text \<open>
  Inside the transaction nothing is visible yet: the data stay as they are, and the statements
  collected so far lead, in the transaction's own view, to the state the protocol prescribes.
\<close>

lemma tx_update_cert_step:
  assumes "tables_ok s" and "first_value (certs s) = Some c"
    and "c_id c' = c_id c" and "c_domain c' = c_domain c"
    and "bind_op (map_err_op A_Sqlx (tx_execute (Update_cert c') [])) (\<lambda>tx. ret (tx, Some c')) s = (r, t)"
  shows "same_data s t \<and>
    (r = Ok ([Update_cert c'], Some c') \<and> tables_ok (view [Update_cert c'] s) \<and>
       tables_abs (view [Update_cert c'] s) = (tables_abs s)\<lparr>a_cert := Some c'\<rparr> \<or>
     (\<exists>e. r = Err e))"
proof -
  obtain q u where q: "tx_execute (Update_cert c') [] s = (q, u)" by fastforce
  note run = tx_execute_run [OF q]
  show ?thesis
  proof (cases "fst (exec_stmt (Update_cert c') s)")
    case (Ok x)
    then show ?thesis
      using run exec_update_cert [OF assms(1-4) Ok] assms(5) q
      by (auto simp: bind_op_def map_err_op_def ret_def view_def split: outcome.splits)
  next
    case (Err e)
    then show ?thesis
      using run assms(5) q
      by (auto simp: bind_op_def map_err_op_def ret_def split: outcome.splits)
  qed simp
qed

lemma tx_insert_both_step:
  assumes "tables_ok s" and "first_value (certs s) = None"
    and "bind_op (map_err_op A_Sqlx (tx_execute (Insert_domain d) [])) (\<lambda>tx.
         bind_op (map_err_op A_Sqlx (tx_execute (Insert_cert c) tx)) (\<lambda>tx. ret (tx, Some c))) s = (r, t)"
  shows "same_data s t \<and>
    ((\<exists>tx. r = Ok (tx, Some c) \<and> tables_ok (view tx s) \<and>
       tables_abs (view tx s) = (add_domain d (tables_abs s))\<lparr>a_cert := Some c\<rparr>) \<or>
     (\<exists>e. r = Err e))"
proof -
  obtain q u where q: "tx_execute (Insert_domain d) [] s = (q, u)" by fastforce
  note run = tx_execute_run [OF q]
  show ?thesis
  proof (cases q)
    case (Ok tx)
    then have u: "same_data s u" "tx = [Insert_domain d]" "fst (exec_stmt (Insert_domain d) s) = Ok ()"
      using run by auto
    let ?v = "view tx u"
    have v: "same_data (view tx s) ?v" "view tx s = snd (exec_stmt (Insert_domain d) s)"
      using u(2) by (simp_all add: same_data_view [OF u(1)]) (simp add: view_def)
    have s1: "tables_ok ?v" "tables_abs ?v = add_domain d (tables_abs s)" "first_value (certs ?v) = None"
      using exec_insert_domain(1-3) [OF assms(1) u(3)] v assms(2)
      by (simp_all add: same_data_tables [OF v(1)] same_data_sel [OF v(1)])
    obtain q' w where q': "tx_execute (Insert_cert c) tx u = (q', w)" by fastforce
    note run' = tx_execute_run [OF q']
    show ?thesis
    proof (cases q')
      case (Ok tx')
      then have w: "same_data u w" "tx' = tx @ [Insert_cert c]" "fst (exec_stmt (Insert_cert c) ?v) = Ok ()"
        using run' by auto
      have "same_data (view tx' s) (view tx' u)"
        by (rule same_data_view [OF u(1)])
      then have "tables_ok (view tx' s)"
          "tables_abs (view tx' s) = (add_domain d (tables_abs s))\<lparr>a_cert := Some c\<rparr>"
        using exec_insert_cert [OF s1(1,3) w(3)] s1(2) w(2)
        by (simp_all add: same_data_tables [symmetric])
      moreover have "r = Ok (tx', Some c)" "t = w"
        using assms(3) q q' \<open>q = Ok tx\<close> Ok by (simp_all add: bind_op_def map_err_op_def ret_def)
      ultimately show ?thesis
        using same_data_trans [OF u(1) w(1)] by blast
    next
      case (Err e)
      then show ?thesis
        using assms(3) q q' \<open>q = Ok tx\<close> run' u(1)
        by (auto simp: bind_op_def map_err_op_def intro: same_data_trans)
    next
      case (Panic p)
      then show ?thesis using run' by auto
    qed
  next
    case (Err e)
    then show ?thesis
      using assms(3) q run by (auto simp: bind_op_def map_err_op_def)
  next
    case (Panic p)
    then show ?thesis using run by auto
  qed
qed

lemma db_start_body_run:
  assumes "tables_ok s" and "db_start_body env [] (first_value (certs s)) s = (r, t)"
  shows "same_data s t"
    and "r = Ok (tx, cert) \<Longrightarrow>
      tables_ok (view tx s) \<and> start_spec env (tables_abs s) = (Ok cert, tables_abs (view tx s))"
    and "r = Panic p \<Longrightarrow> start_spec env (tables_abs s) = (Panic p, tables_abs s)"
proof -
  have "same_data s t \<and>
    (case r of
       Ok (tx, cert) \<Rightarrow>
         tables_ok (view tx s) \<and> start_spec env (tables_abs s) = (Ok cert, tables_abs (view tx s))
     | Err e \<Rightarrow> True
     | Panic p \<Rightarrow> start_spec env (tables_abs s) = (Panic p, tables_abs s))"
  proof (cases "first_value (certs s)")
    case (Some c)
    consider "c_state c = State_Ok" | "c_state c \<noteq> State_Ok" "clock env < 0"
      | "c_state c \<noteq> State_Ok" "0 \<le> clock env" "lease_expired (word_of_int (clock env)) c"
      | "c_state c \<noteq> State_Ok" "0 \<le> clock env" "\<not> lease_expired (word_of_int (clock env)) c"
      by linarith
    then show ?thesis
    proof cases
      case 1
      then show ?thesis
        using assms Some tx_update_cert_step [OF assms(1) Some, of "c\<lparr>c_state := Updating\<rparr>" r t]
        by (auto simp: db_start_body_def start_spec_def Let_def)
    next
      case 2
      then show ?thesis
        using assms Some
        by (auto simp: db_start_body_def start_spec_def bind_op_def lift_outcome_def now_def)
    next
      case 3
      then show ?thesis
        using assms Some
          tx_update_cert_step [OF assms(1) Some, of "c\<lparr>c_update := word_of_int (clock env), c_state := Updating\<rparr>" r t]
        by (auto simp: db_start_body_def start_spec_def Let_def lease_expired_def one_hour_ago_def
            bind_op_Ok [of "lift_outcome (Ok x)" for x] lift_outcome_run)
    next
      case 4
      then show ?thesis
        using assms Some
        by (auto simp: db_start_body_def start_spec_def Let_def lease_expired_def one_hour_ago_def
            bind_op_def lift_outcome_def ret_def)
    qed
  next
    case None
    show ?thesis
    proof (cases "and_then (domain_new env) (\<lambda>d. and_then (cert_new env d) (\<lambda>c. Ok (d, c)))")
      case (Ok dc)
      then obtain d c where dc: "domain_new env = Ok d" "cert_new env d = Ok c" "dc = (d, c)"
        by (elim and_then_OkE) auto
      have "bind_op (map_err_op A_Sqlx (tx_execute (Insert_domain d) [])) (\<lambda>tx.
         bind_op (map_err_op A_Sqlx (tx_execute (Insert_cert c) tx)) (\<lambda>tx. ret (tx, Some c))) s = (r, t)"
        using assms(2) None dc by (simp add: db_start_body_def bind_op_Ok lift_outcome_run)
      from tx_insert_both_step [OF assms(1) None this] show ?thesis
        using None Ok dc(3) by (auto simp: start_spec_def add_domain_def)
    next
      case (Err e)
      then have "r = Err e \<and> t = s"
        using None assms(2) by (cases "domain_new env"; cases "cert_new env (case domain_new env of Ok d \<Rightarrow> d)")
          (auto simp: db_start_body_def bind_op_def lift_outcome_def)
      then show ?thesis by simp
    next
      case (Panic p)
      then have "r = Panic p \<and> t = s"
        using None assms(2) by (cases "domain_new env"; cases "cert_new env (case domain_new env of Ok d \<Rightarrow> d)")
          (auto simp: db_start_body_def bind_op_def lift_outcome_def)
      then show ?thesis
        using None Panic by (simp add: start_spec_def)
    qed
  qed
  then show "same_data s t"
    and "r = Ok (tx, cert) \<Longrightarrow>
      tables_ok (view tx s) \<and> start_spec env (tables_abs s) = (Ok cert, tables_abs (view tx s))"
    and "r = Panic p \<Longrightarrow> start_spec env (tables_abs s) = (Panic p, tables_abs s)"
    by auto
qed

text \<open>How \<open>start_cert\<close> can end: with the protocol's step, or with an error before or at its commit.\<close>

lemma db_start_run:
  assumes "tables_ok s" and "db_start_cert env s = (r, t)"
  shows "(\<exists>cert. r = Ok cert \<and> tables_ok t \<and> start_spec env (tables_abs s) = (Ok cert, tables_abs t)) \<or>
    (\<exists>e. r = Err e \<and> (same_data s t \<or>
      r = Err (A_Sqlx Connection_lost) \<and> tables_ok t \<and>
      (\<exists>cert. start_spec env (tables_abs s) = (Ok cert, tables_abs t)))) \<or>
    (\<exists>p. r = Panic p \<and> same_data s t \<and> start_spec env (tables_abs s) = (Panic p, tables_abs t))"
proof -
  obtain q1 s1 where q1: "pool_begin s = (q1, s1)" by fastforce
  note run1 = pool_begin_run [OF q1]
  show ?thesis
  proof (cases "q1 = Ok []")
    case False
    then have "r = Err (A_Sqlx Connection_lost) \<and> t = s1"
      using assms(2) q1 run1 by (auto simp: db_start_cert_def bind_op_def map_err_op_def)
    then show ?thesis using run1 by blast
  next
    case True
    obtain q2 s2 where q2: "tx_query select_cert [] s1 = (q2, s2)" by fastforce
    note run2 = tx_query_run [OF q2]
    have s2: "same_data s s2"
      using run1 run2 same_data_trans by blast
    show ?thesis
    proof (cases "q2 = Ok (first_value (certs s))")
      case False
      then have "r = Err (A_Sqlx Connection_lost) \<and> t = s2"
        using assms(2) q1 q2 True run1 run2 same_data_sel(1) [of s s1]
        by (auto simp: db_start_cert_def bind_op_def map_err_op_def select_cert_def)
      then show ?thesis using s2 by blast
    next
      case found: True
      obtain q3 s3 where q3: "db_start_body env [] (first_value (certs s2)) s2 = (q3, s3)" by fastforce
      have ok2: "tables_ok s2" "tables_abs s2 = tables_abs s" "certs s2 = certs s"
        using assms(1) by (simp_all add: same_data_tables [OF s2] same_data_sel [OF s2])
      note body = db_start_body_run [OF ok2(1) q3]
      have s3: "same_data s s3"
        by (rule same_data_trans [OF s2 body(1)])
      show ?thesis
      proof (cases q3)
        case (Ok x)
        then obtain tx cert where x: "q3 = Ok (tx, cert)" by (cases x) auto
        obtain q4 s4 where q4: "tx_commit tx s3 = (q4, s4)" by fastforce
        note run4 = tx_commit_run [OF q4]
        have v: "tables_ok (view tx s3)" "start_spec env (tables_abs s) = (Ok cert, tables_abs (view tx s3))"
          using body(2) [OF x] same_data_tables [OF same_data_view [OF body(1), of tx]] ok2(2) by simp_all
        have arrived: "tables_ok s4 \<and> start_spec env (tables_abs s) = (Ok cert, tables_abs s4)"
          if "same_data (view tx s3) s4"
          using v same_data_tables [OF that] by simp
        have r: "r = (case q4 of Ok _ \<Rightarrow> Ok cert | Err e \<Rightarrow> Err (A_Sqlx e) | Panic p \<Rightarrow> Panic p)" "t = s4"
          using assms(2) q1 q2 q3 q4 True found x ok2(3)
          by (auto simp: db_start_cert_def bind_op_def map_err_op_def ret_def split: outcome.splits)
        show ?thesis
          using run4 r arrived same_data_trans [OF s3] by auto
      next
        case (Err e)
        then have "r = Err e \<and> t = s3"
          using assms(2) q1 q2 q3 True found ok2(3)
          by (simp add: db_start_cert_def bind_op_def map_err_op_def)
        then show ?thesis using s3 by blast
      next
        case (Panic p)
        then have "r = Panic p \<and> t = s3"
          using assms(2) q1 q2 q3 True found ok2(3)
          by (simp add: db_start_cert_def bind_op_def map_err_op_def)
        then show ?thesis
          using s3 body(3) [OF Panic] ok2(2) same_data_tables(2) [OF s3] by simp
      qed
    qed
  qed
qed

lemma pool_update_cert_run:
  assumes "tables_ok s" and "first_value (certs s) = Some c"
    and "c_id c' = c_id c" and "c_domain c' = c_domain c"
    and "pool_execute (Update_cert c') s = (r, t)"
  shows "tables_ok t \<and>
    (r = Ok () \<and> tables_abs t = (tables_abs s)\<lparr>a_cert := Some c'\<rparr> \<or>
     (\<exists>e. r = Err e \<and> (tables_abs t = tables_abs s \<or>
        tables_abs t = (tables_abs s)\<lparr>a_cert := Some c'\<rparr>)))"
proof -
  have eff: "tables_ok t \<and> tables_abs t = (tables_abs s)\<lparr>a_cert := Some c'\<rparr>"
    if "fst (exec_stmt (Update_cert c') s) = Ok ()" "same_data (snd (exec_stmt (Update_cert c') s)) t"
    using exec_update_cert [OF assms(1-4) that(1)] same_data_tables [OF that(2)] by simp
  have keep: "tables_ok t \<and> tables_abs t = tables_abs s" if "same_data s t"
    using assms(1) same_data_tables [OF that] by simp
  show ?thesis
    using pool_execute_run [OF assms(5)] eff keep by auto
qed

lemma db_stop_body_run:
  assumes "tables_ok s" and "same_job m (tables_abs s)"
    and "db_stop_body m (first_value (certs s)) s = (r, t)"
  shows "tables_ok t \<and>
    (r = Ok (fst (stop_spec m (tables_abs s))) \<and> tables_abs t = snd (stop_spec m (tables_abs s)) \<or>
     (\<exists>e. r = Err e \<and> (tables_abs t = tables_abs s \<or> tables_abs t = snd (stop_spec m (tables_abs s)))))"
proof (cases "first_value (certs s)")
  case None
  then show ?thesis
    using assms by (simp add: db_stop_body_def ret_def stop_spec_def)
next
  case (Some c)
  show ?thesis
  proof (cases "c_state c = Updating \<and> c_update c = c_update m")
    case False
    then show ?thesis
      using assms Some by (auto simp: db_stop_body_def ret_def stop_spec_def)
  next
    case True
    let ?m = "m\<lparr>c_state := State_Ok\<rparr>"
    have ids: "c_id ?m = c_id c" "c_domain ?m = c_domain c"
      using assms(2) Some by (simp_all add: same_job_def)
    obtain q u where q: "pool_execute (Update_cert ?m) s = (q, u)" by fastforce
    show ?thesis
      using pool_update_cert_run [OF assms(1) Some ids q] assms(3) q True Some
      by (auto simp: db_stop_body_def stop_spec_def bind_op_def ret_def Let_def)
  qed
qed

lemma db_stop_run:
  assumes "tables_ok s" and "same_job m (tables_abs s)" and "db_stop_cert m s = (r, t)"
  shows "tables_ok t \<and>
    (r = Ok (fst (stop_spec m (tables_abs s))) \<and> tables_abs t = snd (stop_spec m (tables_abs s)) \<or>
     (\<exists>e. r = Err e \<and> (tables_abs t = tables_abs s \<or> tables_abs t = snd (stop_spec m (tables_abs s)))))"
proof -
  obtain q1 s1 where q1: "pool_begin s = (q1, s1)" by fastforce
  obtain q2 s2 where q2: "tx_query select_cert [] s1 = (q2, s2)" by fastforce
  note run1 = pool_begin_run [OF q1] and run2 = tx_query_run [OF q2]
  have s2: "same_data s s2"
    using run1 run2 same_data_trans by blast
  have keep: "tables_ok u \<and> tables_abs u = tables_abs s \<and> certs u = certs s" if "same_data s u" for u
    using assms(1) same_data_tables [OF that] same_data_sel [OF that] by simp
  show ?thesis
  proof (cases "q1 = Ok [] \<and> q2 = Ok (first_value (certs s))")
    case False
    then have "(\<exists>e. r = Err e) \<and> (t = s1 \<or> t = s2)"
      using assms(3) q1 q2 run1 run2 keep [of s1]
      by (auto simp: db_stop_cert_def bind_op_def select_cert_def split: outcome.splits)
    then show ?thesis
      using keep run1 s2 by metis
  next
    case True
    obtain q3 s3 where q3: "db_stop_body m (first_value (certs s2)) s2 = (q3, s3)" by fastforce
    have body: "tables_ok s3 \<and>
      (q3 = Ok (fst (stop_spec m (tables_abs s))) \<and> tables_abs s3 = snd (stop_spec m (tables_abs s)) \<or>
       (\<exists>e. q3 = Err e \<and> (tables_abs s3 = tables_abs s \<or> tables_abs s3 = snd (stop_spec m (tables_abs s)))))"
      using db_stop_body_run [OF _ _ q3] keep [OF s2] assms(1,2) by simp
    obtain q4 s4 where q4: "tx_commit [] s3 = (q4, s4)" by fastforce
    have s4: "same_data s3 s4" "q4 = Ok () \<or> q4 = Err Connection_lost"
      using tx_commit_run [OF q4] by auto
    have "tables_ok s4 = tables_ok s3" "tables_abs s4 = tables_abs s3"
      using same_data_tables [OF s4(1)] by simp_all
    moreover have "r = (case q3 of Ok c \<Rightarrow> (case q4 of Ok _ \<Rightarrow> Ok c | Err e \<Rightarrow> Err e | Panic p \<Rightarrow> Panic p)
        | Err e \<Rightarrow> Err e | Panic p \<Rightarrow> Panic p) \<and> (t = s3 \<or> t = s4)"
      using assms(3) q1 q2 q3 q4 True keep [OF s2]
      by (auto simp: db_stop_cert_def bind_op_def ret_def split: outcome.splits)
    ultimately show ?thesis
      using body s4(2) by auto
  qed
qed

lemma db_create_domain_run:
  assumes "tables_ok s" and "db_create_domain d s = (r, t)"
  shows "tables_ok t \<and>
    (r = Ok () \<and> tables_abs t = add_domain d (tables_abs s) \<or>
     (\<exists>e. r = Err e \<and> (tables_abs t = tables_abs s \<or> tables_abs t = add_domain d (tables_abs s))))"
proof -
  have eff: "tables_ok t \<and> tables_abs t = add_domain d (tables_abs s)"
    if "fst (exec_stmt (Insert_domain d) s) = Ok ()" "same_data (snd (exec_stmt (Insert_domain d) s)) t"
    using exec_insert_domain(1,2) [OF assms(1) that(1)] same_data_tables [OF that(2)] by simp
  have keep: "tables_ok t \<and> tables_abs t = tables_abs s" if "same_data s t"
    using assms(1) same_data_tables [OF that] by simp
  show ?thesis
    using pool_execute_run [OF assms(2) [unfolded db_create_domain_def]] eff keep by auto
qed

lemma db_update_domain_run:
  assumes "tables_ok s" and "lookup (domains s) (d_id d) \<noteq> None" and "db_update_domain d s = (r, t)"
  shows "tables_ok t \<and>
    (r = Ok () \<and> tables_abs t = add_domain d (tables_abs s) \<or>
     (\<exists>e. r = Err e \<and> (tables_abs t = tables_abs s \<or> tables_abs t = add_domain d (tables_abs s))))"
proof -
  have eff: "tables_ok t \<and> tables_abs t = add_domain d (tables_abs s)"
    if "fst (exec_stmt (Update_domain d) s) = Ok ()" "same_data (snd (exec_stmt (Update_domain d) s)) t"
    using exec_update_domain [OF assms(1,2) that(1)] same_data_tables [OF that(2)] by simp
  have keep: "tables_ok t \<and> tables_abs t = tables_abs s" if "same_data s t"
    using assms(1) same_data_tables [OF that] by simp
  show ?thesis
    using pool_execute_run [OF assms(3) [unfolded db_update_domain_def]] eff keep by auto
qed

lemma db_update_domain_no_panic: "db_update_domain d s \<noteq> (Panic p, t)"
  using pool_execute_run [of "Update_domain d" s "Panic p" t] by (auto simp: db_update_domain_def)

lemma db_start_frame: "tables_ok s \<Longrightarrow> db_start_cert env s = (r, t) \<Longrightarrow> tables_ok t"
  using db_start_run [of s env r t] same_data_tables(1) [of s t] by auto

text \<open>The database facade keeps the promises of both traits, whatever requests are lost.\<close>

interpretation database: facade_provider database_facade tables_abs tables_ok
proof unfold_locales
  fix s :: db assume "tables_ok s" then show "a_wf (tables_abs s)" by (rule tables_okD)
next
  fix i and s t :: db and q :: "(sqlx_error, domain option) outcome"
  assume "find_domain_by_id database_facade i s = (q, t)" and "tables_ok s"
  then show "tables_ok t \<and> tables_abs t = tables_abs s"
    using pool_query_run [of "\<lambda>s. lookup (domains s) i" s q t] same_data_tables [of s t]
    by (simp add: db_find_domain_by_id_def)
next
  fix i x and s t :: db
  assume "find_domain_by_id database_facade i s = (Ok x, t)"
  then show "x = a_domains (tables_abs s) i"
    using pool_query_run [of "\<lambda>s. lookup (domains s) i" s "Ok x" t]
    by (simp add: db_find_domain_by_id_def)
next
  fix i p and s t :: db
  assume "find_domain_by_id database_facade i s = (Panic p, t)"
  then show "\<not> tables_ok s"
    using pool_query_run [of "\<lambda>s. lookup (domains s) i" s "Panic p" t]
    by (simp add: db_find_domain_by_id_def)
next
  fix s t :: db and q :: "(sqlx_error, cert option) outcome"
  assume "first_cert database_facade s = (q, t)" and "tables_ok s"
  then show "tables_ok t \<and> tables_abs t = tables_abs s"
    using pool_query_run [of select_cert s q t] same_data_tables [of s t]
    by (simp add: db_first_cert_def)
next
  fix c and s t :: db
  assume "first_cert database_facade s = (Ok c, t)"
  then show "c = a_cert (tables_abs s)"
    using pool_query_run [of select_cert s "Ok c" t]
    by (simp add: db_first_cert_def select_cert_def)
next
  fix p and s t :: db
  assume "first_cert database_facade s = (Panic p, t)"
  then show "\<not> tables_ok s"
    using pool_query_run [of select_cert s "Panic p" t] by (simp add: db_first_cert_def)
next
  fix env e and s t :: db
  assume "start_cert database_facade env s = (Err e, t)" and "tables_ok s"
  then show "tables_abs t = tables_abs s \<or> tables_abs t = snd (start_spec env (tables_abs s))"
    using db_start_run [of s env "Err e" t] same_data_tables(2) [of s t] by auto
next
  fix m m' and s t :: db
  assume "stop_cert database_facade m s = (Ok m', t)" and "tables_ok s" and "same_job m (tables_abs s)"
  then show "stop_spec m (tables_abs s) = (m', tables_abs t)"
    using db_stop_run [of s m "Ok m'" t] by simp
next
  fix m p and s t :: db
  assume "stop_cert database_facade m s = (Panic p, t)" and "tables_ok s"
  then show "\<not> same_job m (tables_abs s)"
    using db_stop_run [of s m "Panic p" t] by auto
qed (auto simp: db_update_domain_no_panic dest: db_create_domain_run db_update_domain_run
    db_start_run db_start_frame db_stop_run)

section \<open>Interleaved transactions\<close>

text \<open>
  Two certificate managers on the same database, in the order that READ COMMITTED allows: both have
  read the certificate before either writes; the second one's write waits for the first one's commit
  (they may write the same row) and then goes ahead.
\<close>

definition interleaved_starts :: "env \<Rightarrow> env \<Rightarrow> (db, any_err, cert option \<times> cert option) op" where
  "interleaved_starts envA envB =
     bind_op (map_err_op A_Sqlx pool_begin) (\<lambda>txA.
     bind_op (map_err_op A_Sqlx (tx_query select_cert txA)) (\<lambda>foundA.
     bind_op (map_err_op A_Sqlx pool_begin) (\<lambda>txB.
     bind_op (map_err_op A_Sqlx (tx_query select_cert txB)) (\<lambda>foundB.
     bind_op (db_start_body envA txA foundA) (\<lambda>(txA, certA).
     bind_op (map_err_op A_Sqlx (tx_commit txA)) (\<lambda>_.
     bind_op (db_start_body envB txB foundB) (\<lambda>(txB, certB).
     bind_op (map_err_op A_Sqlx (tx_commit txB)) (\<lambda>_.
     ret (certA, certB)))))))))"

text \<open>While no request is lost.\<close>

lemma view_keeps_network [simp]: "network (view tx s) = network s"
proof -
  have "network (snd (exec_stmt q t)) = network t" for q t
    by (cases q) (auto simp: exec_stmt.simps insert_new_def reorder_def split: option.split)
  then show ?thesis
    by (induction tx arbitrary: s) (simp_all add: view_def)
qed

lemma delivered_runs [op_simps]:
  assumes "network s = []"
  shows "pool_begin s = (Ok [], s)"
    and "tx_query f tx s = (Ok (f (view tx s)), s)"
    and "tx_execute q tx s = (case fst (exec_stmt q (view tx s)) of
       Ok _ \<Rightarrow> (Ok (tx @ [q]), s) | Err e \<Rightarrow> (Err e, s) | Panic p \<Rightarrow> (Panic p, s))"
    and "tx_commit tx s = (Ok (), view tx s)"
    and "pool_execute q s = exec_stmt q s"
  using assms
  by (simp_all add: pool_begin_def tx_query_def tx_execute_def tx_commit_def pool_execute_def request_def)

lemma db_start_held:
  assumes "network s = []" and "a_cert (tables_abs s) = Some c" and "c_state c = Updating"
    and "0 \<le> clock env" and "clock env < 2 ^ 63" and "clock env - 3600 \<le> sint (c_update c)"
  shows "db_start_cert env s = (Ok None, s)"
proof -
  have "\<not> lease_expired (word_of_int (clock env)) c"
    using lease_expired_iff [OF assms(4,5)] assms(6) by simp
  then show ?thesis
    using assms(1-4) by (simp add: db_start_cert_def db_start_body_def select_cert_def tables_abs_def
        bind_op_def map_err_op_def ret_def lift_outcome_def now_def delivered_runs Let_def
        lease_expired_def one_hour_ago_def)
qed

lemma interleaved_run:
  assumes "network s = []"
    and "db_start_body envA [] (first_value (certs s)) s = (Ok (txA, certA), s)"
    and "db_start_body envB [] (first_value (certs s)) (view txA s) = (Ok (txB, certB), view txA s)"
  shows "interleaved_starts envA envB s = (Ok (certA, certB), view txB (view txA s))"
  using assms
  by (simp add: interleaved_starts_def bind_op_def map_err_op_def ret_def delivered_runs select_cert_def)

text \<open>The update of the single row, when its columns fit.\<close>

lemma other_value_single:
  "lookup m = [k \<mapsto> v] \<Longrightarrow> store_size m \<le> 1 \<Longrightarrow> \<not> other_value f k x m"
  using single_entryE [of m k v] by (simp add: other_value_def)

lemma exec_update_cert_Ok:
  assumes "tables_ok s" and "first_value (certs s) = Some c"
    and "c_id c' = c_id c" and "c_domain c' = c_domain c" and "length (c_domain c) \<le> 32"
  shows "fst (exec_stmt (Update_cert c') s) = Ok ()"
proof -
  have "\<not> other_value c_domain (c_id c) (c_domain c) (certs s)"
    by (rule other_value_single [OF tables_ok_cert [OF assms(1,2)] tables_okD(3) [OF assms(1)]])
  moreover have "lookup (domains s) (c_domain c) \<noteq> None"
    using a_wf_cert [OF tables_okD(5) [OF assms(1)]] assms(2) by simp
  ultimately show ?thesis
    using assms(3-5) by (auto simp: exec_stmt.simps check_cert_def)
qed

lemma start_body_idle:
  assumes "network s = []" and "tables_ok s" and "first_value (certs s) = Some k"
    and "c_id c = c_id k" and "c_domain c = c_domain k" and "length (c_domain k) \<le> 32"
    and "c_state c = State_Ok"
  shows "db_start_body env [] (Some c) s
    = (Ok ([Update_cert (c\<lparr>c_state := Updating\<rparr>)], Some (c\<lparr>c_state := Updating\<rparr>)), s)"
  using exec_update_cert_Ok [OF assms(2,3), of "c\<lparr>c_state := Updating\<rparr>"] assms
  by (simp add: db_start_body_def bind_op_def map_err_op_def ret_def delivered_runs Let_def)

lemma interleaved_idle:
  assumes "network s = []" and "tables_ok s" and "first_value (certs s) = Some c"
    and "length (c_domain c) \<le> 32" and "c_state c = State_Ok"
  shows "fst (interleaved_starts envA envB s)
    = Ok (Some (c\<lparr>c_state := Updating\<rparr>), Some (c\<lparr>c_state := Updating\<rparr>))"
proof -
  let ?c = "c\<lparr>c_state := Updating\<rparr>" and ?tx = "[Update_cert (c\<lparr>c_state := Updating\<rparr>)]"
  have A: "db_start_body envA [] (Some c) s = (Ok (?tx, Some ?c), s)"
    by (rule start_body_idle [OF assms(1-3)]) (simp_all add: assms)
  have "fst (exec_stmt (Update_cert ?c) s) = Ok ()"
    by (rule exec_update_cert_Ok [OF assms(2,3)]) (simp_all add: assms)
  then have v: "tables_ok (view ?tx s)" "first_value (certs (view ?tx s)) = Some ?c"
    using exec_update_cert [OF assms(2,3), of ?c "()"]
    by (simp_all add: view_def tables_abs_def)
  have B: "db_start_body envB [] (Some c) (view ?tx s) = (Ok (?tx, Some ?c), view ?tx s)"
    by (rule start_body_idle [OF _ v]) (simp_all add: assms)
  show ?thesis
    using interleaved_run [of s envA ?tx "Some ?c" envB ?tx "Some ?c"] A B assms(1,3) by simp
qed

lemma start_body_fresh:
  assumes "network s = []" and "domain_new env = Ok d" and "cert_new env d = Ok c"
    and "fst (exec_stmt (Insert_domain d) s) = Ok ()"
    and "fst (exec_stmt (Insert_cert c) (snd (exec_stmt (Insert_domain d) s))) = Ok ()"
  shows "db_start_body env [] None s = (Ok ([Insert_domain d, Insert_cert c], Some c), s)"
  using assms
  by (simp add: db_start_body_def bind_op_def map_err_op_def ret_def lift_outcome_def
      delivered_runs view_def)

lemma entries_insert_new: "set (entries (insert_new k v m)) = insert (k, v) (set (entries m))"
  by (simp add: insert_new_def reorder_def)

lemma insert_domain_Ok:
  assumes "length (d_id d) \<le> 32" and "length (d_username d) \<le> 32" and "length (d_password d) \<le> 60"
    and "\<forall>(i, e) \<in> set (entries (domains s)).
      i \<noteq> d_id d \<and> d_username e \<noteq> d_username d \<and> d_password e \<noteq> d_password d"
  shows "exec_stmt (Insert_domain d) s = (Ok (), s\<lparr>domains := insert_new (d_id d) d (domains s)\<rparr>)"
proof -
  have "lookup (domains s) (d_id d) = None"
    using assms(4) by (auto simp: lookup_None_iff)
  moreover have "check_domain d s = None"
    using assms by (auto simp: check_domain_def other_value_def list_ex_iff)
  ultimately show ?thesis
    using assms(1) by (simp add: exec_stmt.simps)
qed

lemma insert_cert_Ok:
  assumes "length (c_id c) \<le> 32" and "length (c_domain c) \<le> 32"
    and "\<forall>(i, e) \<in> set (entries (certs s)). i \<noteq> c_id c \<and> c_domain e \<noteq> c_domain c"
    and "c_domain c \<in> fst ` set (entries (domains s))"
  shows "exec_stmt (Insert_cert c) s = (Ok (), s\<lparr>certs := insert_new (c_id c) c (certs s)\<rparr>)"
proof -
  have "lookup (certs s) (c_id c) = None"
    using assms(3) by (auto simp: lookup_None_iff)
  moreover have "check_cert c s = None"
    using assms by (auto simp: check_cert_def other_value_def list_ex_iff lookup_None_iff)
  ultimately show ?thesis
    using assms(1) by (simp add: exec_stmt.simps)
qed

lemma domain_new_lengths:
  "domain_new env = Ok d \<Longrightarrow> length (d_id d) = 32 \<and> length (d_username d) = 32"
  by (auto dest: domain_new_OkD)

lemma interleaved_fresh:
  assumes "network s = []" and "entries (certs s) = []" and "entries (domains s) = []"
    and A: "domain_new envA = Ok dA" "cert_new envA dA = Ok cA" "length (d_password dA) \<le> 60"
    and B: "domain_new envB = Ok dB" "cert_new envB dB = Ok cB" "length (d_password dB) \<le> 60"
    and neq: "d_id dA \<noteq> d_id dB" "d_username dA \<noteq> d_username dB" "d_password dA \<noteq> d_password dB"
      "c_id cA \<noteq> c_id cB"
  shows "fst (interleaved_starts envA envB s) = Ok (Some cA, Some cB) \<and>
    store_size (certs (snd (interleaved_starts envA envB s))) = 2"
proof -
  let ?s1 = "s\<lparr>domains := insert_new (d_id dA) dA (domains s)\<rparr>"
  let ?s2 = "?s1\<lparr>certs := insert_new (c_id cA) cA (certs s)\<rparr>"
  let ?s3 = "?s2\<lparr>domains := insert_new (d_id dB) dB (domains ?s2)\<rparr>"
  let ?s4 = "?s3\<lparr>certs := insert_new (c_id cB) cB (certs ?s3)\<rparr>"
  note facts = cert_new_OkD [OF A(2)] cert_new_OkD [OF B(2)]
    domain_new_lengths [OF A(1)] domain_new_lengths [OF B(1)]
  have e1: "exec_stmt (Insert_domain dA) s = (Ok (), ?s1)"
    by (rule insert_domain_Ok) (use A(3) facts assms(3) in simp_all)
  have e2: "exec_stmt (Insert_cert cA) ?s1 = (Ok (), ?s2)"
    using insert_cert_Ok [of cA ?s1] facts assms(2) by (simp add: entries_insert_new)
  have e3: "exec_stmt (Insert_domain dB) ?s2 = (Ok (), ?s3)"
    by (rule insert_domain_Ok) (use B(3) facts assms(3) neq in \<open>auto simp: entries_insert_new\<close>)
  have e4: "exec_stmt (Insert_cert cB) ?s3 = (Ok (), ?s4)"
    using insert_cert_Ok [of cB ?s3] facts assms(2) neq by (auto simp: entries_insert_new)
  have v: "view [Insert_domain dA, Insert_cert cA] s = ?s2"
    "view [Insert_domain dB, Insert_cert cB] ?s2 = ?s4"
    using e1 e2 e3 e4 by (simp_all add: view_def)
  have bA: "db_start_body envA [] None s = (Ok ([Insert_domain dA, Insert_cert cA], Some cA), s)"
    by (rule start_body_fresh) (simp_all add: assms e1 e2)
  have bB: "db_start_body envB [] None ?s2 = (Ok ([Insert_domain dB, Insert_cert cB], Some cB), ?s2)"
    by (rule start_body_fresh) (simp_all only: assms e3 e4 fst_conv snd_conv, simp add: assms)
  have none: "first_value (certs s) = None"
    using assms(2) by (simp add: first_value_def)
  have "interleaved_starts envA envB s = (Ok (Some cA, Some cB), ?s4)"
    using interleaved_run [OF assms(1), of envA _ "Some cA" envB _ "Some cB"] bA bB none v by simp
  moreover have "store_size (certs ?s4) = 2"
    using assms(2) by simp (simp add: store_size_def)
  ultimately show ?thesis by simp
qed

section \<open>Properties\<close>

definition example_db :: "cert \<Rightarrow> fault list \<Rightarrow> db" where
  "example_db c net = \<lparr>
     certs = \<lparr>entries = [(c_id c, c)], ranking = (\<lambda>_ _. 0), generation = 0\<rparr>,
     domains = \<lparr>entries = [(''d'', \<lparr>d_id = ''d'', d_username = ''u'', d_password = ''p'', d_txt = None\<rparr>)],
       ranking = (\<lambda>_ _. 0), generation = 0\<rparr>,
     acme_rows = [], network = net\<rparr>"

definition renewed_cert :: "cert_state \<Rightarrow> cert" where
  "renewed_cert st = \<lparr>c_id = ''c'', c_update = 1000, c_state = st, c_cert = Some ''crt'',
     c_private = Some ''key'', c_domain = ''d''\<rparr>"

definition db_env :: "nat \<Rightarrow> int \<Rightarrow> env" where
  "db_env k t = \<lparr>clock = t, drawn = (\<lambda>n. word_of_nat (k + n)),
     bcrypt_hash = (\<lambda>p cost. Ok p), default_cost = 12, byte_order = Little\<rparr>"

lemma example_db_ok: "c_domain c = ''d'' \<Longrightarrow> tables_ok (example_db c net)"
  by (simp add: tables_ok_def example_db_def wf_store_def store_size_def keyed_by_def lookup_def
      a_wf_def tables_abs_def first_value_def)

text \<open>
  \<^verbatim>\<open>start_cert\<close> on the database is all or nothing. Whatever requests are lost: a success is exactly
  the protocol's step, committed; an error leaves the data as they were, unless it is the reply to
  the commit that was lost, in which case exactly the protocol's step has been committed; and it
  panics only where the protocol does.
\<close>

theorem db_start_atomic:
  assumes "tables_ok s"
  shows "case db_start_cert env s of
     (Ok cert, t) \<Rightarrow> tables_ok t \<and> start_spec env (tables_abs s) = (Ok cert, tables_abs t)
   | (Err e, t) \<Rightarrow> same_data s t \<or> e = A_Sqlx Connection_lost \<and> tables_ok t \<and>
       (\<exists>cert. start_spec env (tables_abs s) = (Ok cert, tables_abs t))
   | (Panic p, t) \<Rightarrow> same_data s t \<and> start_spec env (tables_abs s) = (Panic p, tables_abs t)"
proof -
  obtain r t where run: "db_start_cert env s = (r, t)" by fastforce
  show ?thesis
    using db_start_run [OF assms run] run by auto
qed

theorem db_start_atomic_witness:
  "fst (db_start_cert (db_env 0 9000) (example_db (renewed_cert State_Ok) []))
     = Ok (Some (renewed_cert Updating)) \<and>
   tables_ok (snd (db_start_cert (db_env 0 9000) (example_db (renewed_cert State_Ok) [])))"
proof -
  let ?s = "example_db (renewed_cert State_Ok) []"
  have ok: "tables_ok ?s"
    by (rule example_db_ok) (simp add: renewed_cert_def)
  have "fst (db_start_cert (db_env 0 9000) ?s) = Ok (Some (renewed_cert Updating))"
    by (simp add: db_start_cert_def db_start_body_def bind_op_def map_err_op_def ret_def
        delivered_runs example_db_def renewed_cert_def select_cert_def first_value_def
        exec_stmt.simps check_cert_def other_value_def lookup_def Let_def)
  then show ?thesis
    using db_start_atomic [OF ok, of "db_env 0 9000"]
    by (cases "db_start_cert (db_env 0 9000) ?s") simp
qed

text \<open>
  C26: \<^verbatim>\<open>stop_cert\<close> on the database is not all or nothing: it writes through the pool while its own
  transaction is open. When the commit request is lost, the caller is told that the job could not be
  finished, but the certificate has been stored and the job closed.
\<close>

theorem db_stop_not_atomic:
  assumes "tables_ok s" and "first_value (certs s) = Some c" and "c_state c = Updating"
    and "c_id m = c_id c" and "c_domain m = c_domain c" and "c_update m = c_update c"
    and "length (c_domain c) \<le> 32" and "network s = [Delivered, Delivered, Delivered, Lost_request]"
  shows "fst (db_stop_cert m s) = Err Connection_lost \<and>
    tables_abs (snd (db_stop_cert m s)) = (tables_abs s)\<lparr>a_cert := Some (m\<lparr>c_state := State_Ok\<rparr>)\<rparr>"
proof -
  let ?m = "m\<lparr>c_state := State_Ok\<rparr>"
  have Ok: "fst (exec_stmt (Update_cert ?m) s) = Ok ()"
    by (rule exec_update_cert_Ok [OF assms(1,2)]) (simp_all add: assms)
  have abs: "tables_abs (snd (exec_stmt (Update_cert ?m) s)) = (tables_abs s)\<lparr>a_cert := Some ?m\<rparr>"
    by (rule exec_update_cert(2) [OF assms(1,2) _ _ Ok]) (simp_all add: assms)
  obtain u where u: "exec_stmt (Update_cert ?m) s = (Ok (), u)"
    using Ok by (cases "exec_stmt (Update_cert ?m) s") auto
  have run: "db_stop_cert m s = (Err Connection_lost, u\<lparr>network := []\<rparr>)"
    using assms u view_keeps_network [of "[Update_cert ?m]" s]
    by (simp add: db_stop_cert_def db_stop_body_def pool_begin_def tx_query_def pool_execute_def
        tx_commit_def request_def bind_op_def ret_def select_cert_def Let_def view_def)
  have "tables_abs (u\<lparr>network := []\<rparr>) = (tables_abs s)\<lparr>a_cert := Some ?m\<rparr>"
    using abs u by (simp add: tables_abs_def)
  then show ?thesis
    by (simp only: run fst_conv snd_conv)
qed

theorem db_stop_not_atomic_witness:
  "let s = example_db (renewed_cert Updating) [Delivered, Delivered, Delivered, Lost_request];
       m = (renewed_cert Updating)\<lparr>c_cert := Some ''new''\<rparr> in
   fst (db_stop_cert m s) = Err Connection_lost \<and>
   first_value (certs (snd (db_stop_cert m s))) = Some (m\<lparr>c_state := State_Ok\<rparr>)"
proof -
  let ?s = "example_db (renewed_cert Updating) [Delivered, Delivered, Delivered, Lost_request]"
  let ?m = "(renewed_cert Updating)\<lparr>c_cert := Some ''new''\<rparr>"
  have ok: "tables_ok ?s"
    by (rule example_db_ok) (simp add: renewed_cert_def)
  have "fst (db_stop_cert ?m ?s) = Err Connection_lost \<and>
    tables_abs (snd (db_stop_cert ?m ?s)) = (tables_abs ?s)\<lparr>a_cert := Some (?m\<lparr>c_state := State_Ok\<rparr>)\<rparr>"
    by (rule db_stop_not_atomic [OF ok, of "renewed_cert Updating"])
      (simp_all add: example_db_def renewed_cert_def first_value_def)
  then show ?thesis
    by (simp add: tables_abs_def Let_def)
qed

text \<open>
  C27: Two managers that read the certificate before either has written both get the job: the
  transactions of \<^verbatim>\<open>start_cert\<close> do not lock the row they read, so both are handed the same idle
  certificate in state \<open>Updating\<close>.
\<close>

theorem db_concurrent_renewal:
  assumes "tables_ok s" and "network s = []" and "first_value (certs s) = Some c"
    and "length (c_domain c) \<le> 32" and "c_state c = State_Ok"
  shows "fst (interleaved_starts envA envB s)
    = Ok (Some (c\<lparr>c_state := Updating\<rparr>), Some (c\<lparr>c_state := Updating\<rparr>))"
  by (rule interleaved_idle [OF assms(2,1,3-5)])

theorem db_concurrent_renewal_witness:
  "fst (interleaved_starts (db_env 0 9000) (db_env 9 9000) (example_db (renewed_cert State_Ok) []))
    = Ok (Some (renewed_cert Updating), Some (renewed_cert Updating))"
proof -
  have ok: "tables_ok (example_db (renewed_cert State_Ok) [])"
    by (rule example_db_ok) (simp add: renewed_cert_def)
  have "fst (interleaved_starts (db_env 0 9000) (db_env 9 9000) (example_db (renewed_cert State_Ok) []))
    = Ok (Some ((renewed_cert State_Ok)\<lparr>c_state := Updating\<rparr>),
          Some ((renewed_cert State_Ok)\<lparr>c_state := Updating\<rparr>))"
    by (rule db_concurrent_renewal [OF ok])
      (simp_all add: example_db_def renewed_cert_def first_value_def)
  then show ?thesis
    by (simp add: renewed_cert_def)
qed

text \<open>
  C28: On an empty database two managers that start at the same time both create a certificate, so
  the table holds two, which the rest of the program (\<^verbatim>\<open>SELECT * FROM cert LIMIT 1\<close>) takes for one.
\<close>

theorem db_concurrent_first_start:
  assumes "network s = []" and "entries (certs s) = []" and "entries (domains s) = []"
    and "domain_new envA = Ok dA" and "cert_new envA dA = Ok cA" and "length (d_password dA) \<le> 60"
    and "domain_new envB = Ok dB" and "cert_new envB dB = Ok cB" and "length (d_password dB) \<le> 60"
    and "d_id dA \<noteq> d_id dB" and "d_username dA \<noteq> d_username dB"
    and "d_password dA \<noteq> d_password dB" and "c_id cA \<noteq> c_id cB"
  shows "fst (interleaved_starts envA envB s) = Ok (Some cA, Some cB) \<and>
    store_size (certs (snd (interleaved_starts envA envB s))) = 2"
  using assms by (rule interleaved_fresh)

theorem db_concurrent_first_start_witness:
  "let s = \<lparr>certs = empty_store (\<lambda>_ _. 0), domains = empty_store (\<lambda>_ _. 0), acme_rows = [], network = []\<rparr> in
   store_size (certs (snd (interleaved_starts (db_env 0 9000) (db_env 9 9000) s))) = 2"
proof -
  let ?s = "\<lparr>certs = empty_store (\<lambda>_ _. 0), domains = empty_store (\<lambda>_ _. 0), acme_rows = [], network = []\<rparr> :: db"
  let ?d = "\<lambda>k. \<lparr>d_id = uuid (word_of_nat (k + 1)), d_username = uuid (word_of_nat (k + 2)),
      d_password = uuid (word_of_nat k), d_txt = None\<rparr>"
  let ?c = "\<lambda>k. \<lparr>c_id = uuid (word_of_nat (k + 3)), c_update = 9000, c_state = Updating,
      c_cert = None, c_private = None, c_domain = uuid (word_of_nat (k + 1))\<rparr>"
  have new: "domain_new (db_env k 9000) = Ok (?d k)" "cert_new (db_env k 9000) (?d k) = Ok (?c k)" for k
    by (simp_all add: domain_new_def cert_new_def db_env_def add.commute)
  have neq: "uuid (word_of_nat i) \<noteq> uuid (word_of_nat (9 + i))" if "i < 9" for i
  proof
    assume "uuid (word_of_nat i) = uuid (word_of_nat (9 + i))"
    then have "(word_of_nat i :: 128 word) = word_of_nat (9 + i)" by (rule uuid_inj)
    then have "(9 :: 128 word) = 0" by simp
    then show False by simp
  qed
  have "fst (interleaved_starts (db_env 0 9000) (db_env 9 9000) ?s) = Ok (Some (?c 0), Some (?c 9)) \<and>
    store_size (certs (snd (interleaved_starts (db_env 0 9000) (db_env 9 9000) ?s))) = 2"
    by (rule db_concurrent_first_start [OF _ _ _ new(1) new(2) _ new(1) new(2)])
      (use neq [of 0] neq [of 1] neq [of 2] neq [of 3] in \<open>simp_all add: empty_store_def\<close>)
  then show ?thesis
    by (simp add: Let_def)
qed

text \<open>
  C15: In every state that certificate jobs, challenge updates and registrations reach on the database,
  in any order of whole operations (transactions that do not overlap) and whatever requests are lost, there is at most one certificate, its domain is
  stored, every row is stored under its own identity, and every job in progress holds the identity and
  the domain of the stored certificate.
\<close>

theorem db_reachable_consistent:
  assumes "reachable database_facade (s0 :: db) (s, jobs)" and "tables_ok s0"
  shows "store_size (certs s) \<le> 1 \<and>
    (\<forall>i c. lookup (certs s) i = Some c \<longrightarrow> c_id c = i \<and> lookup (domains s) (c_domain c) \<noteq> None) \<and>
    (\<forall>i d. lookup (domains s) i = Some d \<longrightarrow> d_id d = i) \<and>
    (\<forall>m \<in> set jobs. \<exists>c. lookup (certs s) (c_id m) = Some c \<and> c_domain c = c_domain m)"
proof -
  have ok: "tables_ok s" and jobs: "\<forall>m \<in> set jobs. job_known (tables_abs s) m"
    using database.reachable_config_ok [OF assms] by (simp_all add: database.config_ok_def)
  have cert: "c_id c = i \<and> lookup (domains s) (c_domain c) \<noteq> None" if c: "lookup (certs s) i = Some c" for i c
  proof -
    have "store_size (certs s) \<noteq> 0"
      using c by (simp add: size_0_iff fun_eq_iff) force
    then obtain c' where c': "first_value (certs s) = Some c'"
      by (cases "first_value (certs s)") (simp_all add: first_value_None_iff)
    then have "c' = c" "c_id c = i"
      using tables_ok_cert [OF ok c'] c by (auto split: if_splits)
    then show ?thesis
      using a_wf_cert [OF tables_okD(5) [OF ok], of c] c' by simp
  qed
  have "\<exists>c. lookup (certs s) (c_id m) = Some c \<and> c_domain c = c_domain m" if "m \<in> set jobs" for m
  proof -
    have "job_known (tables_abs s) m"
      using jobs that by blast
    then obtain c where c: "first_value (certs s) = Some c" "c_id c = c_id m" "c_domain c = c_domain m"
      by (auto simp: job_known_iff)
    then show ?thesis
      using tables_ok_cert [OF ok c(1)] by simp
  qed
  then show ?thesis
    using cert tables_okD(3) [OF ok] a_wf_key [OF tables_okD(5) [OF ok]] by simp
qed

theorem db_reachable_consistent_witness:
  "\<exists>m. reachable database_facade (example_db (renewed_cert State_Ok) []) (m, [renewed_cert Updating]) \<and>
     store_size (certs m) \<le> 1"
proof -
  let ?s = "example_db (renewed_cert State_Ok) []"
  let ?r = "Ok (Some (renewed_cert Updating)) :: (any_err, cert option) outcome"
  have ok: "tables_ok ?s"
    by (rule example_db_ok) (simp add: renewed_cert_def)
  have "fst (start_cert database_facade (db_env 0 9000) ?s) = ?r"
    by code_simp
  then obtain m where start: "start_cert database_facade (db_env 0 9000) ?s = (?r, m)"
    by (metis prod.collapse)
  have "job_step database_facade (?s, []) (m, [renewed_cert Updating])"
    using job_step.start [OF start, of "[]"] by simp
  then have reach: "reachable database_facade ?s (m, [renewed_cert Updating])"
    by (rule reachable.step [OF reachable.init])
  show ?thesis
    using db_reachable_consistent [OF reach ok] reach by blast
qed

text \<open>
  C10: The lease on the database, over any order of whole operations: from the moment a certificate has been handed out,
  and as long as every other start happens within an hour of the time recorded in it, no start hands out
  a certificate, whatever challenges, registrations, reads, late ends of earlier jobs and lost requests
  come in between; and when the holder's end succeeds, exactly its result is stored.
\<close>

theorem db_lease_exclusive:
  assumes "tables_ok (s :: db)" and "start_cert database_facade env s = (Ok (Some c), s1)"
    and "held_run database_facade c s1 t"
    and "0 \<le> clock env'" and "clock env' < 2 ^ 63" and "clock env' - 3600 \<le> sint (c_update c)"
  shows "(\<forall>c' u. start_cert database_facade env' t \<noteq> (Ok (Some c'), u)) \<and>
    (\<forall>crt key m u. stop_cert database_facade (finished c crt key) t = (Ok m, u) \<longrightarrow>
       a_cert (tables_abs u) = Some (c\<lparr>c_cert := crt, c_private := key, c_state := State_Ok\<rparr>))"
proof -
  have s1: "tables_ok s1" and held: "a_cert (tables_abs s1) = Some c" "c_state c = Updating"
    using database.start_frame [OF assms(2,1)] start_spec_Some [OF database.start_Ok [OF assms(2,1)]] by simp_all
  have t: "tables_ok t" "a_cert (tables_abs t) = Some c"
    using database.held_run_keeps [OF assms(3) s1 held] by simp_all
  show ?thesis
    using database.held_start [OF t held(2) _ assms(4-6)] database.held_finish [OF t held(2)]
    by (fastforce simp: finished_def)
qed

theorem db_lease_exclusive_witness:
  "fst (start_cert database_facade (db_env 0 4600) (snd (create_domain database_facade
      \<lparr>d_id = ''e'', d_username = ''v'', d_password = ''q'', d_txt = None\<rparr>
      (snd (start_cert database_facade (db_env 0 4500) (example_db (renewed_cert State_Ok) [])))))) \<noteq> Ok (Some (renewed_cert Updating))"
proof -
  let ?s = "example_db (renewed_cert State_Ok) []"
  let ?s1 = "snd (start_cert database_facade (db_env 0 4500) ?s)"
  let ?t = "snd (create_domain database_facade \<lparr>d_id = ''e'', d_username = ''v'', d_password = ''q'', d_txt = None\<rparr> ?s1)"
  have ok: "tables_ok ?s"
    by (rule example_db_ok) (simp add: renewed_cert_def)
  have "fst (start_cert database_facade (db_env 0 4500) ?s) = Ok (Some (renewed_cert Updating))"
    by code_simp
  then have start: "start_cert database_facade (db_env 0 4500) ?s = (Ok (Some (renewed_cert Updating)), ?s1)"
    by (metis prod.collapse)
  have run: "held_run database_facade (renewed_cert Updating) ?s1 ?t"
    by (rule held_run.registration [OF held_run.held prod.collapse [symmetric]])
  show ?thesis
    using db_lease_exclusive [OF ok start run, of "db_env 0 4600"] by (simp add: db_env_def renewed_cert_def) (metis prod.collapse)
qed

end
