(* ===== verification/Cert_Manager.thy ===== *)
theory Cert_Manager
  imports Facade_Memory Facade_Database
begin

text \<open>
  \<^verbatim>\<open>src/cert.rs\<close>: the task that obtains and renews the certificate, over any facade. The ACME client
  (crate \<^verbatim>\<open>acme_lib\<close>) is a parameter: a record of the calls the task makes, on a state \<open>'w\<close> that
  holds the client's directory, account and order together with the server behind them.
\<close>

section \<open>Operations that may not return\<close>

text \<open>\<^const>\<open>None\<close> is an operation that runs forever.\<close>

type_synonym ('s, 'e, 'a) dop = "'s \<Rightarrow> (('e, 'a) outcome \<times> 's) option"

definition returns :: "('s, 'e, 'a) op \<Rightarrow> ('s, 'e, 'a) dop" where
  "returns m = (\<lambda>s. Some (m s))"

definition bind_dop :: "('s, 'e, 'a) dop \<Rightarrow> ('a \<Rightarrow> ('s, 'e, 'b) dop) \<Rightarrow> ('s, 'e, 'b) dop" where
  "bind_dop m f = (\<lambda>s. case m s of
       None \<Rightarrow> None
     | Some (Ok a, t) \<Rightarrow> f a t
     | Some (Err e, t) \<Rightarrow> Some (Err e, t)
     | Some (Panic p, t) \<Rightarrow> Some (Panic p, t))"

lemma bind_dop_OkE:
  assumes "bind_dop m f s = Some (Ok b, u)"
  obtains a t where "m s = Some (Ok a, t)" and "f a t = Some (Ok b, u)"
  using assms by (auto simp: bind_dop_def split: option.splits prod.splits outcome.splits)

lemma bind_dop_returns [op_simps]: "m s = (Ok a, t) \<Longrightarrow> bind_dop (returns m) f s = f a t"
  by (simp add: bind_dop_def returns_def)

lemma bind_dop_returns_Err [op_simps]: "m s = (Err e, t) \<Longrightarrow> bind_dop (returns m) f s = Some (Err e, t)"
  by (simp add: bind_dop_def returns_def)

text \<open>The parts of the state the facade and the ACME client work on.\<close>

definition on_facade :: "('s, 'e, 'a) op \<Rightarrow> ('s \<times> 'w, 'e, 'a) op" where
  "on_facade m = (\<lambda>(s, w). case m s of (r, t) \<Rightarrow> (r, (t, w)))"

definition on_acme :: "('w, string, 'a) op \<Rightarrow> ('s \<times> 'w, any_err, 'a) op" where
  "on_acme m = (\<lambda>(s, w). case m w of (r, v) \<Rightarrow> (map_err A_Acme r, (s, v)))"

lemma on_facade_run [op_simps]: "m s = (r, t) \<Longrightarrow> on_facade m (s, w) = (r, (t, w))"
  by (simp add: on_facade_def)

lemma on_acme_run [op_simps]: "m w = (r, v) \<Longrightarrow> on_acme m (s, w) = (map_err A_Acme r, (s, v))"
  by (simp add: on_acme_def)

section \<open>The ACME client\<close>

record 'w acme =
  from_url :: "string \<Rightarrow> (string, 'w) outcome"
  account :: "string \<Rightarrow> ('w, string, unit) op"
  new_order :: "string \<Rightarrow> string list \<Rightarrow> ('w, string, unit) op"
  confirm_validations :: "'w \<Rightarrow> bool"
  authorizations :: "('w, string, string list) op"
  dns_proof :: "'w \<Rightarrow> string \<Rightarrow> string"
  chall_validate :: "string \<Rightarrow> nat \<Rightarrow> ('w, string, unit) op"
  refresh :: "('w, string, unit) op"
  finalize_pkey :: "nat \<Rightarrow> ('w, string, unit) op"
  download_and_save_cert :: "('w, string, string \<times> string) op"

text \<open>
  An authorization is named by its DNS challenge; \<open>download_and_save_cert\<close> returns the private key
  and the certificate. A panic of a task on the blocking pool, or of a spawned task, reaches the task
  that awaits it as a join error.
\<close>

definition joined :: "(any_err, 'a) outcome \<Rightarrow> (any_err, 'a) outcome" where
  "joined r = (case r of Ok a \<Rightarrow> Ok a | Err e \<Rightarrow> Err e | Panic p \<Rightarrow> Err (A_Join p))"

definition manager_new :: "'w acme \<Rightarrow> string \<Rightarrow> (any_err, 'w) outcome" where
  "manager_new A url = joined (map_err A_Acme (from_url A url))"

section \<open>Validating an order\<close>

definition challenge_round :: "'w acme \<Rightarrow> ('s, 'm) facade_scheme \<Rightarrow> domain \<Rightarrow> ('s \<times> 'w, any_err, unit) op" where
  "challenge_round A F domain =
     bind_op (on_acme (authorizations A)) (\<lambda>auths.
     bind_op (lift_outcome (ok_or (A_Msg ''couldn't unpack auths'')
                (case auths of [] \<Rightarrow> None | chall # _ \<Rightarrow> Some chall))) (\<lambda>chall.
     bind_op (\<lambda>(s, w). on_facade (map_err_op A_Sqlx
                (update_domain F (domain\<lparr>d_txt := Some (dns_proof A w chall)\<rparr>))) (s, w)) (\<lambda>_.
     bind_op (on_acme (chall_validate A chall 5000)) (\<lambda>_.
     on_acme (refresh A)))))"

partial_function (option) validate_loop ::
  "'w acme \<Rightarrow> ('s, 'm) facade_scheme \<Rightarrow> domain \<Rightarrow> 's \<times> 'w \<Rightarrow> ((any_err, unit) outcome \<times> 's \<times> 'w) option" where
  "validate_loop A F domain sw =
     (if confirm_validations A (snd sw) then Some (Ok (), sw)
      else (case challenge_round A F domain sw of
          (Ok _, sw') \<Rightarrow> validate_loop A F domain sw'
        | (Err e, sw') \<Rightarrow> Some (Err e, sw')
        | (Panic p, sw') \<Rightarrow> Some (Panic p, sw')))"

definition validate :: "'w acme \<Rightarrow> ('s, 'm) facade_scheme \<Rightarrow> cert \<Rightarrow> domain \<Rightarrow> ('s \<times> 'w, any_err, cert) dop" where
  "validate A F memory_cert domain =
     bind_dop (validate_loop A F domain) (\<lambda>_.
     bind_dop (returns (on_acme (finalize_pkey A 5000))) (\<lambda>_.
     bind_dop (returns (on_acme (download_and_save_cert A))) (\<lambda>(private, cert).
     returns (ret (memory_cert\<lparr>c_private := Some private, c_cert := Some cert\<rparr>)))))"

section \<open>Managing the certificate\<close>

definition issue :: "'w acme \<Rightarrow> ('s, 'm) facade_scheme \<Rightarrow> cert \<Rightarrow> domain \<Rightarrow> ('s \<times> 'w, any_err, cert) dop" where
  "issue A F memory_cert domain =
     bind_dop (returns (on_acme (account A ''acme-dns-rust@byom.de''))) (\<lambda>_.
     bind_dop (returns (on_acme (new_order A ''acme.conblem.me'' []))) (\<lambda>_.
     validate A F memory_cert domain))"

definition spawn_blocking :: "('s, any_err, 'a) dop \<Rightarrow> ('s, any_err, 'a) dop" where
  "spawn_blocking m = (\<lambda>s. case m s of None \<Rightarrow> None | Some (r, t) \<Rightarrow> Some (joined r, t))"

definition manage :: "'w acme \<Rightarrow> ('s, 'm) facade_scheme \<Rightarrow> env \<Rightarrow> ('s \<times> 'w, any_err, unit) dop" where
  "manage A F env =
     bind_dop (returns (on_facade (start_cert F env))) (\<lambda>started.
       case started of
         None \<Rightarrow> returns (ret ())
       | Some memory_cert \<Rightarrow>
           bind_dop (returns (on_facade (map_err_op A_Sqlx
             (find_domain_by_id F (c_domain memory_cert))))) (\<lambda>found.
           bind_dop (returns (lift_outcome (ok_or
             (A_Msg (''Could not find domain: '' @ c_domain memory_cert)) found))) (\<lambda>domain.
           bind_dop (spawn_blocking (issue A F memory_cert domain)) (\<lambda>cert.
           bind_dop (returns (on_facade (map_err_op A_Sqlx (stop_cert F cert)))) (\<lambda>_.
           returns (ret ()))))))"

text \<open>The times of the ticks: the first at once, then one every hour.\<close>

definition interval_tick :: "int \<Rightarrow> nat \<Rightarrow> int" where
  "interval_tick start n = start + int n * uint HOUR_IN_SECONDS"

text \<open>
  One turn of the loop of \<^verbatim>\<open>spawn\<close>, after the hourly tick. The condition is the constant \<^verbatim>\<open>true\<close> of
  the code. An error of \<^verbatim>\<open>manage\<close> is logged and the loop goes on; a panic ends the task, which
  \<^verbatim>\<open>spawn\<close> returns as a join error.
\<close>

definition skip_interval :: bool where
  "skip_interval = True"

definition interval_turn :: "'w acme \<Rightarrow> ('s, 'm) facade_scheme \<Rightarrow> env \<Rightarrow> ('s \<times> 'w, any_err, unit) dop" where
  "interval_turn A F env sw =
     (if skip_interval then Some (Ok (), sw)
      else (case manage A F env sw of
          None \<Rightarrow> None
        | Some (Ok _, sw') \<Rightarrow> Some (Ok (), sw')
        | Some (Err e, sw') \<Rightarrow> Some (Ok (), sw')
        | Some (Panic p, sw') \<Rightarrow> Some (Err (A_Join p), sw')))"

text \<open>The loop after the ticks that have come so far, each with what it takes from outside.\<close>

primrec spawn :: "'w acme \<Rightarrow> ('s, 'm) facade_scheme \<Rightarrow> env list \<Rightarrow> ('s \<times> 'w, any_err, unit) dop" where
  "spawn A F [] = returns (ret ())"
| "spawn A F (env # ticks) = bind_dop (interval_turn A F env) (\<lambda>_. spawn A F ticks)"

section \<open>When the server validates\<close>

text \<open>
  The states in which the loop of \<^verbatim>\<open>validate\<close>, and \<^verbatim>\<open>manage\<close> as a whole, ask the server to validate a
  challenge: these are the moments at which the server looks for the proof in the DNS.
\<close>

inductive loop_validates :: "'w acme \<Rightarrow> ('s, 'm) facade_scheme \<Rightarrow> domain \<Rightarrow> 's \<times> 'w \<Rightarrow> 's \<times> 'w \<Rightarrow> string \<Rightarrow> bool"
  for A F domain where
  now: "\<not> confirm_validations A w \<Longrightarrow> authorizations A w = (Ok (chall # auths), w1) \<Longrightarrow>
    update_domain F (domain\<lparr>d_txt := Some (dns_proof A w1 chall)\<rparr>) s = (Ok (), s1) \<Longrightarrow>
    loop_validates A F domain (s, w) (s1, w1) chall"
| later: "\<not> confirm_validations A (snd sw) \<Longrightarrow> challenge_round A F domain sw = (Ok (), sw') \<Longrightarrow>
    loop_validates A F domain sw' x chall \<Longrightarrow> loop_validates A F domain sw x chall"

inductive manage_validates :: "'w acme \<Rightarrow> ('s, 'm) facade_scheme \<Rightarrow> env \<Rightarrow> 's \<times> 'w \<Rightarrow> cert \<Rightarrow> 's \<times> 'w \<Rightarrow> string \<Rightarrow> bool"
  for A F env where
  "start_cert F env s = (Ok (Some c), s1) \<Longrightarrow> find_domain_by_id F (c_domain c) s1 = (Ok (Some d), s2) \<Longrightarrow>
    account A ''acme-dns-rust@byom.de'' w = (Ok (), w1) \<Longrightarrow> new_order A ''acme.conblem.me'' [] w1 = (Ok (), w2) \<Longrightarrow>
    loop_validates A F d (s2, w2) x chall \<Longrightarrow> manage_validates A F env (s, w) c x chall"

inductive_cases manage_validatesE: "manage_validates A F env sw c x chall"

text \<open>A round that succeeds has asked the server once, in such a state, and the server has said yes.\<close>

lemma round_validates:
  assumes "\<not> confirm_validations A w" and "challenge_round A F d (s, w) = (Ok u, sw')"
  shows "\<exists>s1 w1 chall w2. loop_validates A F d (s, w) (s1, w1) chall \<and> chall_validate A chall 5000 w1 = (Ok (), w2) \<and>
    fst sw' = s1"
proof -
  obtain chall auths w1 s1 w2 where run: "authorizations A w = (Ok (chall # auths), w1)"
      "update_domain F (d\<lparr>d_txt := Some (dns_proof A w1 chall)\<rparr>) s = (Ok (), s1)"
      "chall_validate A chall 5000 w1 = (Ok (), w2)" "fst sw' = s1"
    using assms(2) unfolding challenge_round_def
    by (elim bind_op_OkE)
      (auto simp: on_acme_def on_facade_def lift_outcome_def map_err_op_def split: prod.splits list.splits)
  then show ?thesis
    using loop_validates.now [OF assms(1) run(1,2)] by blast
qed

section \<open>Facts over any facade\<close>

text \<open>The loop, cut off after a number of rounds.\<close>

fun rounds :: "nat \<Rightarrow> 'w acme \<Rightarrow> ('s, 'm) facade_scheme \<Rightarrow> domain \<Rightarrow> 's \<times> 'w \<Rightarrow> ((any_err, unit) outcome \<times> 's \<times> 'w) option" where
  "rounds n A F domain sw =
     (if confirm_validations A (snd sw) then Some (Ok (), sw)
      else (case n of 0 \<Rightarrow> None | Suc k \<Rightarrow>
        (case challenge_round A F domain sw of
          (Ok _, sw') \<Rightarrow> rounds k A F domain sw'
        | (Err e, sw') \<Rightarrow> Some (Err e, sw')
        | (Panic p, sw') \<Rightarrow> Some (Panic p, sw'))))"

declare rounds.simps [simp del]

lemma rounds_loop: "rounds n A F domain sw = Some x \<Longrightarrow> validate_loop A F domain sw = Some x"
proof (induction n A F domain sw rule: rounds.induct)
  case (1 n A F domain sw)
  show ?case
  proof (cases "confirm_validations A (snd sw)")
    case True
    then show ?thesis
      using "1.prems" by (simp add: rounds.simps [of n] validate_loop.simps [of A F domain sw])
  next
    case False
    then obtain k where k: "n = Suc k"
      using "1.prems" by (cases n) (simp_all add: rounds.simps [of 0])
    show ?thesis
      using False "1.prems" "1.IH" [OF False k]
      by (auto simp: k rounds.simps [of "Suc k"] validate_loop.simps [of A F domain sw]
          split: prod.splits outcome.splits)
  qed
qed

lemma rounds_Suc_step:
  "\<not> confirm_validations A (snd sw) \<Longrightarrow> rounds (Suc k) A F domain sw =
     (case challenge_round A F domain sw of
        (Ok _, sw') \<Rightarrow> rounds k A F domain sw'
      | (Err e, sw') \<Rightarrow> Some (Err e, sw')
      | (Panic p, sw') \<Rightarrow> Some (Panic p, sw'))"
  by (subst rounds.simps) simp

lemma rounds_confirmed: "confirm_validations A (snd sw) \<Longrightarrow> rounds n A F domain sw = Some (Ok (), sw)"
  by (subst rounds.simps) simp

lemma loop_rounds:
  assumes "validate_loop A F domain sw = Some x"
  shows "\<exists>n. rounds n A F domain sw = Some x"
proof (rule validate_loop.raw_induct
    [where P = "\<lambda>A F d sw x. \<exists>n. rounds n A F d sw = Some x", OF _ assms])
  fix loop and A :: "'b acme" and F :: "('a, 'c) facade_scheme" and d and sw :: "'a \<times> 'b" and x
  assume 1: "\<And>A F d sw x. loop A F d sw = Some x \<Longrightarrow> \<exists>n. rounds n A F d sw = Some x"
    "(if confirm_validations A (snd sw) then Some (Ok (), sw)
      else case challenge_round A F d sw of
          (Ok _, sw') \<Rightarrow> loop A F d sw'
        | (Err e, sw') \<Rightarrow> Some (Err e, sw')
        | (Panic p, sw') \<Rightarrow> Some (Panic p, sw')) = Some x"
  show "\<exists>n. rounds n A F d sw = Some x"
  proof (cases "confirm_validations A (snd sw)")
    case True
    then show ?thesis
      using 1(2) by (auto simp: rounds_confirmed)
  next
    case False
    obtain r sw' where step: "challenge_round A F d sw = (r, sw')"
      by (cases "challenge_round A F d sw")
    show ?thesis
    proof (cases r)
      case (Ok u)
      then have "loop A F d sw' = Some x"
        using 1(2) False step by simp
      then obtain n where "rounds n A F d sw' = Some x"
        using 1(1) by blast
      then show ?thesis
        using False step Ok by (intro exI [of _ "Suc n"]) (simp add: rounds_Suc_step)
    qed (use 1(2) False step in \<open>auto intro!: exI [of _ "Suc 0"] simp: rounds_Suc_step\<close>)
  qed
qed

text \<open>How a challenge round changes the facade: at most the proof in the domain's record.\<close>

definition proof_of :: "domain \<Rightarrow> astate \<Rightarrow> astate \<Rightarrow> bool" where
  "proof_of d a b \<longleftrightarrow> b = a \<or> (\<exists>p. b = add_domain (d\<lparr>d_txt := Some p\<rparr>) a)"

lemma proof_of_refl [simp]: "proof_of d a a"
  by (simp add: proof_of_def)

lemma proof_of_trans:
  assumes "proof_of d a b" and "proof_of d b c"
  shows "proof_of d a c"
proof -
  have "add_domain (d\<lparr>d_txt := Some q\<rparr>) (add_domain (d\<lparr>d_txt := Some p\<rparr>) a)
      = add_domain (d\<lparr>d_txt := Some q\<rparr>) a" for p q
    by (simp add: add_domain_def)
  then show ?thesis
    using assms unfolding proof_of_def by metis
qed

lemma proof_of_cert: "proof_of d a b \<Longrightarrow> a_cert b = a_cert a"
  by (auto simp: proof_of_def)

lemma proof_of_domain:
  "proof_of d a b \<Longrightarrow> a_domains a (d_id d) = Some d \<Longrightarrow>
    \<exists>txt. a_domains b (d_id d) = Some (d\<lparr>d_txt := txt\<rparr>)"
  by (auto simp: proof_of_def intro: exI [of _ "d_txt d"])

context facade_provider
begin

definition kept :: "domain \<Rightarrow> 's \<Rightarrow> 's \<Rightarrow> bool" where
  "kept d s t \<longleftrightarrow> ok t \<and> proof_of d (abs s) (abs t) \<and> a_domains (abs t) (d_id d) \<noteq> None"

lemma kept_trans: "kept d s t \<Longrightarrow> kept d t u \<Longrightarrow> kept d s u"
  by (auto simp: kept_def intro: proof_of_trans)

lemma kept_update:
  assumes "kept d s t" and "update_domain F (d\<lparr>d_txt := Some p\<rparr>) t = (r, u)"
  shows "kept d s u"
proof -
  let ?d = "d\<lparr>d_txt := Some p\<rparr>"
  have pre: "ok t" "a_domains (abs t) (d_id ?d) \<noteq> None"
    using assms(1) by (simp_all add: kept_def)
  have "abs u = abs t \<or> abs u = add_domain ?d (abs t)"
    using update_Ok [OF _ pre, of _ u] update_Err [OF _ pre, of _ u]
      update_Panic [OF _ pre(1), of ?d _ u] pre(2) assms(2) by (cases r) auto
  then have "kept d t u"
    using update_frame [OF assms(2) pre] pre(2) by (auto simp: kept_def proof_of_def)
  then show ?thesis
    using assms(1) kept_trans by blast
qed

lemma challenge_round_kept:
  assumes "challenge_round A F d (s, w) = (r, (t, v))" and "kept d s0 s"
  shows "kept d s0 t"
  using assms
  by (auto simp: challenge_round_def bind_op_def on_acme_def on_facade_def lift_outcome_def
      map_err_op_def split: prod.splits outcome.splits list.splits dest: kept_update)

text \<open>Whenever the server validates, the domain's record holds exactly the proof.\<close>

lemma loop_validates_proof:
  assumes "loop_validates A F d sw x chall" and "kept d s0 (fst sw)"
  shows "kept d s0 (fst x) \<and>
    a_domains (abs (fst x)) (d_id d) = Some (d\<lparr>d_txt := Some (dns_proof A (snd x) chall)\<rparr>)"
  using assms
proof (induction rule: loop_validates.induct)
  case (now w chall auths w1 s s1)
  then have s: "ok s" "a_domains (abs s) (d_id d) \<noteq> None"
    by (simp_all add: kept_def)
  then show ?case
    using kept_update [OF _ now.hyps(3)] now.prems update_Ok [OF now.hyps(3)] by simp
next
  case (later sw sw' x chall)
  then show ?case
    using challenge_round_kept [of A d "fst sw" "snd sw" "Ok ()" "fst sw'" "snd sw'" s0] by simp
qed

lemma manage_validates_proof:
  assumes "manage_validates A F env (s, w) c x chall" and "ok s"
  shows "ok (fst x) \<and> a_cert (abs (fst x)) = Some c \<and>
    (\<exists>d. a_domains (abs (fst x)) (c_domain c) = Some d \<and> d_txt d = Some (dns_proof A (snd x) chall))"
  using assms(1)
proof (rule manage_validatesE)
  fix s' s1 d s2 w' w1 w2
  assume sw: "(s, w) = (s', w')" and start: "start_cert F env s' = (Ok (Some c), s1)"
    and find: "find_domain_by_id F (c_domain c) s1 = (Ok (Some d), s2)"
    and loop: "loop_validates A F d (s2, w2) x chall"
  have ok1: "ok s1" and spec: "start_spec env (abs s) = (Ok (Some c), abs s1)"
    using start_frame [OF start] start_Ok [OF start] assms(2) sw by simp_all
  have s2: "ok s2" "abs s2 = abs s1" "a_domains (abs s1) (c_domain c) = Some d"
    using find_frame [OF find ok1] find_Ok [OF find ok1] by simp_all
  have id: "d_id d = c_domain c"
    using a_wf_key [OF wf [OF ok1] s2(3)] .
  have "kept d s2 s2"
    using s2 id by (simp add: kept_def)
  then have x: "kept d s2 (fst x)"
      "a_domains (abs (fst x)) (d_id d) = Some (d\<lparr>d_txt := Some (dns_proof A (snd x) chall)\<rparr>)"
    using loop_validates_proof [OF loop] by simp_all
  then have "a_cert (abs (fst x)) = Some c"
    using proof_of_cert [of d "abs s2" "abs (fst x)"] s2(2) start_spec_Some(1) [OF spec] by (simp add: kept_def)
  then show ?thesis
    using x id by (simp add: kept_def)
qed

lemma rounds_kept:
  "rounds n A F d (s, w) = Some (r, (t, v)) \<Longrightarrow> kept d s0 s \<Longrightarrow> kept d s0 t"
proof (induction n arbitrary: s w)
  case 0
  then show ?case
    by (simp add: rounds.simps [of 0] split: if_splits)
next
  case (Suc n)
  show ?case
  proof (cases "confirm_validations A w")
    case True
    then show ?thesis
      using Suc.prems by (simp add: rounds_confirmed)
  next
    case False
    obtain q s' w' where step: "challenge_round A F d (s, w) = (q, (s', w'))"
      using prod_cases3 by blast
    have "kept d s0 s'"
      by (rule challenge_round_kept [OF step Suc.prems(2)])
    then show ?thesis
      using Suc False step by (cases q) (simp_all add: rounds_Suc_step)
  qed
qed

lemma validate_loop_kept:
  assumes "validate_loop A F d (s, w) = Some (r, (t, v))" and "kept d s0 s"
  shows "kept d s0 t"
proof -
  obtain n where "rounds n A F d (s, w) = Some (r, (t, v))"
    using loop_rounds [OF assms(1)] ..
  then show ?thesis
    using assms(2) by (rule rounds_kept)
qed

text \<open>An operation that does nothing to the facade beyond the proof in the domain's record.\<close>

definition keeps :: "domain \<Rightarrow> ('s \<times> 'w, any_err, 'a) dop \<Rightarrow> bool" where
  "keeps d m \<longleftrightarrow> (\<forall>s0 s w r t v. m (s, w) = Some (r, (t, v)) \<longrightarrow> kept d s0 s \<longrightarrow> kept d s0 t)"

lemma keepsD: "keeps d m \<Longrightarrow> m (s, w) = Some (r, (t, v)) \<Longrightarrow> kept d s0 s \<Longrightarrow> kept d s0 t"
  unfolding keeps_def by blast

lemma keeps_bind:
  assumes "keeps d m" and "\<And>a. keeps d (f a)"
  shows "keeps d (bind_dop m f)"
proof -
  have "kept d s0 t" if run: "bind_dop m f (s, w) = Some (r, (t, v))" and s: "kept d s0 s" for s0 s w r t v
  proof -
    obtain q s' w' where m: "m (s, w) = Some (q, (s', w'))"
      using run by (cases "m (s, w)") (auto simp: bind_dop_def)
    have "kept d s0 s'"
      by (rule keepsD [OF assms(1) m s])
    then show ?thesis
      using run m keepsD [OF assms(2)] by (cases q) (auto simp: bind_dop_def)
  qed
  then show ?thesis
    unfolding keeps_def by blast
qed

lemma keeps_acme: "keeps d (returns (on_acme m))"
  by (auto simp: keeps_def returns_def on_acme_def split: prod.splits)

lemma keeps_ret: "keeps d (returns (ret a))"
  by (auto simp: keeps_def returns_def ret_def)

lemma keeps_loop: "keeps d (validate_loop A F d)"
  unfolding keeps_def by (intro allI impI) (rule validate_loop_kept)

lemma keeps_issue: "keeps d (issue A F c d)"
  by (auto simp: issue_def validate_def intro!: keeps_bind keeps_acme keeps_ret keeps_loop
      split: prod.split)

lemma issue_Ok:
  assumes "issue A F c d sw = Some (Ok c', (t, v))"
  obtains key crt w1 where "c' = c\<lparr>c_private := Some key, c_cert := Some crt\<rparr>"
    and "download_and_save_cert A w1 = (Ok (key, crt), v)"
  using assms unfolding issue_def validate_def
  by (elim bind_dop_OkE) (auto simp: returns_def ret_def on_acme_def elim!: bind_dop_OkE split: prod.splits)

lemma manage_none:
  assumes "start_cert F env s = (Ok None, s1)"
  shows "manage A F env (s, w) = Some (Ok (), (s1, w))"
  using assms by (simp add: manage_def op_simps) (simp add: returns_def op_simps)

lemma manage_some:
  assumes "start_cert F env s = (Ok (Some c), s1)" and "find_domain_by_id F (c_domain c) s1 = (Ok (Some d), s2)"
  shows "manage A F env (s, w) = bind_dop (spawn_blocking (issue A F c d)) (\<lambda>cert.
    bind_dop (returns (on_facade (map_err_op A_Sqlx (stop_cert F cert)))) (\<lambda>_. returns (ret ()))) (s2, w)"
  using assms by (simp add: manage_def op_simps)

text \<open>What a success of \<^verbatim>\<open>manage\<close> means.\<close>

lemma manage_Ok_run:
  assumes "ok s" and "manage A F env (s, w) = Some (Ok (), (t, v))"
  shows "ok t \<and> (start_spec env (abs s) = (Ok None, abs s) \<and> abs t = abs s \<and> v = w \<or>
    (\<exists>c d key crt. fst (start_spec env (abs s)) = Ok (Some c) \<and>
       a_domains (snd (start_spec env (abs s))) (c_domain c) = Some d \<and>
       a_cert (abs t) = Some (c\<lparr>c_private := Some key, c_cert := Some crt, c_state := State_Ok\<rparr>) \<and>
       (\<exists>w1. download_and_save_cert A w1 = (Ok (key, crt), v)) \<and>
       (\<exists>txt. a_domains (abs t) (c_domain c) = Some (d\<lparr>d_txt := txt\<rparr>))))"
proof -
  obtain started s1 where start: "start_cert F env s = (Ok started, s1)"
    using assms(2) unfolding manage_def returns_def
    by (elim bind_dop_OkE) (auto simp: on_facade_def split: prod.splits)
  have ok1: "ok s1" and spec: "start_spec env (abs s) = (Ok started, abs s1)"
    using start_frame [OF start assms(1)] start_Ok [OF start assms(1)] by simp_all
  show ?thesis
  proof (cases started)
    case None
    then show ?thesis
      using manage_none [of env s s1 A w] start spec assms(2) ok1 start_spec_None [of env "abs s" "abs s1"]
      by auto
  next
    case (Some c)
    obtain d s2 where find: "find_domain_by_id F (c_domain c) s1 = (Ok (Some d), s2)"
      using assms(2) start Some unfolding manage_def
      by (auto simp: op_simps bind_dop_def returns_def on_facade_def map_err_op_def lift_outcome_def
          ok_or_def split: option.splits prod.splits outcome.splits)
    have s2: "ok s2" "abs s2 = abs s1" "a_domains (abs s1) (c_domain c) = Some d"
      using find_frame [OF find ok1] find_Ok [OF find ok1] by simp_all
    have id: "d_id d = c_domain c"
      using a_wf_key [OF wf [OF ok1] s2(3)] .
    obtain c' s3 where iss: "issue A F c d (s2, w) = Some (Ok c', (s3, v))"
        and stop: "\<exists>m'. stop_cert F c' s3 = (Ok m', t)"
      using assms(2) manage_some [OF start [unfolded Some] find, of A w]
      by (auto simp: bind_dop_def spawn_blocking_def joined_def returns_def on_facade_def map_err_op_def
          ret_def split: option.splits prod.splits outcome.splits)
    have "kept d s2 s2"
      using s2 id by (simp add: kept_def)
    then have k: "kept d s2 s3"
      using keepsD [OF keeps_issue iss] by blast
    obtain key crt w1 where c': "c' = c\<lparr>c_private := Some key, c_cert := Some crt\<rparr>"
        and down: "download_and_save_cert A w1 = (Ok (key, crt), v)"
      using issue_Ok [OF iss] .
    have cert: "a_cert (abs s3) = Some c" "c_state c = Updating"
      using start_spec_Some [OF spec [unfolded Some]] proof_of_cert [of d "abs s2" "abs s3"] k s2(2)
      by (simp_all add: kept_def)
    have same: "same_job c' (abs s3)"
      using cert(1) c' by (simp add: same_job_def)
    obtain m' where m': "stop_cert F c' s3 = (Ok m', t)" using stop ..
    have "stop_spec c' (abs s3) = (m', abs t)" and okt: "ok t"
      using k same by (intro stop_Ok [OF m'] stop_frame [OF m']; simp add: kept_def)+
    then have t: "abs t = (abs s3)\<lparr>a_cert := Some (c'\<lparr>c_state := State_Ok\<rparr>)\<rparr>"
      using stop_spec_current [OF cert, of c'] c' by simp
    have "\<exists>txt. a_domains (abs s3) (c_domain c) = Some (d\<lparr>d_txt := txt\<rparr>)"
      using proof_of_domain [of d "abs s2" "abs s3"] k s2 id by (simp add: kept_def)
    then show ?thesis
      using spec Some s2(3) t c' down okt by auto
  qed
qed

lemmas manage_Ok = manage_Ok_run [THEN conjunct2]

text \<open>A job that fails before its certificate is there stays in state \<open>Updating\<close>.\<close>

lemma manage_issue_fails:
  assumes "ok s" and "start_cert F env s = (Ok (Some c), s1)"
    and "find_domain_by_id F (c_domain c) s1 = (Ok (Some d), s2)"
    and "issue A F c d (s2, w) = Some (r, (t, v))" and "joined r = Err e"
  shows "manage A F env (s, w) = Some (Err e, (t, v))" and "ok t"
    and "a_cert (abs t) = Some c" and "c_state c = Updating"
proof -
  have ok1: "ok s1" and spec: "start_spec env (abs s) = (Ok (Some c), abs s1)"
    using start_frame [OF assms(2,1)] start_Ok [OF assms(2,1)] by simp_all
  have s2: "ok s2" "abs s2 = abs s1" "a_domains (abs s1) (c_domain c) = Some d"
    using find_frame [OF assms(3) ok1] find_Ok [OF assms(3) ok1] by simp_all
  have "kept d s2 s2"
    using s2 a_wf_key [OF wf [OF ok1] s2(3)] by (simp add: kept_def)
  then have k: "kept d s2 t"
    using keepsD [OF keeps_issue assms(4)] by blast
  then show "a_cert (abs t) = Some c" "c_state c = Updating"
    using start_spec_Some [OF spec] proof_of_cert [of d "abs s2" "abs t"] s2(2) by (simp_all add: kept_def)
  show "manage A F env (s, w) = Some (Err e, (t, v))"
    using manage_some [OF assms(2,3), of A w] assms(4,5)
    by (simp add: bind_dop_def spawn_blocking_def)
  show "ok t"
    using k by (simp add: kept_def)
qed

text \<open>Within the lease of a job, another \<^verbatim>\<open>manage\<close> ends after its \<^verbatim>\<open>start_cert\<close>.\<close>

lemma manage_held:
  assumes "ok t" and "a_cert (abs t) = Some c" and "c_state c = Updating"
    and "0 \<le> clock env" and "clock env < 2 ^ 63" and "clock env - 3600 \<le> sint (c_update c)"
  shows "\<exists>q u. manage B F env (t, b) = Some (q, (u, b)) \<and> (q = Ok () \<or> (\<exists>x. q = Err x)) \<and> abs u = abs t"
proof -
  obtain r u where start: "start_cert F env t = (r, u)" by fastforce
  have "abs u = abs t" and r: "r = Ok None \<or> (\<exists>x. r = Err x)"
    using held_start [OF assms(1-3) start assms(4-6)] by simp_all
  moreover from r have "\<exists>q. manage B F env (t, b) = Some (q, (u, b)) \<and> (q = Ok () \<or> (\<exists>x. q = Err x))"
  proof
    assume "r = Ok None"
    then show ?thesis
      using manage_none [of env t u B b] start by simp
  next
    assume "\<exists>x. r = Err x"
    then obtain x where "start_cert F env t = (Err x, u)"
      using start by auto
    then show ?thesis
      by (simp add: manage_def op_simps)
  qed
  ultimately show ?thesis by blast
qed

end

declare validate_loop.simps [code]

text \<open>
  The lease is as long as the interval, and compared strictly: a job that was started at one tick and has
  failed is not taken over at the next tick but at the one after it.
\<close>

lemma retried_at_second_tick:
  assumes "a_cert a = Some c" and "c_state c = Updating" and "c_update c = word_of_int (interval_tick t n)"
    and "0 \<le> t" and "interval_tick t (n + 2) < 2 ^ 63"
    and "clock env1 = interval_tick t (n + 1)" and "clock env2 = interval_tick t (n + 2)"
  shows "start_spec env1 a = (Ok None, a)"
    and "start_spec env2 a = (Ok (Some (c\<lparr>c_update := word_of_int (clock env2)\<rparr>)),
      a\<lparr>a_cert := Some (c\<lparr>c_update := word_of_int (clock env2)\<rparr>)\<rparr>)"
proof -
  have "uint HOUR_IN_SECONDS = 3600"
    by (simp add: HOUR_IN_SECONDS_def)
  then have ticks: "interval_tick t (n + 1) = interval_tick t n + 3600" "interval_tick t (n + 2) = interval_tick t n + 7200"
      "0 \<le> interval_tick t n"
    using assms(4) by (simp_all add: interval_tick_def algebra_simps)
  have upd: "sint (c_update c) = interval_tick t n"
    unfolding assms(3) using ticks assms(5) by (intro sint_word_of_int_64) simp_all
  show "start_spec env1 a = (Ok None, a)"
    by (rule start_spec_running [OF assms(1,2)]) (use ticks assms(5,6) upd in simp_all)
  show "start_spec env2 a = (Ok (Some (c\<lparr>c_update := word_of_int (clock env2)\<rparr>)),
      a\<lparr>a_cert := Some (c\<lparr>c_update := word_of_int (clock env2)\<rparr>)\<rparr>)"
    by (rule start_spec_expired [OF assms(1,2)]) (use ticks assms(5,7) upd in simp_all)
qed

section \<open>Termination\<close>

text \<open>
  \<^verbatim>\<open>Challenge::validate\<close> waits until the server has decided the challenge, and the order names one
  domain: when validating and refreshing have both succeeded, the order is confirmed.
\<close>

definition decides :: "'w acme \<Rightarrow> bool" where
  "decides A \<longleftrightarrow> (\<forall>chall w w1 w2. chall_validate A chall 5000 w = (Ok (), w1) \<longrightarrow>
     refresh A w1 = (Ok (), w2) \<longrightarrow> confirm_validations A w2)"

lemma challenge_round_confirms:
  assumes "decides A" and "challenge_round A F d sw = (Ok u, sw')"
  shows "confirm_validations A (snd sw')"
  using assms(2) assms(1) unfolding challenge_round_def
  by (elim bind_op_OkE) (auto simp: on_acme_def decides_def split: prod.splits)

lemma rounds_one:
  assumes "decides A"
  shows "rounds 1 A F d sw \<noteq> None"
proof (cases "confirm_validations A (snd sw)")
  case True
  then show ?thesis by (simp add: rounds_confirmed)
next
  case False
  obtain r sw' where step: "challenge_round A F d sw = (r, sw')"
    by (cases "challenge_round A F d sw")
  then show ?thesis
    using False challenge_round_confirms [OF assms, of F d sw _ sw']
    by (cases r) (auto simp: rounds_Suc_step rounds_confirmed)
qed

lemma bind_dop_returning:
  assumes "\<And>s. m s \<noteq> None" and "\<And>a s. f a s \<noteq> None"
  shows "bind_dop m f s \<noteq> None"
  using assms by (auto simp: bind_dop_def split: option.split outcome.split)

lemma returns_returning: "returns m s \<noteq> None"
  by (simp add: returns_def)

lemma issue_returns:
  assumes "decides A"
  shows "issue A F c d sw \<noteq> None"
proof -
  have "validate_loop A F d sw \<noteq> None" for sw
    using rounds_one [OF assms, of F d sw] rounds_loop by blast
  then show ?thesis
    unfolding issue_def validate_def
    by (intro bind_dop_returning returns_returning) (simp_all add: returns_def ret_def split: prod.split)
qed

lemma option_case_returning:
  assumes "f s \<noteq> None" and "\<And>x. g x s \<noteq> None"
  shows "(case opt of None \<Rightarrow> f | Some x \<Rightarrow> g x) s \<noteq> None"
  using assms by (cases opt) simp_all

section \<open>Properties\<close>

text \<open>A server that accepts the challenge at the first attempt, and one whose account is locked.\<close>

definition example_acme :: "nat acme" where
  "example_acme = \<lparr>
     from_url = (\<lambda>url. Ok 0),
     account = (\<lambda>mail. ret ()),
     new_order = (\<lambda>name alts. ret ()),
     confirm_validations = (\<lambda>w. 2 \<le> w),
     authorizations = (\<lambda>w. (Ok [''chal''], w)),
     dns_proof = (\<lambda>w chall. ''proof''),
     chall_validate = (\<lambda>chall delay w. (Ok (), Suc w)),
     refresh = (\<lambda>w. if w = 1 then (Ok (), 2) else (Err ''gone'', w)),
     finalize_pkey = (\<lambda>delay. ret ()),
     download_and_save_cert = ret (''key2'', ''crt2'')\<rparr>"

definition locked_acme :: "nat acme" where
  "locked_acme = example_acme\<lparr>account := (\<lambda>mail. throw ''account locked'')\<rparr>"

text \<open>
  C5: When \<^verbatim>\<open>manage\<close> succeeds on the database, either the protocol had no job to hand out and neither
  the data nor the ACME client's state has changed, or the job it handed out has been finished: the
  stored certificate is the job's, in state \<open>Ok\<close>, with the certificate and key of the last download, and
  of the job's domain at most the challenge record has changed.
\<close>

theorem manage_stores:
  assumes "tables_ok (s :: db)" and "manage A database_facade env (s, w) = Some (Ok (), (t, v))"
  shows "start_spec env (tables_abs s) = (Ok None, tables_abs s) \<and> tables_abs t = tables_abs s \<and> v = w \<or>
    (\<exists>c d key crt. fst (start_spec env (tables_abs s)) = Ok (Some c) \<and>
       a_domains (snd (start_spec env (tables_abs s))) (c_domain c) = Some d \<and>
       a_cert (tables_abs t) = Some (c\<lparr>c_private := Some key, c_cert := Some crt, c_state := State_Ok\<rparr>) \<and>
       (\<exists>w1. download_and_save_cert A w1 = (Ok (key, crt), v)) \<and>
       (\<exists>txt. a_domains (tables_abs t) (c_domain c) = Some (d\<lparr>d_txt := txt\<rparr>)))"
  using assms by (rule database.manage_Ok)

theorem manage_stores_witness:
  "\<exists>t v. manage example_acme database_facade (db_env 0 9000) (example_db (renewed_cert State_Ok) [], 0)
      = Some (Ok (), (t, v)) \<and>
    a_cert (tables_abs t) = Some ((renewed_cert Updating)\<lparr>c_private := Some ''key2'', c_cert := Some ''crt2'',
      c_state := State_Ok\<rparr>)"
proof -
  let ?s = "example_db (renewed_cert State_Ok) []"
  have ok: "tables_ok ?s"
    by (rule example_db_ok) (simp add: renewed_cert_def)
  have "map_option fst (manage example_acme database_facade (db_env 0 9000) (?s, 0)) = Some (Ok ())"
    by code_simp
  then obtain t v where run: "manage example_acme database_facade (db_env 0 9000) (?s, 0) = Some (Ok (), (t, v))"
    by auto
  have "start_spec (db_env 0 9000) (tables_abs ?s) = (Ok (Some (renewed_cert Updating)),
      (tables_abs ?s)\<lparr>a_cert := Some (renewed_cert Updating)\<rparr>)"
    by (simp add: start_spec_def tables_abs_def example_db_def first_value_def renewed_cert_def Let_def)
  then show ?thesis
    using manage_stores [OF ok run] run by (auto simp: example_acme_def ret_def)
qed



text \<open>
  C30: With a server that decides a challenge once it has been validated and the order refreshed, the
  loop of \<^verbatim>\<open>validate\<close> takes at most one round, and \<^verbatim>\<open>manage\<close> always returns.
\<close>

theorem manage_returns:
  assumes "decides A"
  shows "manage A F env sw \<noteq> None"
proof -
  have "spawn_blocking (issue A F c d) sw \<noteq> None" for c d sw
    using issue_returns [OF assms, of F c d sw] by (auto simp: spawn_blocking_def)
  then show ?thesis
    unfolding manage_def
    by (intro bind_dop_returning returns_returning option_case_returning)
qed

theorem manage_returns_witness:
  "decides example_acme \<and>
   manage example_acme memory_facade (example_env 9000) (example_memory example_cert, 0) \<noteq> None"
proof -
  have "decides example_acme"
    by (auto simp: decides_def example_acme_def split: if_splits)
  then show ?thesis
    using manage_returns [of example_acme] by blast
qed

text \<open>
  The task that \<^verbatim>\<open>spawn\<close> starts never obtains or renews a certificate: after any number of hourly
  ticks the facade and the ACME client are as they were, because every interval is skipped.
\<close>

theorem spawn_never_manages:
  "spawn A F ticks (s, w) = Some (Ok (), (s, w))"
  by (induction ticks) (simp_all add: returns_def ret_def bind_dop_def interval_turn_def skip_interval_def)

end
