(* ===== verification/Utf8.thy ===== *)
theory Utf8
  imports Prelude
begin

text \<open>
  The part of the standard library that decides which DNS labels are text: \<^verbatim>\<open>str::from_utf8\<close> accepts
  exactly the well-formed UTF-8 byte strings. The decision procedure is related to the encoding of
  Unicode scalar values.
\<close>

section \<open>Validation\<close>

definition byte_in :: "nat \<Rightarrow> nat \<Rightarrow> char \<Rightarrow> bool" where
  "byte_in a b c \<longleftrightarrow> a \<le> (of_char c :: nat) \<and> (of_char c :: nat) \<le> b"

fun utf8_valid :: "bytes \<Rightarrow> bool" where
  "utf8_valid [] = True"
| "utf8_valid (b # bs) =
     (if byte_in 0 127 b then utf8_valid bs
      else case bs of
        [] \<Rightarrow> False
      | c # cs \<Rightarrow>
          if byte_in 194 223 b then byte_in 128 191 c \<and> utf8_valid cs
          else (case cs of
            [] \<Rightarrow> False
          | d # ds \<Rightarrow>
              if byte_in 224 239 b then
                (if byte_in 224 224 b then byte_in 160 191 c
                 else if byte_in 237 237 b then byte_in 128 159 c else byte_in 128 191 c)
                \<and> byte_in 128 191 d \<and> utf8_valid ds
              else (case ds of
                [] \<Rightarrow> False
              | e # es \<Rightarrow> byte_in 240 244 b \<and>
                  (if byte_in 240 240 b then byte_in 144 191 c
                   else if byte_in 244 244 b then byte_in 128 143 c else byte_in 128 191 c)
                  \<and> byte_in 128 191 d \<and> byte_in 128 191 e \<and> utf8_valid es)))"

section \<open>Encoding\<close>

text \<open>A scalar value is a code point that is not a surrogate.\<close>

definition scalar :: "nat \<Rightarrow> bool" where
  "scalar n \<longleftrightarrow> n < 55296 \<or> 57344 \<le> n \<and> n < 1114112"

definition byte :: "nat \<Rightarrow> char" where
  "byte n = char_of n"

definition encode_scalar :: "nat \<Rightarrow> bytes" where
  "encode_scalar n =
     (if n < 128 then [byte n]
      else if n < 2048 then [byte (192 + n div 64), byte (128 + n mod 64)]
      else if n < 65536 then
        [byte (224 + n div 4096), byte (128 + n div 64 mod 64), byte (128 + n mod 64)]
      else
        [byte (240 + n div 262144), byte (128 + n div 4096 mod 64), byte (128 + n div 64 mod 64),
         byte (128 + n mod 64)])"

definition utf8_encode :: "nat list \<Rightarrow> bytes" where
  "utf8_encode ns = concat (map encode_scalar ns)"

lemma of_char_byte: "n < 256 \<Longrightarrow> (of_char (byte n) :: nat) = n"
  by (simp add: byte_def)

lemma byte_of_char: "byte (of_char c) = c"
  by (simp add: byte_def)

lemma byte_in_byte: "n < 256 \<Longrightarrow> byte_in a b (byte n) \<longleftrightarrow> a \<le> n \<and> n \<le> b"
  by (simp add: byte_in_def of_char_byte)

text \<open>Numbers in base sixty-four.\<close>

lemma base64: "v < 64 \<Longrightarrow> (u * 64 + v) div 64 = u \<and> (u * 64 + v) mod 64 = (v :: nat)"
  by simp

lemma base64_split: "n div 64 * 64 + n mod 64 = (n :: nat)"
  by simp

lemma valid_encode_scalar:
  assumes "scalar n"
  shows "utf8_valid (encode_scalar n @ bs) = utf8_valid bs"
proof -
  consider "n < 128" | "128 \<le> n" "n < 2048" | "2048 \<le> n" "n < 65536" | "65536 \<le> n" by linarith
  then show ?thesis
  proof cases
    case 1
    then show ?thesis by (simp add: encode_scalar_def byte_in_byte)
  next
    case 2
    then have d: "2 \<le> n div 64" "n div 64 < 32" "n mod 64 \<le> 63" by auto
    then show ?thesis
      using 2 by (simp add: encode_scalar_def byte_in_byte)
  next
    case 3
    define a b c where "a = n div 4096" and "b = n div 64 mod 64" and "c = n mod 64"
    have d: "a < 16" "b < 64" "c < 64" using 3 by (auto simp: a_def b_def c_def)
    have "n div 4096 = n div 64 div 64" by (simp flip: div_mult2_eq)
    then have "n div 64 = a * 64 + b"
      using base64_split [of "n div 64"] by (simp add: a_def b_def)
    then have n: "n = a * 4096 + b * 64 + c"
      using base64_split [of n] by (simp add: c_def)
    have "a = 0 \<Longrightarrow> 32 \<le> b" "a = 13 \<Longrightarrow> b < 32"
      using n d 3 assms by (auto simp: scalar_def)
    then show ?thesis
      using 3 d by (auto simp: encode_scalar_def byte_in_byte simp flip: a_def b_def c_def)
  next
    case 4
    define a b c e where "a = n div 262144" and "b = n div 4096 mod 64" and "c = n div 64 mod 64" and "e = n mod 64"
    have d: "b < 64" "c < 64" "e < 64" by (auto simp: b_def c_def e_def)
    have "n div 4096 = n div 64 div 64" "n div 262144 = n div 64 div 64 div 64"
      by (simp_all flip: div_mult2_eq)
    then have "n div 64 div 64 = a * 64 + b"
      using base64_split [of "n div 64 div 64"] by (simp add: a_def b_def)
    then have "n div 64 = (a * 64 + b) * 64 + c"
      using base64_split [of "n div 64"] by (simp add: c_def)
    then have n: "n = a * 262144 + b * 4096 + c * 64 + e"
      using base64_split [of n] by (simp add: e_def)
    have "a < 5" "a = 0 \<Longrightarrow> 16 \<le> b" "a = 4 \<Longrightarrow> b < 16"
      using n d 4 assms by (auto simp: scalar_def)
    then show ?thesis
      using 4 d by (auto simp: encode_scalar_def byte_in_byte simp flip: a_def b_def c_def e_def)
  qed
qed

lemma valid_utf8_encode: "\<forall>n \<in> set ns. scalar n \<Longrightarrow> utf8_valid (utf8_encode ns)"
  by (induction ns) (simp_all add: utf8_encode_def valid_encode_scalar)

lemma byte_inE:
  assumes "byte_in a b c"
  obtains n where "c = byte n" and "a \<le> n" and "n \<le> b"
  using assms byte_of_char [of c, symmetric] by (auto simp: byte_in_def)

lemma decode_two:
  assumes "byte_in 194 223 b" and "byte_in 128 191 c"
  shows "\<exists>n. scalar n \<and> encode_scalar n = [b, c]"
proof -
  obtain x y where x: "b = byte x" "194 \<le> x" "x \<le> 223" and y: "c = byte y" "128 \<le> y" "y \<le> 191"
    using assms by (elim byte_inE)
  obtain u v where uv: "x = 192 + u" "y = 128 + v" "u < 32" "2 \<le> u" "v < 64"
    using x y le_Suc_ex [of 192 x] le_Suc_ex [of 128 y] by auto
  let ?n = "u * 64 + v"
  have "?n div 64 = u" "?n mod 64 = v" "128 \<le> ?n" "?n < 2048"
    using uv by auto
  then show ?thesis
    using x y uv by (intro exI [of _ ?n]) (simp add: encode_scalar_def scalar_def)
qed

lemma decode_three:
  assumes "byte_in 224 239 b" and "byte_in 128 191 d"
    and "if byte_in 224 224 b then byte_in 160 191 c
         else if byte_in 237 237 b then byte_in 128 159 c else byte_in 128 191 c"
  shows "\<exists>n. scalar n \<and> encode_scalar n = [b, c, d]"
proof -
  have c: "byte_in 128 191 c"
    using assms(3) by (auto simp: byte_in_def split: if_splits)
  obtain x y z where x: "b = byte x" "224 \<le> x" "x \<le> 239" and y: "c = byte y" "128 \<le> y" "y \<le> 191"
    and z: "d = byte z" "128 \<le> z" "z \<le> 191"
    using assms(1,2) c by (elim byte_inE)
  obtain u v w where uv: "x = 224 + u" "y = 128 + v" "z = 128 + w" "u < 16" "v < 64" "w < 64"
    using x y z le_Suc_ex [of 224 x] le_Suc_ex [of 128 y] le_Suc_ex [of 128 z] by auto
  have bounds: "u = 0 \<Longrightarrow> 32 \<le> v" "u = 13 \<Longrightarrow> v < 32"
    using assms(3) uv x(1) y(1) by (auto simp: byte_in_byte split: if_splits)
  define n where "n = (u * 64 + v) * 64 + w"
  have div: "n div 64 = u * 64 + v" "n mod 64 = w"
    using base64 [OF uv(6), of "u * 64 + v"] by (simp_all add: n_def)
  then have "n div 4096 = u" "n div 64 mod 64 = v"
    using base64 [OF uv(5), of u] div_mult2_eq [of n 64 64] by simp_all
  moreover have "2048 \<le> n \<and> n < 65536 \<and> scalar n"
  proof -
    consider "u = 0" | "0 < u" "u < 13" | "u = 13" | "13 < u" by linarith
    then show ?thesis
      using uv bounds by cases (simp_all add: n_def scalar_def)
  qed
  ultimately show ?thesis
    using x y z uv div by (intro exI [of _ n]) (simp add: encode_scalar_def)
qed

lemma decode_four:
  assumes "byte_in 240 244 b" and "byte_in 128 191 d" and "byte_in 128 191 e"
    and "if byte_in 240 240 b then byte_in 144 191 c
         else if byte_in 244 244 b then byte_in 128 143 c else byte_in 128 191 c"
  shows "\<exists>n. scalar n \<and> encode_scalar n = [b, c, d, e]"
proof -
  have c: "byte_in 128 191 c"
    using assms(4) by (auto simp: byte_in_def split: if_splits)
  obtain x y z q where x: "b = byte x" "240 \<le> x" "x \<le> 244" and y: "c = byte y" "128 \<le> y" "y \<le> 191"
    and z: "d = byte z" "128 \<le> z" "z \<le> 191" and q: "e = byte q" "128 \<le> q" "q \<le> 191"
    using assms(1-3) c by (elim byte_inE)
  obtain u v w t where uv: "x = 240 + u" "y = 128 + v" "z = 128 + w" "q = 128 + t" "u < 5" "v < 64" "w < 64" "t < 64"
    using x y z q le_Suc_ex [of 240 x] le_Suc_ex [of 128 y] le_Suc_ex [of 128 z] le_Suc_ex [of 128 q] by auto
  have bounds: "u = 0 \<Longrightarrow> 16 \<le> v" "u = 4 \<Longrightarrow> v < 16"
    using assms(4) uv x(1) y(1) by (auto simp: byte_in_byte split: if_splits)
  define n where "n = ((u * 64 + v) * 64 + w) * 64 + t"
  have div: "n div 64 = (u * 64 + v) * 64 + w" "n mod 64 = t"
    using base64 [OF uv(8), of "(u * 64 + v) * 64 + w"] by (simp_all add: n_def)
  then have div2: "n div 4096 = u * 64 + v" "n div 64 mod 64 = w"
    using base64 [OF uv(7), of "u * 64 + v"] div_mult2_eq [of n 64 64] by simp_all
  then have "n div 262144 = u" "n div 4096 mod 64 = v"
    using base64 [OF uv(6), of u] div_mult2_eq [of n 4096 64] by simp_all
  moreover have "65536 \<le> n \<and> scalar n"
  proof -
    consider "u = 0" | "0 < u" "u < 4" | "u = 4" using uv by linarith
    then show ?thesis
      using uv bounds by cases (simp_all add: n_def scalar_def)
  qed
  ultimately show ?thesis
    using x y z q uv div div2 by (intro exI [of _ n]) (simp add: encode_scalar_def)
qed

lemma utf8_encode_Cons:
  assumes "\<exists>n. scalar n \<and> encode_scalar n = pre" and "\<exists>ns. (\<forall>n \<in> set ns. scalar n) \<and> bs = utf8_encode ns"
  shows "\<exists>ns. (\<forall>n \<in> set ns. scalar n) \<and> pre @ bs = utf8_encode ns"
proof -
  obtain n ns where "scalar n" "encode_scalar n = pre" "\<forall>m \<in> set ns. scalar m" "bs = utf8_encode ns"
    using assms by blast
  then show ?thesis
    by (intro exI [of _ "n # ns"]) (simp add: utf8_encode_def)
qed

lemma valid_decodes: "utf8_valid bs \<Longrightarrow> \<exists>ns. (\<forall>n \<in> set ns. scalar n) \<and> bs = utf8_encode ns"
proof (induction bs rule: utf8_valid.induct)
  case 1
  show ?case by (intro exI [of _ "[]"]) (simp add: utf8_encode_def)
next
  case (2 b bs)
  show ?case
  proof (cases "byte_in 0 127 b")
    case True
    then obtain n where "b = byte n" "n < 128"
      by (elim byte_inE) auto
    then have "\<exists>n. scalar n \<and> encode_scalar n = [b]"
      by (intro exI [of _ n]) (simp add: scalar_def encode_scalar_def)
    then show ?thesis
      using utf8_encode_Cons [of "[b]" bs] 2 True by simp
  next
    case not1: False
    then obtain c cs where bs: "bs = c # cs"
      using 2(5) by (cases bs) auto
    show ?thesis
    proof (cases "byte_in 194 223 b")
      case True
      then show ?thesis
        using utf8_encode_Cons [of "[b, c]" cs] decode_two [of b c] 2 not1 bs by simp
    next
      case not2: False
      then obtain d ds where cs: "cs = d # ds"
        using 2(5) not1 bs by (cases cs) auto
      show ?thesis
      proof (cases "byte_in 224 239 b")
        case True
        then show ?thesis
          using utf8_encode_Cons [of "[b, c, d]" ds] decode_three [of b d c] 2 not1 not2 bs cs by simp
      next
        case not3: False
        then obtain e es where "ds = e # es"
          using 2(5) not1 not2 bs cs by (cases ds) auto
        then show ?thesis
          using utf8_encode_Cons [of "[b, c, d, e]" es] decode_four [of b d e c] 2 not1 not2 not3 bs cs
          by simp
      qed
    qed
  qed
qed

text \<open>The decision procedure accepts exactly the encodings of sequences of scalar values.\<close>

lemma utf8_valid_iff: "utf8_valid bs \<longleftrightarrow> (\<exists>ns. (\<forall>n \<in> set ns. scalar n) \<and> bs = utf8_encode ns)"
  using valid_decodes valid_utf8_encode by blast

end
