(* ===== verification/Dns_Authority.thy ===== *)
theory Dns_Authority
  imports Utf8 Dns_Records Facade_Memory Facade_Database
begin

text \<open>
  \<^verbatim>\<open>src/dns/authority.rs\<close>: the authority that answers every query, from the preconfigured records,
  the ACME challenge of the program's own certificate, and the domains of the registered users.
\<close>

section \<open>The authority\<close>

record authority =
  lower :: dns_name
  records :: preconfigured

text \<open>
  \<^verbatim>\<open>DatabaseAuthority::new\<close>; the facade is the argument of the operations. The library's error type
  for lookups is \<open>'e\<close>, with its text and its conversion from an I/O error.
\<close>

definition authority_new :: "dns_lib \<Rightarrow> string \<Rightarrow> preconfigured \<Rightarrow> (string, authority) outcome" where
  "authority_new L name recs =
     (case parse_name L name of
        Ok n \<Rightarrow> Ok \<lparr>lower = n, records = recs\<rparr>
      | Err e \<Rightarrow> Panic (''called `Result::unwrap()` on an `Err` value: '' @ e)
      | Panic p \<Rightarrow> Panic p)"

record 'e lookup_errors =
  err_text :: "'e \<Rightarrow> string"
  err_from_io :: "io_error \<Rightarrow> 'e"
  sqlx_text :: "sqlx_error \<Rightarrow> string"
  utf8_text :: "bytes \<Rightarrow> string"

datatype lookup_records = Lookup_Empty | Lookup record_set

fun add_hosts :: "dns_lib \<Rightarrow> ip_addr list \<Rightarrow> record_set \<Rightarrow> record_set" where
  "add_hosts L [] rs = rs"
| "add_hosts L (IP4 ip # hosts) rs = add_hosts L hosts (fst (add_rdata L rs (RD_A ip)))"
| "add_hosts L (IP6 ip # hosts) rs = add_hosts L hosts rs"

definition lookup_cname :: "dns_lib \<Rightarrow> record_set \<Rightarrow> (io_error, record_set option) outcome" where
  "lookup_cname L rs =
     (case rs_data rs of
        RD_CNAME cname # _ \<Rightarrow>
          and_then (lookup_host L (display_name L cname @ '':80'')) (\<lambda>hosts.
            let found = add_hosts L hosts (empty_set (rs_name rs) RT_A 0) in
            if rs_data found = [] then Ok None else Ok (Some found))
      | _ \<Rightarrow> Ok None)"

definition lookup_pre :: "dns_lib \<Rightarrow> authority \<Rightarrow> dns_name \<Rightarrow> rtype \<Rightarrow>
    (io_error, lookup_records option) outcome" where
  "lookup_pre L auth name query_type =
     (case records auth name of
        None \<Rightarrow> Ok None
      | Some recs \<Rightarrow>
          and_then
            (case (recs query_type, recs RT_CNAME) of
               (Some rs, _) \<Rightarrow> Ok (Some rs)
             | (None, Some rs) \<Rightarrow> if query_type = RT_A then lookup_cname L rs else Ok None
             | (None, None) \<Rightarrow> Ok None)
            (\<lambda>found. Ok (map_option Lookup found)))"

definition acme_challenge :: "'e lookup_errors \<Rightarrow> ('s, 'm) facade_scheme \<Rightarrow> dns_name \<Rightarrow>
    ('s, 'e anyhow, lookup_records) op" where
  "acme_challenge E F name =
     bind_op (map_err_op (\<lambda>e. AnyOther (sqlx_text E e)) (first_cert F)) (\<lambda>found.
     bind_op (lift_outcome (ok_or (AnyOther ''First cert not found'') found)) (\<lambda>cert.
     bind_op (map_err_op (\<lambda>e. AnyOther (sqlx_text E e)) (find_domain_by_id F (c_domain cert))) (\<lambda>found.
     bind_op (lift_outcome (ok_or (AnyOther (''Domain not found '' @ c_domain cert)) found)) (\<lambda>domain.
     bind_op (lift_outcome (unwrap (d_txt domain))) (\<lambda>txt.
     ret (Lookup (from_rdata name 100 (RD_TXT [txt]))))))))"

definition soa_lookup :: "authority \<Rightarrow> lookup_records" where
  "soa_lookup auth = Lookup (from_rdata (lower auth) 100 (RD_SOA
     \<lparr>mname = lower auth, rname = lower auth, serial = 1, refresh_interval = 28800,
      retry_interval = 7200, expire = 604800, minimum = 86400\<rparr>))"

definition search_domain :: "'e lookup_errors \<Rightarrow> ('s, 'm) facade_scheme \<Rightarrow> dns_name \<Rightarrow> bytes \<Rightarrow>
    ('s, 'e, lookup_records) op" where
  "search_domain E F name first =
     (if \<not> utf8_valid first then throw (error (err_text E) (err_from_io E) (InOther (utf8_text E first)))
      else
        bind_op (map_err_op (\<lambda>e. error (err_text E) (err_from_io E) (InOther (sqlx_text E e)))
          (find_domain_by_id F first)) (\<lambda>found.
        case found of
          Some domain \<Rightarrow>
            (case d_txt domain of
               Some txt \<Rightarrow> ret (Lookup (from_rdata name 100 (RD_TXT [txt])))
             | None \<Rightarrow> ret Lookup_Empty)
        | None \<Rightarrow> throw (error (err_text E) (err_from_io E) (InIo (IoSimple NotFound)))))"

definition search :: "dns_lib \<Rightarrow> 'e lookup_errors \<Rightarrow> ('s, 'm) facade_scheme \<Rightarrow> authority \<Rightarrow> dns_name \<Rightarrow> rtype \<Rightarrow>
    ('s, 'e, lookup_records) op" where
  "search L E F auth name query_type =
     (if query_type = RT_SOA then ret (soa_lookup auth)
      else case labels name of
        [] \<Rightarrow> ret Lookup_Empty
      | first # _ \<Rightarrow>
          if name_is_empty L name then ret Lookup_Empty
          else case lookup_pre L auth name query_type of
            Ok (Some pre) \<Rightarrow> ret pre
          | Panic p \<Rightarrow> lift_outcome (Panic p)
          | _ \<Rightarrow>
            if first = ''_acme-challenge'' then
              map_err_op (\<lambda>e. error (err_text E) (err_from_io E) (InAnyhow e)) (acme_challenge E F name)
            else search_domain E F name first)"

text \<open>
  The rest of the authority: a primary zone of the configured origin, without transfers and updates;
  \<^verbatim>\<open>lookup\<close> and \<^verbatim>\<open>get_nsec_records\<close> find nothing.
\<close>

datatype zone_type = Zone_Primary | Zone_Secondary

definition auth_zone_type :: "authority \<Rightarrow> zone_type" where
  "auth_zone_type auth = Zone_Primary"

definition is_axfr_allowed :: "authority \<Rightarrow> bool" where
  "is_axfr_allowed auth = False"

definition auth_update :: "authority \<Rightarrow> ('e, bool) outcome" where
  "auth_update auth = Ok False"

definition origin :: "authority \<Rightarrow> dns_name" where
  "origin auth = lower auth"

definition auth_lookup :: "authority \<Rightarrow> dns_name \<Rightarrow> rtype \<Rightarrow> lookup_records" where
  "auth_lookup auth name t = Lookup_Empty"

definition get_nsec_records :: "authority \<Rightarrow> dns_name \<Rightarrow> lookup_records" where
  "get_nsec_records auth name = Lookup_Empty"

section \<open>What a query is answered\<close>

definition io_err :: "'e lookup_errors \<Rightarrow> string \<Rightarrow> 'e" where
  "io_err E t = err_from_io E (IoCustom Other t)"

definition challenge_answer :: "'e lookup_errors \<Rightarrow> astate \<Rightarrow> dns_name \<Rightarrow> ('e, lookup_records) outcome" where
  "challenge_answer E a name =
     (case a_cert a of
        None \<Rightarrow> Err (io_err E ''First cert not found'')
      | Some c \<Rightarrow>
          (case a_domains a (c_domain c) of
             None \<Rightarrow> Err (io_err E (''Domain not found '' @ c_domain c))
           | Some d \<Rightarrow>
               and_then (unwrap (d_txt d)) (\<lambda>txt. Ok (Lookup (from_rdata name 100 (RD_TXT [txt]))))))"

definition domain_answer :: "'e lookup_errors \<Rightarrow> astate \<Rightarrow> dns_name \<Rightarrow> bytes \<Rightarrow> ('e, lookup_records) outcome" where
  "domain_answer E a name first =
     (if \<not> utf8_valid first then Err (io_err E (utf8_text E first))
      else case a_domains a first of
        None \<Rightarrow> Err (err_from_io E (IoSimple NotFound))
      | Some d \<Rightarrow>
          (case d_txt d of
             None \<Rightarrow> Ok Lookup_Empty
           | Some txt \<Rightarrow> Ok (Lookup (from_rdata name 100 (RD_TXT [txt])))))"

definition answer :: "dns_lib \<Rightarrow> 'e lookup_errors \<Rightarrow> authority \<Rightarrow> astate \<Rightarrow> dns_name \<Rightarrow> rtype \<Rightarrow>
    ('e, lookup_records) outcome" where
  "answer L E auth a name t =
     (if t = RT_SOA then Ok (soa_lookup auth)
      else if labels name = [] \<or> name_is_empty L name then Ok Lookup_Empty
      else case lookup_pre L auth name t of
        Ok (Some pre) \<Rightarrow> Ok pre
      | Panic p \<Rightarrow> Panic p
      | _ \<Rightarrow> if hd (labels name) = ''_acme-challenge'' then challenge_answer E a name
             else domain_answer E a name (hd (labels name)))"

text \<open>How a run on a facade may deviate from it: a request to the store failed.\<close>

definition answers :: "'e lookup_errors \<Rightarrow> ('e, lookup_records) outcome \<Rightarrow> ('e, lookup_records) outcome \<Rightarrow> bool" where
  "answers E r r' \<longleftrightarrow> r = r' \<or> (\<exists>e. r = Err (io_err E (sqlx_text E e)))"

lemma answers_refl [simp]: "answers E r r"
  by (simp add: answers_def)

context facade_provider
begin

lemma challenge_answers:
  assumes "ok s"
    and "map_err_op (\<lambda>e. error (err_text E) (err_from_io E) (InAnyhow e)) (acme_challenge E F name) s = (r, t)"
  shows "ok t \<and> abs t = abs s \<and> answers E r (challenge_answer E (abs s) name)"
proof -
  obtain q s1 where first: "first_cert F s = (q, s1)" by fastforce
  have s1: "ok s1" "abs s1 = abs s"
    using first_frame [OF first assms(1)] by simp_all
  consider e where "q = Err e" | "q = Ok None" | c where "q = Ok (Some c)"
    using first_Panic assms(1) first by (cases q) auto
  then show ?thesis
  proof cases
    case 1
    then show ?thesis
      using assms(2) first s1
      by (auto simp: map_err_op_def acme_challenge_def bind_op_def io_err_def answers_def)
  next
    case 2
    then have "a_cert (abs s) = None"
      using first_Ok assms(1) first by metis
    then show ?thesis
      using assms(2) first s1 2
      by (auto simp: map_err_op_def acme_challenge_def bind_op_def io_err_def lift_outcome_def
          challenge_answer_def)
  next
    case (3 c)
    then have c: "a_cert (abs s) = Some c"
      using first_Ok assms(1) first by metis
    obtain q2 s2 where find: "find_domain_by_id F (c_domain c) s1 = (q2, s2)" by fastforce
    have s2: "ok s2" "abs s2 = abs s"
      using find_frame [OF find s1(1)] s1(2) by simp_all
    have d: "q2 = Ok x \<Longrightarrow> x = a_domains (abs s) (c_domain c)" for x
      using find_Ok [of "c_domain c" s1 x s2] find s1 by simp
    show ?thesis
    proof (cases q2)
      case (Ok x)
      then show ?thesis
        using assms(2) first 3 c find s2 d [OF Ok]
        by (auto simp: map_err_op_def acme_challenge_def bind_op_def io_err_def lift_outcome_def
            challenge_answer_def ret_def unwrap_def ok_or_def split: option.splits)
    next
      case (Err e)
      then show ?thesis
        using assms(2) first 3 find s2
        by (auto simp: map_err_op_def acme_challenge_def bind_op_def io_err_def lift_outcome_def answers_def)
    next
      case (Panic p)
      then show ?thesis
        using find_Panic find s1 by blast
    qed
  qed
qed

lemma domain_answers:
  assumes "ok s" and "search_domain E F name first s = (r, t)"
  shows "ok t \<and> abs t = abs s \<and> answers E r (domain_answer E (abs s) name first)"
proof (cases "utf8_valid first")
  case False
  then show ?thesis
    using assms by (auto simp: search_domain_def throw_def domain_answer_def io_err_def)
next
  case True
  obtain q s1 where find: "find_domain_by_id F first s = (q, s1)" by fastforce
  have s1: "ok s1" "abs s1 = abs s"
    using find_frame [OF find assms(1)] by simp_all
  have d: "q = Ok x \<Longrightarrow> x = a_domains (abs s) first" for x
    using find_Ok [of first s x s1] find assms(1) by simp
  show ?thesis
  proof (cases q)
    case (Ok x)
    then show ?thesis
      using assms(2) True find s1 d [OF Ok]
      by (auto simp: search_domain_def bind_op_def map_err_op_def throw_def ret_def domain_answer_def
          split: option.splits)
  next
    case (Err e)
    then show ?thesis
      using assms(2) True find s1
      by (auto simp: search_domain_def bind_op_def map_err_op_def answers_def io_err_def)
  next
    case (Panic p)
    then show ?thesis
      using find_Panic find assms(1) by blast
  qed
qed

text \<open>Every query leaves the facade as it is, and is answered as \<open>answer\<close> says.\<close>

lemma search_answers:
  assumes "ok s" and "search L E F auth name qt s = (r, t)"
  shows "ok t \<and> abs t = abs s \<and> answers E r (answer L E auth (abs s) name qt)"
proof -
  consider "qt = RT_SOA" | "qt \<noteq> RT_SOA" "labels name = [] \<or> name_is_empty L name"
    | first rest where "qt \<noteq> RT_SOA" "labels name = first # rest" "\<not> name_is_empty L name"
    by (cases "labels name") auto
  then show ?thesis
  proof cases
    case 1
    then show ?thesis
      using assms by (auto simp: search_def answer_def ret_def)
  next
    case 2
    then show ?thesis
      using assms by (cases "labels name") (auto simp: search_def answer_def ret_def)
  next
    case (3 first rest)
    show ?thesis
    proof (cases "(\<exists>pre. lookup_pre L auth name qt = Ok (Some pre)) \<or> is_panic (lookup_pre L auth name qt)")
      case True
      then show ?thesis
        using assms 3
        by (cases "lookup_pre L auth name qt") (auto simp: search_def answer_def ret_def lift_outcome_def)
    next
      case False
      then have "search L E F auth name qt = (if first = ''_acme-challenge'' then
            map_err_op (\<lambda>e. error (err_text E) (err_from_io E) (InAnyhow e)) (acme_challenge E F name)
          else search_domain E F name first)"
        and "answer L E auth (abs s) name qt = (if first = ''_acme-challenge'' then
            challenge_answer E (abs s) name else domain_answer E (abs s) name first)"
        using 3 by (cases "lookup_pre L auth name qt"; simp add: search_def answer_def split: option.split)+
      then show ?thesis
        using challenge_answers [OF assms(1)] domain_answers [OF assms(1)] assms(2)
        by (simp split: if_splits)
    qed
  qed
qed

end

text \<open>The facade in memory has no errors of its own.\<close>

lemma mem_search_run: "search L E memory_facade auth name qt s = (answer L E auth (tables_abs s) name qt, s)"
proof -
  have chall: "map_err_op (\<lambda>e. error (err_text E) (err_from_io E) (InAnyhow e)) (acme_challenge E memory_facade name) s
      = (challenge_answer E (tables_abs s) name, s)"
    by (auto simp: map_err_op_def acme_challenge_def bind_op_def io_err_def lift_outcome_def ok_or_def
        mem_first_cert_def mem_find_domain_by_id_def challenge_answer_def tables_abs_def ret_def unwrap_def
        split: option.splits)
  have dom: "search_domain E memory_facade name first s = (domain_answer E (tables_abs s) name first, s)" for first
    by (auto simp: search_domain_def throw_def domain_answer_def io_err_def bind_op_def map_err_op_def
        mem_find_domain_by_id_def tables_abs_def ret_def split: option.splits)
  show ?thesis
    using chall dom
    by (auto simp: search_def answer_def ret_def lift_outcome_def split: list.split outcome.split option.split)
qed

section \<open>Flattened aliases\<close>

fun ip4s :: "ip_addr list \<Rightarrow> 32 word list" where
  "ip4s [] = []"
| "ip4s (IP4 ip # hosts) = ip # ip4s hosts"
| "ip4s (IP6 ip # hosts) = ip4s hosts"

lemma add_hosts_plain:
  assumes "plain_add L" and "rs_type rs = RT_A" and "distinct (rs_data rs)"
  shows "\<exists>ds. add_hosts L hosts rs = rs\<lparr>rs_data := ds\<rparr> \<and> distinct ds \<and>
    set ds = set (rs_data rs) \<union> RD_A ` set (ip4s hosts)"
  using assms(2,3)
proof (induction hosts arbitrary: rs rule: ip4s.induct)
  case (1 rs)
  then show ?case by (intro exI [of _ "rs_data rs"]) simp
next
  case (2 ip hosts)
  define rs' where "rs' = fst (add_rdata L rs (RD_A ip))"
  have rs': "rs_type rs' = RT_A" "distinct (rs_data rs')" "set (rs_data rs') = insert (RD_A ip) (set (rs_data rs))"
      "rs'\<lparr>rs_data := ds\<rparr> = rs\<lparr>rs_data := ds\<rparr>" for ds
    using plain_addD [OF assms(1), of rs "RD_A ip"] 2(2,3) by (auto simp: rs'_def)
  obtain ds where "add_hosts L hosts rs' = rs'\<lparr>rs_data := ds\<rparr>" "distinct ds"
      "set ds = set (rs_data rs') \<union> RD_A ` set (ip4s hosts)"
    using 2(1) [OF rs'(1,2)] by blast
  then show ?case
    using rs'(3,4) by (intro exI [of _ ds]) (auto simp: rs'_def)
next
  case (3 ip hosts)
  then show ?case by simp
qed

lemma lookup_cname_plain:
  assumes "plain_add L" and "rs_data rs = RD_CNAME cname # others"
    and "lookup_host L (display_name L cname @ '':80'') = Ok hosts" and "ip4s hosts \<noteq> []"
  shows "\<exists>ds. lookup_cname L rs = Ok (Some \<lparr>rs_name = rs_name rs, rs_type = RT_A, rs_ttl = 0, rs_data = ds\<rparr>)
    \<and> distinct ds \<and> set ds = RD_A ` set (ip4s hosts)"
proof -
  obtain ds where "add_hosts L hosts (empty_set (rs_name rs) RT_A 0)
      = (empty_set (rs_name rs) RT_A 0)\<lparr>rs_data := ds\<rparr>"
      and ds: "distinct ds" "set ds = RD_A ` set (ip4s hosts)"
    using add_hosts_plain [OF assms(1), of "empty_set (rs_name rs) RT_A 0" hosts]
    by (auto simp: empty_set_def)
  moreover have "ds \<noteq> []"
    using ds(2) assms(4) by (cases "ip4s hosts") auto
  ultimately show ?thesis
    using assms(2,3) by (intro exI [of _ ds]) (auto simp: lookup_cname_def empty_set_def Let_def)
qed

section \<open>Properties\<close>

text \<open>Example data: names, a configuration, the library with a fixed resolver, and an error type.\<close>

definition example_name :: "bytes \<Rightarrow> dns_name" where
  "example_name l = \<lparr>labels = [l, ''acme'', ''example'', ''com''], fqdn = True\<rparr>"

definition example_cname :: record_set where
  "example_cname = \<lparr>rs_name = example_name ''www'', rs_type = RT_CNAME, rs_ttl = 100,
     rs_data = [RD_CNAME \<lparr>labels = [''host'', ''net''], fqdn = True\<rparr>]\<rparr>"

definition example_authority :: authority where
  "example_authority = \<lparr>lower = \<lparr>labels = [''acme'', ''example'', ''com''], fqdn = True\<rparr>,
     records = [example_name ''www'' \<mapsto> [RT_CNAME \<mapsto> example_cname]]\<rparr>"

definition example_lib :: dns_lib where
  "example_lib = example_dns (\<lambda>host. if host = ''host.net.:80'' then Ok [IP4 7, IP6 1, IP4 9, IP4 7]
     else Err (IoSimple Other))"

definition io_errors :: "io_error lookup_errors" where
  "io_errors = \<lparr>err_text = io_text, err_from_io = (\<lambda>e. e), sqlx_text = (\<lambda>_. ''sqlx''),
     utf8_text = (\<lambda>_. ''utf8'')\<rparr>"

text \<open>
  On the database every query leaves the data as they are and is answered in this order: the zone's
  SOA record, the preconfigured records, the challenge of the program's certificate, the record of the
  user's domain; the only other outcome is an error of the store.
\<close>

theorem db_search_answers:
  assumes "tables_ok (s :: db)" and "search L E database_facade auth name qt s = (r, t)"
  shows "tables_ok t \<and> tables_abs t = tables_abs s \<and>
    (r = answer L E auth (tables_abs s) name qt \<or> (\<exists>e. r = Err (io_err E (sqlx_text E e))))"
  using database.search_answers [OF assms] by (simp add: answers_def)

theorem db_search_answers_witness:
  "tables_abs (snd (search example_lib io_errors database_facade example_authority (example_name ''u'') RT_TXT
      (example_db (renewed_cert State_Ok) []))) = tables_abs (example_db (renewed_cert State_Ok) [])"
proof -
  have ok: "tables_ok (example_db (renewed_cert State_Ok) [])"
    by (rule example_db_ok) (simp add: renewed_cert_def)
  show ?thesis
    using db_search_answers [OF ok, of example_lib io_errors example_authority "example_name ''u''" RT_TXT]
    by (metis prod.collapse)
qed

text \<open>
  The challenge of a job reaches the certificate authority: once the proof has been stored in the
  domain of the stored certificate, a query for a name below the challenge label is answered with
  exactly that proof, unless a preconfigured record exists for the name or the store fails.
\<close>

theorem db_challenge_served:
  assumes "tables_ok (s :: db)" and "a_cert (tables_abs s) = Some c" and "d_id d = c_domain c"
    and "update_domain database_facade (d\<lparr>d_txt := Some proof\<rparr>) s = (Ok u, t)"
    and "records auth name = None" and "labels name = ''_acme-challenge'' # rest" and "\<not> name_is_empty L name"
    and "qt \<noteq> RT_SOA"
  shows "fst (search L E database_facade auth name qt t) = Ok (Lookup (from_rdata name 100 (RD_TXT [proof]))) \<or>
    (\<exists>e. fst (search L E database_facade auth name qt t) = Err (io_err E (sqlx_text E e)))"
proof -
  let ?d = "d\<lparr>d_txt := Some proof\<rparr>"
  have dom: "a_domains (tables_abs s) (d_id ?d) \<noteq> None"
    using a_wf_cert [OF tables_okD(5) [OF assms(1)] assms(2)] assms(3) by simp
  have t: "tables_ok t" "tables_abs t = add_domain ?d (tables_abs s)"
    using database.update_frame [OF assms(4,1) dom] database.update_Ok [OF assms(4,1) dom] by simp_all
  have "answer L E auth (tables_abs t) name qt = Ok (Lookup (from_rdata name 100 (RD_TXT [proof])))"
    using t(2) assms(2,3,5-8)
    by (simp add: answer_def lookup_pre_def challenge_answer_def)
  then show ?thesis
    using database.search_answers [OF t(1), of L E auth name qt] by (metis answers_def prod.collapse)
qed

theorem db_challenge_served_witness:
  "fst (search example_lib io_errors database_facade example_authority (example_name ''_acme-challenge'') RT_TXT
      (snd (update_domain database_facade (example_domain\<lparr>d_txt := Some ''proof''\<rparr>)
        (example_db (renewed_cert State_Ok) []))))
    \<in> {Ok (Lookup (from_rdata (example_name ''_acme-challenge'') 100 (RD_TXT [''proof'']))),
       Err (IoCustom Other ''sqlx'')}"
proof -
  let ?s = "example_db (renewed_cert State_Ok) []"
  have ok: "tables_ok ?s"
    by (rule example_db_ok) (simp add: renewed_cert_def)
  have cert: "a_cert (tables_abs ?s) = Some (renewed_cert State_Ok)"
    by (simp add: tables_abs_def example_db_def first_value_def renewed_cert_def)
  have "fst (update_domain database_facade (example_domain\<lparr>d_txt := Some ''proof''\<rparr>) ?s) = Ok ()"
    by code_simp
  then have upd: "update_domain database_facade (example_domain\<lparr>d_txt := Some ''proof''\<rparr>) ?s
      = (Ok (), snd (update_domain database_facade (example_domain\<lparr>d_txt := Some ''proof''\<rparr>) ?s))"
    by (metis prod.collapse)
  show ?thesis
    using db_challenge_served [OF ok cert _ upd, of example_authority "example_name ''_acme-challenge''"
        "[''acme'', ''example'', ''com'']" example_lib RT_TXT io_errors]
    by (auto simp: example_domain_def renewed_cert_def example_authority_def example_name_def
        example_lib_def example_dns_def io_errors_def io_err_def)
qed

text \<open>
  C32: Until its first challenge has been stored, the program's own domain has no text record, and a
  challenge query panics: after the first \<^verbatim>\<open>start_cert\<close> on an empty facade every query for a
  challenge name without preconfigured records ends in a panic.
\<close>

theorem challenge_query_panics:
  assumes "tables_ok (s :: memory)" and "a_cert (tables_abs s) = None"
    and "start_cert memory_facade env s = (Ok (Some c), t)"
    and "records auth name = None" and "labels name = ''_acme-challenge'' # rest" and "\<not> name_is_empty L name"
    and "qt \<noteq> RT_SOA"
  shows "is_panic (fst (search L E memory_facade auth name qt t))"
proof -
  have t: "tables_ok t" "start_spec env (tables_abs s) = (Ok (Some c), tables_abs t)"
    using mem_start_run [OF assms(1)] assms(3) by simp_all
  obtain d where d: "domain_new env = Ok d" "cert_new env d = Ok c"
      "tables_abs t = (tables_abs s)\<lparr>a_domains := (a_domains (tables_abs s))(d_id d \<mapsto> d), a_cert := Some c\<rparr>"
    using t(2) assms(2) by (cases rule: start_spec_cases [of "tables_abs s" env]) auto
  have "is_panic (answer L E auth (tables_abs t) name qt)"
    using d(3) domain_new_OkD [OF d(1)] cert_new_OkD [OF d(2)] assms(4-7)
    by (simp add: answer_def lookup_pre_def challenge_answer_def unwrap_def)
  then show ?thesis
    by (simp add: mem_search_run)
qed

theorem challenge_query_panics_witness:
  "is_panic (fst (search example_lib io_errors memory_facade example_authority (example_name ''_acme-challenge'')
      RT_TXT (snd (start_cert memory_facade (example_env 9000) (memory_default (\<lambda>_ _. 0))))))"
proof -
  have ok: "tables_ok (memory_default (\<lambda>_ _. 0))" "a_cert (tables_abs (memory_default (\<lambda>_ _. 0))) = None"
    by (rule tables_ok_default) (simp add: tables_abs_def memory_default_def empty_store_def first_value_def)
  have "\<exists>c. fst (start_cert memory_facade (example_env 9000) (memory_default (\<lambda>_ _. 0))) = Ok (Some c)"
    by (simp add: example_run memory_default_def empty_store_def domain_new_def cert_new_def
        example_env_def mem_create_domain_def mem_create_cert_def)
  then obtain c where "start_cert memory_facade (example_env 9000) (memory_default (\<lambda>_ _. 0))
      = (Ok (Some c), snd (start_cert memory_facade (example_env 9000) (memory_default (\<lambda>_ _. 0))))"
    by (metis prod.collapse)
  from challenge_query_panics [OF ok this, of example_authority "example_name ''_acme-challenge''"
      "[''acme'', ''example'', ''com'']" example_lib RT_TXT io_errors]
  show ?thesis
    by (simp add: example_authority_def example_name_def example_lib_def example_dns_def)
qed

text \<open>
  C33: A name that is preconfigured with an alias only is answered, for an address query, with the IPv4
  addresses the resolver finds for the alias, each once, with a time to live of zero, without asking
  the facade.
\<close>

theorem cname_flattened:
  assumes "plain_add L" and "records auth name = Some recs" and "recs RT_A = None" and "recs RT_CNAME = Some rs"
    and "rs_data rs = RD_CNAME cname # others" and "rs_name rs = name"
    and "labels name \<noteq> []" and "\<not> name_is_empty L name"
    and "lookup_host L (display_name L cname @ '':80'') = Ok hosts" and "ip4s hosts \<noteq> []"
  shows "\<exists>ds. search L E F auth name RT_A s
      = (Ok (Lookup \<lparr>rs_name = name, rs_type = RT_A, rs_ttl = 0, rs_data = ds\<rparr>), s)
    \<and> distinct ds \<and> set ds = RD_A ` set (ip4s hosts)"
proof -
  obtain ds where ds: "lookup_cname L rs = Ok (Some \<lparr>rs_name = name, rs_type = RT_A, rs_ttl = 0, rs_data = ds\<rparr>)"
      "distinct ds" "set ds = RD_A ` set (ip4s hosts)"
    using lookup_cname_plain [OF assms(1,5,9,10)] assms(6) by auto
  have "search L E F auth name RT_A s
      = (Ok (Lookup \<lparr>rs_name = name, rs_type = RT_A, rs_ttl = 0, rs_data = ds\<rparr>), s)"
    using ds(1) assms(2-4,7,8)
    by (cases "labels name") (simp_all add: search_def lookup_pre_def ret_def)
  then show ?thesis
    using ds(2,3) by blast
qed

theorem cname_flattened_witness:
  "\<exists>ds. search example_lib io_errors memory_facade example_authority (example_name ''www'') RT_A (memory_default (\<lambda>_ _. 0))
      = (Ok (Lookup \<lparr>rs_name = example_name ''www'', rs_type = RT_A, rs_ttl = 0, rs_data = ds\<rparr>), (memory_default (\<lambda>_ _. 0)))
    \<and> distinct ds \<and> set ds = {RD_A 7, RD_A 9}"
proof -
  have "plain_add example_lib"
    unfolding example_lib_def by (rule plain_add_example)
  then show ?thesis
    using cname_flattened [of example_lib example_authority "example_name ''www''" "[RT_CNAME \<mapsto> example_cname]"
        example_cname "\<lparr>labels = [''host'', ''net''], fqdn = True\<rparr>" "[]" "[IP4 7, IP6 1, IP4 9, IP4 7]"
        io_errors memory_facade "memory_default (\<lambda>_ _. 0)"]
    by (simp add: example_authority_def example_cname_def example_lib_def example_dns_def example_name_def
        insert_commute)
qed



end
