(* ===== verification/Metrics_Registry.thy ===== *)
theory Metrics_Registry
  imports Util
begin

text \<open>
  The metrics the program registers (\<^verbatim>\<open>src/dns/handler.rs\<close>, \<^verbatim>\<open>src/api/metrics.rs\<close>, \<^verbatim>\<open>src/api/mod.rs\<close>):
  each is a lazy static that registers itself at its first use and unwraps the result. The registry is
  the library's: it refuses a second metric of the same name, and a list of label values of the wrong
  length (both documented).
\<close>

section \<open>The registry\<close>

record metric =
  metric_name :: string
  metric_help :: string
  metric_labels :: "string list"

type_synonym registry = "metric list"

definition register :: "metric \<Rightarrow> (registry, string, metric) op" where
  "register m = (\<lambda>r.
     if metric_name m \<in> metric_name ` set r then (Err ''Duplicate metrics collector registration attempted'', r)
     else (Ok m, m # r))"

definition with_label_values :: "metric \<Rightarrow> string list \<Rightarrow> (string, unit) outcome" where
  "with_label_values m vals =
     (if length vals = length (metric_labels m) then Ok () else Err ''Inconsistent label cardinality'')"

text \<open>
  The state of the statics: those that have been initialized, with the registry. The library call that
  returns a result is unwrapped in both cases.
\<close>

type_synonym statics = "metric list \<times> registry"

definition unwrap_result :: "(string, 'a) outcome \<Rightarrow> (string, 'a) outcome" where
  "unwrap_result r = (case r of Err e \<Rightarrow> Panic (''called `Result::unwrap()` on an `Err` value: '' @ e) | _ \<Rightarrow> r)"

definition lazy_static :: "metric \<Rightarrow> (statics, string, metric) op" where
  "lazy_static m = (\<lambda>(known, r).
     if m \<in> set known then (Ok m, (known, r))
     else case register m r of (q, r') \<Rightarrow>
       (unwrap_result q, (if q = Ok m then m # known else known, r')))"

section \<open>The metrics of the program\<close>

definition DNS_REQ_HISTOGRAM :: metric where
  "DNS_REQ_HISTOGRAM = \<lparr>metric_name = ''dns_request_duration_seconds'',
     metric_help = ''The DNS request latencies in seconds.'', metric_labels = [''name'']\<rparr>"

definition HTTP_STATUS_COUNTER :: metric where
  "HTTP_STATUS_COUNTER = \<lparr>metric_name = ''http_status_counter'',
     metric_help = ''The HTTP requests status'', metric_labels = [''path'', ''method'', ''status'']\<rparr>"

definition HTTP_REQ_HISTOGRAM :: metric where
  "HTTP_REQ_HISTOGRAM = \<lparr>metric_name = ''http_request_duration_seconds'',
     metric_help = ''The HTTP request latencies in seconds.'', metric_labels = [''path'', ''method'']\<rparr>"

definition TCP_TOTAL_CONNECTION_COUNTER :: metric where
  "TCP_TOTAL_CONNECTION_COUNTER = \<lparr>metric_name = ''tcp_total_connection_counter'',
     metric_help = ''Sum of TCP Connections'', metric_labels = [''endpoint'']\<rparr>"

definition TCP_OPEN_CONNECTION_COUNTER :: metric where
  "TCP_OPEN_CONNECTION_COUNTER = \<lparr>metric_name = ''tcp_open_connection_counter'',
     metric_help = ''Amount of currently open TCP Connections'', metric_labels = [''endpoint'']\<rparr>"

text \<open>
  Where they are used: an accepted connection counts under its endpoint, a wrapped filter is built and
  later counts a response, and a DNS message is timed under its label values.
\<close>

datatype metric_use = Use_connection string | Use_wrapper | Use_response string string string
  | Use_dns "string list"

definition measured_under :: "metric \<Rightarrow> string list \<Rightarrow> (statics, string, unit) op" where
  "measured_under m vals = bind_op (lazy_static m) (\<lambda>m. lift_outcome (unwrap_result (with_label_values m vals)))"

definition use_connection :: "string \<Rightarrow> (statics, string, unit) op" where
  "use_connection endpoint =
     bind_op (measured_under TCP_TOTAL_CONNECTION_COUNTER [endpoint]) (\<lambda>_.
     measured_under TCP_OPEN_CONNECTION_COUNTER [endpoint])"

definition use_wrapper :: "(statics, string, unit) op" where
  "use_wrapper =
     bind_op (lazy_static HTTP_REQ_HISTOGRAM) (\<lambda>_. bind_op (lazy_static HTTP_STATUS_COUNTER) (\<lambda>_. ret ()))"

definition use_response :: "string \<Rightarrow> string \<Rightarrow> string \<Rightarrow> (statics, string, unit) op" where
  "use_response path verb status =
     bind_op (measured_under HTTP_STATUS_COUNTER [path, verb, status]) (\<lambda>_.
     measured_under HTTP_REQ_HISTOGRAM [path, verb])"

definition use_dns :: "string list \<Rightarrow> (statics, string, unit) op" where
  "use_dns vals = measured_under DNS_REQ_HISTOGRAM vals"

fun use_metric :: "metric_use \<Rightarrow> (statics, string, unit) op" where
  "use_metric (Use_connection endpoint) = use_connection endpoint"
| "use_metric Use_wrapper = use_wrapper"
| "use_metric (Use_response path verb status) = use_response path verb status"
| "use_metric (Use_dns vals) = use_dns vals"

lemmas use_defs = use_connection_def use_wrapper_def use_response_def use_dns_def

text \<open>Uses in a row, by any tasks; a panic ends only its own task.\<close>

fun use_metrics :: "metric_use list \<Rightarrow> statics \<Rightarrow> statics" where
  "use_metrics [] x = x"
| "use_metrics (u # us) x = use_metrics us (snd (use_metric u x))"

section \<open>Facts\<close>

definition program_metrics :: "metric list" where
  "program_metrics = [DNS_REQ_HISTOGRAM, HTTP_STATUS_COUNTER, HTTP_REQ_HISTOGRAM,
     TCP_TOTAL_CONNECTION_COUNTER, TCP_OPEN_CONNECTION_COUNTER]"

lemmas metric_defs = DNS_REQ_HISTOGRAM_def HTTP_STATUS_COUNTER_def HTTP_REQ_HISTOGRAM_def
  TCP_TOTAL_CONNECTION_COUNTER_def TCP_OPEN_CONNECTION_COUNTER_def

lemma distinct_names: "distinct (map metric_name program_metrics)"
  by code_simp

lemma same_metric: "m \<in> set program_metrics \<Longrightarrow> n \<in> set program_metrics \<Longrightarrow> metric_name m = metric_name n \<Longrightarrow> m = n"
  using distinct_names by (auto simp: distinct_map dest: inj_onD)

text \<open>
  The registry holds what was there before the program (\<open>foreign\<close>), and the initialized metrics, each
  under a name of its own.
\<close>

definition statics_ok :: "registry \<Rightarrow> statics \<Rightarrow> bool" where
  "statics_ok foreign = (\<lambda>(known, r). set known \<subseteq> set program_metrics \<and> set r = set known \<union> set foreign \<and>
     distinct (map metric_name r))"

definition unnamed :: "registry \<Rightarrow> bool" where
  "unnamed foreign \<longleftrightarrow> metric_name ` set foreign \<inter> metric_name ` set program_metrics = {}
     \<and> distinct (map metric_name foreign)"

lemma statics_ok_init: "unnamed foreign \<Longrightarrow> statics_ok foreign ([], foreign)"
  by (simp add: statics_ok_def unnamed_def)

lemma lazy_static_ok:
  assumes "unnamed foreign" and "statics_ok foreign x" and "m \<in> set program_metrics"
  shows "\<exists>y. lazy_static m x = (Ok m, y) \<and> statics_ok foreign y \<and> set (fst y) = insert m (set (fst x))"
proof -
  obtain known r where x: "x = (known, r)" by fastforce
  show ?thesis
  proof (cases "m \<in> set known")
    case True
    then show ?thesis
      using assms x by (auto simp: lazy_static_def)
  next
    case False
    have "metric_name m \<notin> metric_name ` set r"
    proof
      assume "metric_name m \<in> metric_name ` set r"
      then obtain n where n: "n \<in> set r" "metric_name m = metric_name n" by blast
      then have "n \<notin> set foreign"
        using assms(1,3) by (auto simp: unnamed_def)
      then have "n \<in> set known"
        using n(1) assms(2) x by (auto simp: statics_ok_def)
      then show False
        using same_metric [OF assms(3) _ n(2)] assms(2) x False by (auto simp: statics_ok_def)
    qed
    then show ?thesis
      using assms(2,3) x False by (auto simp: lazy_static_def register_def unwrap_result_def statics_ok_def)
  qed
qed

lemma measured_under_ok:
  assumes "unnamed foreign" and "statics_ok foreign x" and "m \<in> set program_metrics"
  shows "\<exists>y. statics_ok foreign y \<and> set (fst y) = insert m (set (fst x)) \<and>
    measured_under m vals x = (if length vals = length (metric_labels m) then Ok ()
      else Panic ''called `Result::unwrap()` on an `Err` value: Inconsistent label cardinality'', y)"
  using lazy_static_ok [OF assms]
  by (auto simp: measured_under_def bind_op_def lift_outcome_def with_label_values_def unwrap_result_def)

lemma in_program_metrics [simp]:
  "DNS_REQ_HISTOGRAM \<in> set program_metrics" "HTTP_STATUS_COUNTER \<in> set program_metrics"
  "HTTP_REQ_HISTOGRAM \<in> set program_metrics" "TCP_TOTAL_CONNECTION_COUNTER \<in> set program_metrics"
  "TCP_OPEN_CONNECTION_COUNTER \<in> set program_metrics"
  by (simp_all add: program_metrics_def)

definition well_labelled :: "metric_use \<Rightarrow> bool" where
  "well_labelled u \<longleftrightarrow> (\<forall>vals. u = Use_dns vals \<longrightarrow> length vals = 1)"

lemma lengths [simp]:
  "length (metric_labels DNS_REQ_HISTOGRAM) = 1" "length (metric_labels HTTP_STATUS_COUNTER) = 3"
  "length (metric_labels HTTP_REQ_HISTOGRAM) = 2" "length (metric_labels TCP_TOTAL_CONNECTION_COUNTER) = 1"
  "length (metric_labels TCP_OPEN_CONNECTION_COUNTER) = 1"
  by (simp_all add: metric_defs)

lemma use_metric_ok:
  assumes "unnamed foreign" and "statics_ok foreign x" and "use_metric u x = (r, y)"
  shows "statics_ok foreign y \<and> (if well_labelled u then r = Ok () else is_panic r)"
proof (cases u)
  case (Use_connection e)
  obtain x1 where "statics_ok foreign x1" "measured_under TCP_TOTAL_CONNECTION_COUNTER [e] x = (Ok (), x1)"
    using measured_under_ok [OF assms(1,2), of TCP_TOTAL_CONNECTION_COUNTER "[e]"] by auto
  then show ?thesis
    using measured_under_ok [OF assms(1), of x1 TCP_OPEN_CONNECTION_COUNTER "[e]"] assms(3) Use_connection
    by (auto simp: use_defs bind_op_Ok well_labelled_def)
next
  case Use_wrapper
  obtain x1 where "statics_ok foreign x1" "lazy_static HTTP_REQ_HISTOGRAM x = (Ok HTTP_REQ_HISTOGRAM, x1)"
    using lazy_static_ok [OF assms(1,2), of HTTP_REQ_HISTOGRAM] by auto
  then show ?thesis
    using lazy_static_ok [OF assms(1), of x1 HTTP_STATUS_COUNTER] assms(3) Use_wrapper
    by (auto simp: use_defs bind_op_Ok ret_def well_labelled_def)
next
  case (Use_response path verb status)
  obtain x1 where "statics_ok foreign x1" "measured_under HTTP_STATUS_COUNTER [path, verb, status] x = (Ok (), x1)"
    using measured_under_ok [OF assms(1,2), of HTTP_STATUS_COUNTER "[path, verb, status]"] by auto
  then show ?thesis
    using measured_under_ok [OF assms(1), of x1 HTTP_REQ_HISTOGRAM "[path, verb]"] assms(3) Use_response
    by (auto simp: use_defs bind_op_Ok well_labelled_def)
next
  case (Use_dns vals)
  then show ?thesis
    using measured_under_ok [OF assms(1,2), of DNS_REQ_HISTOGRAM vals] assms(3)
    by (auto simp: use_defs well_labelled_def split: if_splits)
qed

lemma use_metrics_ok:
  assumes "unnamed foreign" and "statics_ok foreign x"
  shows "statics_ok foreign (use_metrics us x)"
  using assms(2)
proof (induction us arbitrary: x)
  case Nil
  then show ?case by simp
next
  case (Cons u us)
  then show ?case
    using use_metric_ok [OF assms(1) Cons.prems, of u] by (metis prod.collapse use_metrics.simps(2))
qed

section \<open>Properties\<close>

text \<open>
  The lazy statics never fail: in whatever order connections, responses and DNS messages use the
  metrics for the first time, no registration is refused, every metric is registered at most once, and a
  use panics exactly if it is a DNS message with other than one label value.
\<close>

theorem metrics_never_refused:
  assumes "metric_name ` set foreign \<inter> metric_name ` set program_metrics = {}"
    and "distinct (map metric_name foreign)"
  shows "distinct (map metric_name (snd (use_metrics us ([], foreign)))) \<and>
    set (snd (use_metrics us ([], foreign))) \<subseteq> set program_metrics \<union> set foreign \<and>
    (is_panic (fst (use_metric u (use_metrics us ([], foreign)))) \<longleftrightarrow> (\<exists>vals. u = Use_dns vals \<and> length vals \<noteq> 1))"
proof -
  have f: "unnamed foreign"
    using assms by (simp add: unnamed_def)
  have ok: "statics_ok foreign (use_metrics us ([], foreign))"
    by (rule use_metrics_ok [OF f statics_ok_init [OF f]])
  then have "is_panic (fst (use_metric u (use_metrics us ([], foreign)))) \<longleftrightarrow> \<not> well_labelled u"
    using use_metric_ok [OF f ok, of u] by (metis prod.collapse is_panic.simps(1))
  then show ?thesis
    using ok by (cases "use_metrics us ([], foreign)") (auto simp: statics_ok_def well_labelled_def)
qed

theorem metrics_never_refused_witness:
  "\<not> is_panic (fst (use_metric (Use_connection ''HTTP'') (use_metrics [Use_wrapper, Use_dns [], Use_connection ''PROM'']
     ([], [\<lparr>metric_name = ''process_open_fds'', metric_help = ''Number of open file descriptors.'', metric_labels = []\<rparr>]))))"
proof -
  let ?f = "[\<lparr>metric_name = ''process_open_fds'', metric_help = ''Number of open file descriptors.'', metric_labels = []\<rparr>]"
  have "metric_name ` set ?f \<inter> metric_name ` set program_metrics = {}" "distinct (map metric_name ?f)"
    by code_simp+
  then show ?thesis
    using metrics_never_refused [of ?f "[Use_wrapper, Use_dns [], Use_connection ''PROM'']" "Use_connection ''HTTP''"]
    by simp
qed

end
