(* ===== verification/Dns_Handler.thy ===== *)
theory Dns_Handler
  imports Dns_Authority Metrics_Registry
begin

text \<open>
  \<^verbatim>\<open>src/dns/handler.rs\<close> and \<^verbatim>\<open>src/dns/mod.rs\<close>: the handler around the library's catalog, which times
  every request under the name it asks for, and the server that listens on a UDP socket.
\<close>

section \<open>The handler\<close>

text \<open>
  The queries of a message, with the name that labels the measurement, and what the metrics library
  does with a list of label values: \<open>labelled\<close> is the parameter, an error is a panic of the
  call. The measurements taken are the state, the latest first; the timer measures when it is dropped,
  also when the catalog panics.
\<close>

record query =
  q_name :: dns_name
  q_type :: rtype

record request =
  req_queries :: "query list"

definition label_values :: "dns_lib \<Rightarrow> request \<Rightarrow> string list" where
  "label_values L req =
     (case map_option (\<lambda>q. display_name L (q_name q))
             (case req_queries req of [] \<Rightarrow> None | q # _ \<Rightarrow> Some q) of
        Some name \<Rightarrow> [name]
      | None \<Rightarrow> [])"

definition handle_request :: "dns_lib \<Rightarrow> (string list \<Rightarrow> (string, unit) outcome) \<Rightarrow>
    (request \<Rightarrow> ('s, 'e, 'r) op) \<Rightarrow> request \<Rightarrow> ('s \<times> string list list, 'e, 'r) op" where
  "handle_request L labelled catalog req = (\<lambda>(s, measured).
     (case labelled (label_values L req) of
        Ok _ \<Rightarrow>
          (case catalog req s of (r, t) \<Rightarrow> (r, (t, label_values L req # measured)))
      | Err e \<Rightarrow> (Panic e, (s, measured))
      | Panic p \<Rightarrow> (Panic p, (s, measured))))"

text \<open>
  The histogram is registered with one label; the library refuses any other number of values
  (documented).
\<close>

definition one_label :: "(string list \<Rightarrow> (string, unit) outcome) \<Rightarrow> bool" where
  "one_label w \<longleftrightarrow> (\<forall>ls. (length ls = 1 \<longrightarrow> w ls = Ok ()) \<and> (length ls \<noteq> 1 \<longrightarrow> (\<exists>e. w ls = Err e)))"

section \<open>The server\<close>

text \<open>
  \<^verbatim>\<open>Dns::new\<close> makes a catalog in which the authority answers for the root, that is for every name.
  \<^verbatim>\<open>Dns::spawn\<close> binds the socket and serves until the server is done; a panic of the serving task
  reaches it as a join error.
\<close>

record 'h dns =
  dns_handler :: 'h
  dns_addr :: string

definition dns_new :: "string \<Rightarrow> ((dns_name \<rightharpoonup> 'a) \<Rightarrow> 'h) \<Rightarrow> 'a \<Rightarrow> 'h dns" where
  "dns_new addr handler auth =
     \<lparr>dns_handler = handler [\<lparr>labels = [], fqdn = True\<rparr> \<mapsto> auth], dns_addr = addr\<rparr>"

definition dns_spawn :: "(string \<Rightarrow> (io_error, 'k) outcome) \<Rightarrow> ('h \<Rightarrow> 'k \<Rightarrow> (string, unit) outcome) \<Rightarrow>
    'h dns \<Rightarrow> (any_err, unit) outcome" where
  "dns_spawn bind_udp block_until_done d =
     and_then (map_err A_Io (bind_udp (dns_addr d))) (\<lambda>udp.
     (case block_until_done (dns_handler d) udp of
        Ok _ \<Rightarrow> Ok ()
      | Err e \<Rightarrow> Err (A_Msg e)
      | Panic p \<Rightarrow> Err (A_Join p)))"

section \<open>Properties\<close>

text \<open>
  C34: The handler answers a request with at least one query as the catalog does, whatever the answer,
  and records exactly one measurement, under the name of the first query; a request without queries
  makes it panic before the catalog is asked.
\<close>

theorem handle_request_total:
  assumes "one_label w" and "catalog req s = (r, t)" and "\<not> is_panic r"
  shows "handle_request L w catalog req (s, measured) =
      (case req_queries req of
         q # _ \<Rightarrow> (r, (t, [display_name L (q_name q)] # measured))
       | [] \<Rightarrow> (fst (handle_request L w catalog req (s, measured)), (s, measured)))
    \<and> (is_panic (fst (handle_request L w catalog req (s, measured))) \<longleftrightarrow> req_queries req = [])"
proof (cases "req_queries req")
  case Nil
  then have "length (label_values L req) \<noteq> 1"
    by (simp add: label_values_def)
  then obtain e where "w (label_values L req) = Err e"
    using assms(1) unfolding one_label_def by blast
  then show ?thesis
    using Nil by (simp add: handle_request_def)
next
  case (Cons q qs)
  then have "label_values L req = [display_name L (q_name q)]"
    by (simp add: label_values_def)
  moreover from this have "w (label_values L req) = Ok ()"
    using assms(1) by (simp add: one_label_def)
  ultimately show ?thesis
    using assms(2,3) Cons by (cases r) (simp_all add: handle_request_def)
qed

theorem handle_request_total_witness:
  "is_panic (fst (handle_request example_lib (with_label_values DNS_REQ_HISTOGRAM)
     (\<lambda>req. ret Lookup_Empty :: (unit, unit, lookup_records) op) \<lparr>req_queries = []\<rparr> ((), [])))"
proof -
  have "one_label (with_label_values DNS_REQ_HISTOGRAM)"
    by (simp add: one_label_def with_label_values_def)
  then show ?thesis
    using handle_request_total [of "with_label_values DNS_REQ_HISTOGRAM"
        "\<lambda>req. ret Lookup_Empty :: (unit, unit, lookup_records) op" "\<lparr>req_queries = []\<rparr>" "()"
        "Ok Lookup_Empty" "()" example_lib "[]"]
    by (simp add: ret_def)
qed

end
