(* ===== verification/Run.thy ===== *)
theory Run
  imports Api_Serve Config Cert_Manager Dns_Handler
begin

text \<open>
  \<^verbatim>\<open>src/lib.rs\<close> and \<^verbatim>\<open>src/main.rs\<close>: the program from its first argument to its exit code.
\<close>

section \<open>The futures that are raced\<close>

text \<open>
  \<^verbatim>\<open>tokio::select!\<close> ends with the future that ends first; among several that are ready at once it takes
  any. The result is the list of the possible results, empty when no future ever ends.
\<close>

fun end_time :: "fate \<Rightarrow> nat option" where
  "end_time Forever = None"
| "end_time (Ends t r) = Some t"

definition ends_before :: "nat \<Rightarrow> fate list \<Rightarrow> bool" where
  "ends_before t fs \<longleftrightarrow> (\<exists>f \<in> set fs. \<exists>t' < t. end_time f = Some t')"

fun fate_result :: "fate \<Rightarrow> (any_err, unit) outcome list" where
  "fate_result Forever = []"
| "fate_result (Ends t r) = [r]"

definition select :: "fate list \<Rightarrow> (any_err, unit) outcome list" where
  "select fs = concat (map (\<lambda>f. case end_time f of
       None \<Rightarrow> [] | Some t \<Rightarrow> if ends_before t fs then [] else fate_result f) fs)"

section \<open>The program\<close>

text \<open>
  The world the program runs in: the configuration file, the runtime, the database, the sockets and
  what is served on them, the ACME server, and the interrupt.
\<close>

record ('k, 'w) world =
  argument :: "string option"
  finish_seq :: "toml list \<Rightarrow> (de_error, unit) outcome"
  debug_libs :: debug_lib
  read_file :: "string \<Rightarrow> (io_error, bytes) outcome"
  toml_from_slice :: "bytes \<Rightarrow> (de_error, toml) outcome"
  runtime_new :: "(io_error, unit) outcome"
  pg_options :: "string \<Rightarrow> (sqlx_error, string) outcome"
  pg_connect :: "nat \<Rightarrow> string \<Rightarrow> (sqlx_error, unit) outcome"
  migrate :: "(sqlx_error, unit) outcome"
  bind_tcp :: "string \<Rightarrow> (io_error, 'k) outcome"
  tcp_serving :: "string \<Rightarrow> proxy_protocol \<Rightarrow> 'k \<Rightarrow> fate"
  bind_udp_socket :: "string \<Rightarrow> (io_error, 'k) outcome"
  dns_serving :: "'k \<Rightarrow> fate"
  acme_client :: "'w acme"
  acme_time :: nat
  ctrl_c :: "(nat \<times> (io_error, unit) outcome) option"

definition setup_database :: "('k, 'w) world \<Rightarrow> string \<Rightarrow> (sqlx_error, unit) outcome" where
  "setup_database W db =
     and_then (pg_options W db) (\<lambda>options.
     and_then (pg_connect W 5 options) (\<lambda>_.
     migrate W))"

text \<open>
  \<^verbatim>\<open>CertManager::new(...).and_then(CertManager::spawn)\<close>: the client is made on the blocking pool; the
  task that is spawned then never ends, because every interval is skipped.
\<close>

definition manager_fate :: "('k, 'w) world \<Rightarrow> string \<Rightarrow> fate" where
  "manager_fate W url =
     (case manager_new (acme_client W) url of
        Ok w \<Rightarrow> Forever
      | Err e \<Rightarrow> Ends (Suc (acme_time W)) (Err e)
      | Panic p \<Rightarrow> Ends (Suc (acme_time W)) (Panic p))"

definition dns_fate :: "('k, 'w) world \<Rightarrow> string \<Rightarrow> fate" where
  "dns_fate W addr =
     (case bind_udp_socket W addr of
        Ok udp \<Rightarrow> dns_serving W udp
      | Err e \<Rightarrow> Ends 0 (Err (A_Io e))
      | Panic p \<Rightarrow> Ends 0 (Panic p))"

definition ctrl_c_fate :: "('k, 'w) world \<Rightarrow> fate" where
  "ctrl_c_fate W = (case ctrl_c W of None \<Rightarrow> Forever | Some (t, r) \<Rightarrow> Ends t (map_err A_Io r))"

definition raced :: "dns_lib \<Rightarrow> ('k, 'w) world \<Rightarrow> config \<Rightarrow> fate list" where
  "raced L W config =
     [api_new (bind_tcp W) (tcp_serving W) (api_http (conf_api config)) (api_https (conf_api config))
        (api_prom (conf_api config)),
      manager_fate W (g_acme (conf_general config)),
      dns_fate W (g_dns (conf_general config)),
      ctrl_c_fate W]"

definition run_config :: "dns_lib \<Rightarrow> ('k, 'w) world \<Rightarrow> config \<Rightarrow> (any_err, unit) outcome list" where
  "run_config L W config =
     (case and_then (map_err A_Sqlx (setup_database W (g_db (conf_general config)))) (\<lambda>_.
           map_err A_Msg (authority_new L (g_name (conf_general config)) (conf_records config))) of
        Ok auth \<Rightarrow> select (raced L W config)
      | Err e \<Rightarrow> [Err e]
      | Panic p \<Rightarrow> [Panic p])"

definition run :: "dns_lib \<Rightarrow> ('k, 'w) world \<Rightarrow> (any_err, unit) outcome list" where
  "run L W =
     (case and_then (load_config L (finish_seq W) (debug_libs W) (read_file W) (toml_from_slice W) (argument W))
             (\<lambda>(config, line).
           and_then (map_err A_Io (runtime_new W)) (\<lambda>_. Ok config)) of
        Ok config \<Rightarrow> run_config L W config
      | Err e \<Rightarrow> [Err e]
      | Panic p \<Rightarrow> [Panic p])"

text \<open>The exit codes of \<^verbatim>\<open>main\<close>; a panic of the main thread exits with 101.\<close>

definition main_exit :: "(any_err, unit) outcome \<Rightarrow> nat" where
  "main_exit r = (case r of Ok _ \<Rightarrow> 0 | Err e \<Rightarrow> 1 | Panic p \<Rightarrow> 101)"

section \<open>Facts\<close>

lemma select_member: "Ends t r \<in> set fs \<Longrightarrow> \<not> ends_before t fs \<Longrightarrow> r \<in> set (select fs)"
  by (force simp: select_def)

lemma not_ends_before_0 [simp]: "\<not> ends_before 0 fs"
  by (simp add: ends_before_def)

lemma select_empty: "select fs = [] \<longleftrightarrow> (\<forall>f \<in> set fs. f = Forever)"
proof
  assume empty: "select fs = []"
  show "\<forall>f \<in> set fs. f = Forever"
  proof (rule ccontr)
    assume "\<not> (\<forall>f \<in> set fs. f = Forever)"
    then obtain t0 r0 where "Ends t0 r0 \<in> set fs"
      by (metis fate.exhaust)
    moreover define P where "P = (\<lambda>t. \<exists>r. Ends t r \<in> set fs)"
    ultimately have "P t0" by blast
    then obtain t where t: "P t" "\<forall>t' < t. \<not> P t'"
      using exists_least_iff [of P] by blast
    have "\<not> ends_before t fs"
    proof
      assume "ends_before t fs"
      then obtain f t' where f: "f \<in> set fs" "t' < t" "end_time f = Some t'"
        unfolding ends_before_def by blast
      have "P t'"
        by (cases f; use f in \<open>auto simp: P_def\<close>)
      then show False
        using t(2) f(2) by blast
    qed
    then show False
      using t(1) select_member [of t _ fs] empty by (auto simp: P_def)
  qed
next
  assume "\<forall>f \<in> set fs. f = Forever"
  then show "select fs = []"
    by (auto simp: select_def)
qed

section \<open>Properties\<close>

definition no_listener :: "config \<Rightarrow> bool" where
  "no_listener config \<longleftrightarrow> fst (api_http (conf_api config)) = None \<and>
     fst (api_https (conf_api config)) = None \<and> fst (api_prom (conf_api config)) = None"

text \<open>
  C40: A program that gets through its setup runs on exactly as long as the interface, the DNS server,
  the certificate task and the missing interrupt all do. Without any listener configured it can end
  right after its start with success, the DNS server with it.
\<close>

theorem run_continues:
  assumes "load_config L (finish_seq W) (debug_libs W) (read_file W) (toml_from_slice W) (argument W) = Ok (config, line)"
    and "runtime_new W = Ok ()"
    and "setup_database W (g_db (conf_general config)) = Ok ()"
    and "parse_name L (g_name (conf_general config)) = Ok n"
  shows "(run L W = [] \<longleftrightarrow> (\<forall>f \<in> set (raced L W config). f = Forever)) \<and>
    (no_listener config \<longrightarrow> Ok () \<in> set (run L W))"
proof -
  have run: "run L W = select (raced L W config)"
    using assms by (simp add: run_def run_config_def authority_new_def)
  have "Ends 0 (Ok ()) \<in> set (raced L W config)" if "no_listener config"
    using that by (auto simp: raced_def no_listener_def api_new_def bind_listener_def split: prod.split)
  then show ?thesis
    using run select_empty select_member not_ends_before_0 by metis
qed

definition example_world :: "toml \<Rightarrow> (nat, nat) world" where
  "example_world v = \<lparr>argument = None, finish_seq = (\<lambda>_. Ok ()), debug_libs = example_debug,
     read_file = (\<lambda>_. Ok []), toml_from_slice = (\<lambda>_. Ok v), runtime_new = Ok (),
     pg_options = Ok, pg_connect = (\<lambda>n options. Ok ()), migrate = Ok (),
     bind_tcp = (\<lambda>_. Ok 0), tcp_serving = (\<lambda>_ _ _. Forever),
     bind_udp_socket = (\<lambda>_. Ok 0), dns_serving = (\<lambda>_. Forever), acme_client = example_acme, acme_time = 1,
     ctrl_c = None\<rparr>"

definition example_file :: "(string \<times> toml) list \<Rightarrow> toml" where
  "example_file listeners = T_Map
     [(''general'', T_Map [(''dns'', T_Str ''0.0.0.0:53''), (''db'', T_Str ''db''), (''name'', T_Str ''acme.example.com'')]),
      (''api'', T_Map listeners)]"

theorem run_continues_witness:
  "run example_lib (example_world (example_file [(''https'', T_Str ''0.0.0.0:443'')])) = [] \<and>
   Ok () \<in> set (run example_lib (example_world (example_file [])))"
proof -
  let ?c = "example_config ''db''"
  let ?d = "?c\<lparr>conf_api := \<lparr>api_http = listener_default, api_https = listener_default,
        api_prom = listener_default\<rparr>\<rparr>"
  let ?W = "\<lambda>l. example_world (example_file l)"
  let ?load = "\<lambda>W. load_config example_lib (finish_seq W) (debug_libs W) (read_file W) (toml_from_slice W) (argument W)"
  have load: "?load (?W [(''https'', T_Str ''0.0.0.0:443'')]) = Ok (?c, redacted example_debug ?c)"
      "?load (?W []) = Ok (?d, redacted example_debug ?d)"
    by (simp_all add: example_world_def example_file_def load_config_def config_field_def general_field_def
        api_field_def required_def or_default_def example_config_def listener_visit_str_def)
  have up: "runtime_new (?W l) = Ok ()" "setup_database (?W l) d = Ok ()" for l d
    by (simp_all add: example_world_def setup_database_def)
  have "\<exists>n. parse_name example_lib ''acme.example.com'' = Ok n"
    by (simp add: example_lib_def example_dns_def)
  then obtain n where n: "parse_name example_lib (g_name (conf_general ?c)) = Ok n"
      "parse_name example_lib (g_name (conf_general ?d)) = Ok n"
    by (auto simp: example_config_def)
  have "\<forall>f \<in> set (raced example_lib (?W [(''https'', T_Str ''0.0.0.0:443'')]) ?c). f = Forever"
    by code_simp
  moreover have "no_listener ?d"
    by (simp add: no_listener_def listener_default_def)
  ultimately show ?thesis
    using run_continues [OF load(1) up n(1)] run_continues [OF load(2) up n(2)] by blast
qed

end
