(* ===== verification/Db_Requests.thy ===== *)
theory Db_Requests
  imports Facade_Database
begin

text \<open>
  The operations of the certificate manager on the database, request by request
  (\<^verbatim>\<open>start_cert\<close> and \<^verbatim>\<open>stop_cert\<close> of \<^verbatim>\<open>src/facade/cert.rs\<close>): each is a script of the requests it sends,
  between which the requests of other tasks can come. Run without interruption a script is the
  operation. Run between registrations and reads it takes effect at a single moment, as long as no
  other manager starts or stops jobs on the same database.
\<close>

section \<open>Scripts\<close>

datatype reply = R_done | R_tx "stmt list" | R_cert "cert option"

datatype db_query = Q_begin | Q_select_cert "stmt list" | Q_execute stmt "stmt list" | Q_commit "stmt list"
  | Q_pool_execute stmt

datatype 'a script = Done 'a | Send db_query "(sqlx_error, reply) outcome \<Rightarrow> 'a script"

definition replying :: "('a \<Rightarrow> reply) \<Rightarrow> (db, sqlx_error, 'a) op \<Rightarrow> (db, sqlx_error, reply) op" where
  "replying f m = bind_op m (\<lambda>a. ret (f a))"

fun serve :: "db_query \<Rightarrow> (db, sqlx_error, reply) op" where
  "serve Q_begin = replying R_tx pool_begin"
| "serve (Q_select_cert tx) = replying R_cert (tx_query select_cert tx)"
| "serve (Q_execute q tx) = replying R_tx (tx_execute q tx)"
| "serve (Q_commit tx) = replying (\<lambda>_. R_done) (tx_commit tx)"
| "serve (Q_pool_execute q) = replying (\<lambda>_. R_done) (pool_execute q)"

primrec run_script :: "'a script \<Rightarrow> db \<Rightarrow> 'a \<times> db" where
  "run_script (Done a) = (\<lambda>s. (a, s))"
| "run_script (Send q k) = (\<lambda>s. case serve q s of (r, t) \<Rightarrow> run_script (k r) t)"

text \<open>Sending a request with the \<^verbatim>\<open>?\<close> operator: an error or a panic ends the script.\<close>

definition ask :: "(sqlx_error \<Rightarrow> 'e) \<Rightarrow> db_query \<Rightarrow> (reply \<Rightarrow> ('e, 'a) outcome script) \<Rightarrow> ('e, 'a) outcome script" where
  "ask conv q k = Send q (\<lambda>r. case r of
       Ok x \<Rightarrow> k x
     | Err e \<Rightarrow> Done (Err (conv e))
     | Panic p \<Rightarrow> Done (Panic p))"

definition proceed_with :: "('e, 'a) outcome \<Rightarrow> ('a \<Rightarrow> ('e, 'b) outcome script) \<Rightarrow> ('e, 'b) outcome script" where
  "proceed_with r k = (case r of Ok x \<Rightarrow> k x | Err e \<Rightarrow> Done (Err e) | Panic p \<Rightarrow> Done (Panic p))"

primrec reply_tx :: "reply \<Rightarrow> stmt list" where
  "reply_tx R_done = []"
| "reply_tx (R_tx tx) = tx"
| "reply_tx (R_cert c) = []"

primrec reply_cert :: "reply \<Rightarrow> cert option" where
  "reply_cert R_done = None"
| "reply_cert (R_tx tx) = None"
| "reply_cert (R_cert c) = c"

section \<open>The operations as scripts\<close>

definition commit_with :: "'a \<Rightarrow> stmt list \<Rightarrow> (any_err, 'a) outcome script" where
  "commit_with a tx = ask A_Sqlx (Q_commit tx) (\<lambda>_. Done (Ok a))"

definition start_writes :: "env \<Rightarrow> stmt list \<Rightarrow> cert option \<Rightarrow> (any_err, cert option) outcome script" where
  "start_writes env tx found =
     (case found of
        Some cert \<Rightarrow>
          if c_state cert = State_Ok then
            let cert = cert\<lparr>c_state := Updating\<rparr> in
            ask A_Sqlx (Q_execute (Update_cert cert) tx) (\<lambda>r. commit_with (Some cert) (reply_tx r))
          else
            proceed_with (now (clock env)) (\<lambda>t.
            let now' = to_i64 (byte_order env) t; hour_ago = now' - HOUR_IN_SECONDS in
            if sint (c_update cert) < sint hour_ago then
              let cert = cert\<lparr>c_update := now', c_state := Updating\<rparr> in
              ask A_Sqlx (Q_execute (Update_cert cert) tx) (\<lambda>r. commit_with (Some cert) (reply_tx r))
            else commit_with None tx)
      | None \<Rightarrow>
          proceed_with (domain_new env) (\<lambda>domain.
          proceed_with (cert_new env domain) (\<lambda>cert.
          ask A_Sqlx (Q_execute (Insert_domain domain) tx) (\<lambda>r.
          ask A_Sqlx (Q_execute (Insert_cert cert) (reply_tx r)) (\<lambda>r.
          commit_with (Some cert) (reply_tx r))))))"

definition start_script :: "env \<Rightarrow> (any_err, cert option) outcome script" where
  "start_script env =
     ask A_Sqlx Q_begin (\<lambda>r.
     ask A_Sqlx (Q_select_cert (reply_tx r)) (\<lambda>found.
     start_writes env (reply_tx r) (reply_cert found)))"

definition end_stop :: "cert \<Rightarrow> stmt list \<Rightarrow> (sqlx_error, cert) outcome script" where
  "end_stop memory_cert tx = ask id (Q_commit tx) (\<lambda>_. Done (Ok memory_cert))"

definition stop_writes :: "cert \<Rightarrow> stmt list \<Rightarrow> cert option \<Rightarrow> (sqlx_error, cert) outcome script" where
  "stop_writes memory_cert tx found =
     (case found of
        Some cert \<Rightarrow>
          if c_state cert = Updating \<and> c_update cert = c_update memory_cert then
            let memory_cert = memory_cert\<lparr>c_state := State_Ok\<rparr> in
            ask id (Q_pool_execute (Update_cert memory_cert)) (\<lambda>_. end_stop memory_cert tx)
          else end_stop memory_cert tx
      | None \<Rightarrow> end_stop memory_cert tx)"

definition stop_script :: "cert \<Rightarrow> (sqlx_error, cert) outcome script" where
  "stop_script memory_cert =
     ask id Q_begin (\<lambda>r.
     ask id (Q_select_cert (reply_tx r)) (\<lambda>found.
     stop_writes memory_cert (reply_tx r) (reply_cert found)))"

section \<open>Without interruption\<close>

lemma run_ask:
  "run_script (ask conv q k) s = (case serve q s of
      (Ok x, t) \<Rightarrow> run_script (k x) t
    | (Err e, t) \<Rightarrow> (Err (conv e), t)
    | (Panic p, t) \<Rightarrow> (Panic p, t))"
  by (auto simp: ask_def split: prod.split outcome.split)

lemma serve_replying:
  "replying f m s = (case m s of
      (Ok a, t) \<Rightarrow> (Ok (f a), t)
    | (Err e, t) \<Rightarrow> (Err e, t)
    | (Panic p, t) \<Rightarrow> (Panic p, t))"
  by (simp add: replying_def bind_op_def ret_def)

lemma run_commit_with:
  "run_script (commit_with a tx) = bind_op (map_err_op A_Sqlx (tx_commit tx)) (\<lambda>_. ret a)"
  by (auto simp: commit_with_def run_ask serve_replying bind_op_def map_err_op_def ret_def fun_eq_iff
      split: prod.split outcome.split)

lemma run_execute:
  "run_script (ask A_Sqlx (Q_execute q tx) k)
    = bind_op (map_err_op A_Sqlx (tx_execute q tx)) (\<lambda>tx. run_script (k (R_tx tx)))"
  by (auto simp: run_ask serve_replying bind_op_def map_err_op_def fun_eq_iff
      split: prod.split outcome.split)

lemma run_proceed_with:
  "run_script (proceed_with r k) = bind_op (lift_outcome r) (\<lambda>x. run_script (k x))"
  by (auto simp: proceed_with_def bind_op_def lift_outcome_def fun_eq_iff split: outcome.split)

lemma bind_op_assoc:
  "bind_op (bind_op m f) g = bind_op m (\<lambda>a. bind_op (f a) g)"
  by (auto simp: bind_op_def fun_eq_iff split: prod.split outcome.split)

lemma bind_op_ret: "bind_op (ret a) f = f a"
  by (simp add: bind_op_def ret_def fun_eq_iff)

lemma bind_op_if: "bind_op (if b then m else n) f = (if b then bind_op m f else bind_op n f)"
  by simp

lemma run_start_writes:
  "run_script (start_writes env tx found)
    = bind_op (db_start_body env tx found) (\<lambda>(tx, cert). bind_op (map_err_op A_Sqlx (tx_commit tx)) (\<lambda>_. ret cert))"
proof (cases found)
  case None
  then show ?thesis
    by (simp add: start_writes_def db_start_body_def run_proceed_with run_execute run_commit_with
        bind_op_assoc bind_op_ret)
next
  case (Some cert)
  show ?thesis
  proof (cases "c_state cert = State_Ok")
    case True
    then show ?thesis
      using Some by (simp add: start_writes_def db_start_body_def Let_def run_execute run_commit_with
          bind_op_assoc bind_op_ret)
  next
    case False
    have "run_script (if b then p else q) = (if b then run_script p else run_script q)" for b and p q :: "'z script"
      by simp
    then show ?thesis
      using Some False
      by (simp add: start_writes_def db_start_body_def Let_def run_proceed_with run_execute run_commit_with
          bind_op_assoc bind_op_ret bind_op_if if_distrib [of run_script] cong: if_cong)
  qed
qed

lemma run_start_script: "run_script (start_script env) = db_start_cert env"
  by (auto simp: start_script_def db_start_cert_def run_ask serve_replying run_start_writes bind_op_def
      map_err_op_def fun_eq_iff split: prod.split outcome.split)

lemma run_stop_script: "run_script (stop_script m) = db_stop_cert m"
  by (auto simp: stop_script_def stop_writes_def end_stop_def db_stop_cert_def db_stop_body_def run_ask serve_replying bind_op_def
      ret_def Let_def fun_eq_iff split: prod.split outcome.split option.split)

section \<open>Between the requests of others\<close>

text \<open>
  One request of another task: the registration of a domain that \<open>P\<close> admits, or a read. \<open>interleaved E p s r u\<close>
  runs the script \<open>p\<close> from the database \<open>s\<close>, with any number of steps of \<open>E\<close> before each of its requests and
  at its end.
\<close>

inductive other_request :: "(domain \<Rightarrow> bool) \<Rightarrow> db \<Rightarrow> db \<Rightarrow> bool" for P where
  register: "P d \<Longrightarrow> db_create_domain d s = (r, t) \<Longrightarrow> other_request P s t"
| read_cert: "db_first_cert s = (c, t) \<Longrightarrow> other_request P s t"
| read_domain: "db_find_domain_by_id i s = (x, t) \<Longrightarrow> other_request P s t"

inductive interleaved :: "(db \<Rightarrow> db \<Rightarrow> bool) \<Rightarrow> 'a script \<Rightarrow> db \<Rightarrow> 'a \<Rightarrow> db \<Rightarrow> bool" for E where
  finished: "interleaved E (Done a) s a s"
| own: "serve q s = (x, t) \<Longrightarrow> interleaved E (k x) t r u \<Longrightarrow> interleaved E (Send q k) s r u"
| other: "E s t \<Longrightarrow> interleaved E p t r u \<Longrightarrow> interleaved E p s r u"

lemma interleaved_alone: "interleaved E p s (fst (run_script p s)) (snd (run_script p s))"
proof (induction p arbitrary: s)
  case (Done a)
  then show ?case by (simp add: finished)
next
  case (Send q k)
  obtain x t where "serve q s = (x, t)" by fastforce
  then show ?case
    using own [of q s x t E k] Send by simp
qed

lemma interleaved_Done: "interleaved E (Done a) s r u \<Longrightarrow> r = a \<and> E\<^sup>*\<^sup>* s u"
  by (induction "Done a" s r u rule: interleaved.induct) (auto intro: converse_rtranclp_into_rtranclp)

lemma interleaved_Send:
  "interleaved E (Send q k) s r u \<Longrightarrow> \<exists>s1 x s2. E\<^sup>*\<^sup>* s s1 \<and> serve q s1 = (x, s2) \<and> interleaved E (k x) s2 r u"
proof (induction "Send q k" s r u rule: interleaved.induct)
  case (own s x t r u)
  then show ?case by blast
next
  case (other s t r u)
  then show ?case
    by (meson converse_rtranclp_into_rtranclp)
qed

lemma interleaved_ask:
  assumes "interleaved E (ask conv q k) s r u"
  obtains (answered) x s1 s2 where "E\<^sup>*\<^sup>* s s1" and "serve q s1 = (Ok x, s2)" and "interleaved E (k x) s2 r u"
    | (failed) e s1 s2 where "E\<^sup>*\<^sup>* s s1" and "serve q s1 = (Err e, s2)" and "r = Err (conv e)" and "E\<^sup>*\<^sup>* s2 u"
    | (panicked) p s1 s2 where "E\<^sup>*\<^sup>* s s1" and "serve q s1 = (Panic p, s2)"
proof -
  obtain s1 y s2 where run: "E\<^sup>*\<^sup>* s s1" "serve q s1 = (y, s2)"
      "interleaved E (case y of Ok x \<Rightarrow> k x | Err e \<Rightarrow> Done (Err (conv e)) | Panic p \<Rightarrow> Done (Panic p)) s2 r u"
    using interleaved_Send [OF assms [unfolded ask_def]] by blast
  show ?thesis
  proof (cases y)
    case (Ok x)
    then show ?thesis using answered run by simp
  next
    case (Err e)
    then have "r = Err (conv e) \<and> E\<^sup>*\<^sup>* s2 u"
      using interleaved_Done [of E "Err (conv e)" s2 r u] run(3) by simp
    then show ?thesis using failed run(1,2) Err by blast
  next
    case (Panic p)
    then show ?thesis using panicked run(1,2) by blast
  qed
qed

section \<open>What the others change\<close>

text \<open>They add domains, and keep a domain insertable that has no value in common with theirs.\<close>

inductive grows :: "(domain \<Rightarrow> bool) \<Rightarrow> astate \<Rightarrow> astate \<Rightarrow> bool" for P a where
  unchanged: "grows P a a"
| grown: "grows P a b \<Longrightarrow> P d \<Longrightarrow> a_domains b (d_id d) = None \<Longrightarrow> grows P a (add_domain d b)"

lemma grows_trans: "grows P b c \<Longrightarrow> grows P a b \<Longrightarrow> grows P a c"
  by (induction rule: grows.induct) (auto intro: grows.grown)

lemma grows_cert: "grows P a b \<Longrightarrow> a_cert b = a_cert a"
  by (induction rule: grows.induct) simp_all

definition differs :: "domain \<Rightarrow> domain \<Rightarrow> bool" where
  "differs d e \<longleftrightarrow> d_id d \<noteq> d_id e \<and> d_username d \<noteq> d_username e \<and> d_password d \<noteq> d_password e"

definition insertable :: "domain \<Rightarrow> db \<Rightarrow> bool" where
  "insertable d s \<longleftrightarrow> fst (exec_stmt (Insert_domain d) s) = Ok ()"

definition calm :: "(domain \<Rightarrow> bool) \<Rightarrow> db \<Rightarrow> db \<Rightarrow> bool" where
  "calm P s t \<longleftrightarrow> tables_ok t \<and> certs t = certs s \<and> grows P (tables_abs s) (tables_abs t) \<and>
     (\<forall>d. (\<forall>e. P e \<longrightarrow> differs d e) \<longrightarrow> insertable d s \<longrightarrow> insertable d t)"

lemma calm_refl: "tables_ok s \<Longrightarrow> calm P s s"
  by (simp add: calm_def grows.unchanged)

lemma calm_trans: "calm P s t \<Longrightarrow> calm P t u \<Longrightarrow> calm P s u"
  unfolding calm_def by (blast intro: grows_trans trans)

lemma insertable_same_data: "same_data s t \<Longrightarrow> insertable d t = insertable d s"
  by (auto simp: same_data_def insertable_def)

lemma calm_same_data:
  assumes "tables_ok s" and "same_data s t"
  shows "calm P s t"
proof -
  have "grows P (tables_abs s) (tables_abs t)"
    by (simp only: same_data_tables(2) [OF assms(2)] grows.unchanged)
  then show ?thesis
    using assms same_data_tables(1) [OF assms(2)] same_data_sel [OF assms(2)] insertable_same_data [OF assms(2)]
    by (simp add: calm_def)
qed

lemma insertable_register:
  assumes "insertable d s" and "differs d e" and "insertable e s"
  shows "insertable d (snd (exec_stmt (Insert_domain e) s))"
proof -
  have "snd (exec_stmt (Insert_domain e) s) = s\<lparr>domains := insert_new (d_id e) e (domains s)\<rparr>"
    using assms(3) by (auto simp: insertable_def exec_stmt.simps split: option.splits if_splits)
  then show ?thesis
    using assms(1,2)
    by (auto simp: insertable_def differs_def exec_stmt.simps check_domain_def other_value_def list_ex_iff
        lookup_None_iff entries_insert_new split: if_splits option.splits)
qed

lemma calm_register:
  assumes "tables_ok s" and "P e" and "db_create_domain e s = (r, t)"
  shows "calm P s t"
proof -
  have "calm P s t" if ok: "fst (exec_stmt (Insert_domain e) s) = Ok ()"
    and t: "same_data (snd (exec_stmt (Insert_domain e) s)) t"
  proof -
    note eff = exec_insert_domain [OF assms(1) ok]
    have "calm P s (snd (exec_stmt (Insert_domain e) s))"
      using eff assms(2) insertable_register [of _ s e] ok grows.grown [OF grows.unchanged, of P e "tables_abs s"]
      by (simp add: calm_def insertable_def)
    then show ?thesis
      using calm_trans calm_same_data [OF eff(1) t] by blast
  qed
  then show ?thesis
    using pool_execute_run [OF assms(3) [unfolded db_create_domain_def]] calm_same_data [OF assms(1)] by blast
qed

lemma calm_other:
  assumes "other_request P s t" and "tables_ok s"
  shows "calm P s t"
  using assms(1)
proof cases
  case (register d r)
  then show ?thesis
    by (intro calm_register [OF assms(2)])
next
  case (read_cert c)
  then show ?thesis
    using pool_query_run [of select_cert s c t] calm_same_data [OF assms(2)] by (simp add: db_first_cert_def)
next
  case (read_domain i x)
  then show ?thesis
    using pool_query_run [of "\<lambda>s. lookup (domains s) i" s x t] calm_same_data [OF assms(2)]
    by (simp add: db_find_domain_by_id_def)
qed

lemma calm_others: "(other_request P)\<^sup>*\<^sup>* s t \<Longrightarrow> tables_ok s \<Longrightarrow> calm P s t"
proof (induction rule: rtranclp_induct)
  case base
  then show ?case by (rule calm_refl)
next
  case (step t u)
  then have "calm P s t" by simp
  moreover from this have "calm P t u"
    using calm_other [OF step.hyps(2)] by (simp add: calm_def)
  ultimately show ?case by (rule calm_trans)
qed

lemma calm_ok: "calm P s t \<Longrightarrow> tables_ok t"
  by (simp add: calm_def)

section \<open>At a single moment\<close>

text \<open>
  \<open>effective P step s r u\<close>: between \<open>s\<close> and \<open>u\<close> the tables took one step, which the result \<open>r\<close> allows, and
  otherwise only registrations that \<open>P\<close> admits.
\<close>

definition effective :: "(domain \<Rightarrow> bool) \<Rightarrow> ('r \<Rightarrow> astate \<Rightarrow> astate \<Rightarrow> bool) \<Rightarrow> db \<Rightarrow> 'r \<Rightarrow> db \<Rightarrow> bool" where
  "effective P step s r u \<longleftrightarrow> tables_ok u \<and>
     (\<exists>a b. grows P (tables_abs s) a \<and> step r a b \<and> grows P b (tables_abs u))"

fun start_moment :: "env \<Rightarrow> (any_err, cert option) outcome \<Rightarrow> astate \<Rightarrow> astate \<Rightarrow> bool" where
  "start_moment env (Ok c) a b = (start_spec env a = (Ok c, b))"
| "start_moment env (Err e) a b = (b = a \<or> e = A_Sqlx Connection_lost \<and> (\<exists>c. start_spec env a = (Ok c, b)))"
| "start_moment env (Panic p) a b = (start_spec env a = (Panic p, b))"

fun stop_moment :: "cert \<Rightarrow> (sqlx_error, cert) outcome \<Rightarrow> astate \<Rightarrow> astate \<Rightarrow> bool" where
  "stop_moment m (Ok m') a b = (stop_spec m a = (m', b))"
| "stop_moment m (Err e) a b = (b = a \<or> b = snd (stop_spec m a))"
| "stop_moment m (Panic p) a b = False"

lemma effective_later: "calm P s t \<Longrightarrow> effective P step t r u \<Longrightarrow> effective P step s r u"
  unfolding effective_def calm_def by (blast intro: grows_trans)

lemma effective_here: "calm P s u \<Longrightarrow> step r (tables_abs u) (tables_abs u) \<Longrightarrow> effective P step s r u"
  unfolding effective_def calm_def by (blast intro: grows.unchanged)

lemma effective_now:
  assumes "calm P s s1" and "step r (tables_abs s1) (tables_abs s2)" and "calm P s2 u"
  shows "effective P step s r u"
  using assms unfolding effective_def calm_def by blast

lemma step_Err [simp]: "start_moment env (Err e) a a" "stop_moment m (Err e') a a"
  by simp_all

text \<open>A request of the transaction before its commit changes nothing that others see.\<close>

fun quiet :: "db_query \<Rightarrow> bool" where
  "quiet Q_begin = True"
| "quiet (Q_select_cert tx) = True"
| "quiet (Q_execute q tx) = True"
| "quiet (Q_commit tx) = (tx = [])"
| "quiet (Q_pool_execute q) = False"

lemma quiet_run:
  assumes "quiet q" and "serve q s = (x, t)"
  shows "same_data s t \<and> (\<forall>p. x \<noteq> Panic p)"
proof (cases q)
  case Q_begin
  obtain y t' where run: "pool_begin s = (y, t')" by fastforce
  then show ?thesis
    using assms(2) Q_begin pool_begin_run [OF run] by (auto simp: serve_replying)
next
  case (Q_select_cert tx)
  obtain y t' where run: "tx_query select_cert tx s = (y, t')" by fastforce
  then show ?thesis
    using assms(2) Q_select_cert tx_query_run [OF run] by (auto simp: serve_replying)
next
  case (Q_execute q tx)
  obtain y t' where run: "tx_execute q tx s = (y, t')" by fastforce
  then show ?thesis
    using assms(2) Q_execute tx_execute_run [OF run] by (auto simp: serve_replying)
next
  case (Q_commit tx)
  obtain y t' where run: "tx_commit tx s = (y, t')" by fastforce
  then show ?thesis
    using assms Q_commit tx_commit_run [OF run] by (auto simp: serve_replying)
next
  case (Q_pool_execute q)
  then show ?thesis using assms(1) by simp
qed

lemma ask_quiet:
  assumes run: "interleaved (other_request P) (ask conv q k) s r u" and "tables_ok s" and "quiet q"
    and failing: "\<And>e a. step (Err e) a a"
    and then_on: "\<And>x s1 s2. calm P s s1 \<Longrightarrow> serve q s1 = (Ok x, s2) \<Longrightarrow> same_data s1 s2 \<Longrightarrow>
      calm P s s2 \<Longrightarrow> interleaved (other_request P) (k x) s2 r u \<Longrightarrow> effective P step s2 r u"
  shows "effective P step s r u"
proof (rule interleaved_ask [OF run])
  fix x s1 s2
  assume steps: "(other_request P)\<^sup>*\<^sup>* s s1" "serve q s1 = (Ok x, s2)" "interleaved (other_request P) (k x) s2 r u"
  have s1: "calm P s s1" by (rule calm_others [OF steps(1) assms(2)])
  have s2: "same_data s1 s2" using quiet_run [OF assms(3) steps(2)] by simp
  have c: "calm P s s2"
    by (rule calm_trans [OF s1 calm_same_data [OF calm_ok [OF s1] s2]])
  show ?thesis
    by (rule effective_later [OF c then_on [OF s1 steps(2) s2 c steps(3)]])
next
  fix e s1 s2
  assume steps: "(other_request P)\<^sup>*\<^sup>* s s1" "serve q s1 = (Err e, s2)" "r = Err (conv e)" "(other_request P)\<^sup>*\<^sup>* s2 u"
  have s1: "calm P s s1" by (rule calm_others [OF steps(1) assms(2)])
  have "same_data s1 s2" using quiet_run [OF assms(3) steps(2)] by simp
  then have s2: "calm P s s2"
    using calm_trans [OF s1] calm_same_data [OF calm_ok [OF s1]] by blast
  have "calm P s u"
    by (rule calm_trans [OF s2 calm_others [OF steps(4) calm_ok [OF s2]]])
  then show ?thesis
    using failing steps(3) by (intro effective_here) simp_all
next
  fix p s1 s2
  assume "serve q s1 = (Panic p, s2)"
  then show ?thesis using quiet_run [OF assms(3)] by blast
qed

text \<open>The commit is that moment: what the transaction has collected is then the protocol's step.\<close>

lemma commit_moment:
  assumes run: "interleaved (other_request P) (commit_with c tx) s r u" and "tables_ok s"
    and ready: "\<And>t. calm P s t \<Longrightarrow>
      tables_ok (view tx t) \<and> start_spec env (tables_abs t) = (Ok c, tables_abs (view tx t))"
  shows "effective P (start_moment env) s r u"
proof (rule interleaved_ask [OF run [unfolded commit_with_def]])
  fix x s1 s2
  assume steps: "(other_request P)\<^sup>*\<^sup>* s s1" "serve (Q_commit tx) s1 = (Ok x, s2)"
    "interleaved (other_request P) (Done (Ok c)) s2 r u"
  have s1: "calm P s s1" by (rule calm_others [OF steps(1) assms(2)])
  obtain y t where y: "tx_commit tx s1 = (y, t)" by fastforce
  have "same_data (view tx s1) s2"
    using steps(2) y tx_commit_run [OF y] by (auto simp: serve_replying split: outcome.splits)
  then have s2: "tables_ok s2" "start_spec env (tables_abs s1) = (Ok c, tables_abs s2)"
    using ready [OF s1] same_data_tables [of "view tx s1" s2] by simp_all
  have "r = Ok c" "calm P s2 u"
    using interleaved_Done [OF steps(3)] calm_others [OF _ s2(1)] by blast+
  then show ?thesis
    using s2(2) by (intro effective_now [OF s1]) simp_all
next
  fix e s1 s2
  assume steps: "(other_request P)\<^sup>*\<^sup>* s s1" "serve (Q_commit tx) s1 = (Err e, s2)"
    "r = Err (A_Sqlx e)" "(other_request P)\<^sup>*\<^sup>* s2 u"
  have s1: "calm P s s1" by (rule calm_others [OF steps(1) assms(2)])
  obtain y t where y: "tx_commit tx s1 = (y, t)" by fastforce
  have ends: "e = Connection_lost" "same_data s1 s2 \<or> same_data (view tx s1) s2"
    using steps(2) y tx_commit_run [OF y] by (auto simp: serve_replying split: outcome.splits)
  then have s2: "tables_ok s2 \<and> start_moment env r (tables_abs s1) (tables_abs s2)"
    using ready [OF s1] calm_ok [OF s1] same_data_tables [of s1 s2] same_data_tables [of "view tx s1" s2] steps(3)
    by auto
  show ?thesis
    using s2 calm_others [OF steps(4)] by (intro effective_now [OF s1]) simp_all
next
  fix p s1 s2
  assume run: "serve (Q_commit tx) s1 = (Panic p, s2)"
  obtain y t where y: "tx_commit tx s1 = (y, t)" by fastforce
  show ?thesis
    using run tx_commit_run [OF y] y by (auto simp: serve_replying)
qed

lemma execute_Ok:
  assumes "serve (Q_execute q tx) s = (Ok x, t)"
  shows "x = R_tx (tx @ [q])" and "fst (exec_stmt q (view tx s)) = Ok ()"
proof -
  obtain y t' where y: "tx_execute q tx s = (y, t')" by fastforce
  show "x = R_tx (tx @ [q])" and "fst (exec_stmt q (view tx s)) = Ok ()"
    using assms y tx_execute_run [OF y] by (auto simp: serve_replying split: outcome.splits)
qed

lemma update_cert_length:
  assumes "tables_ok s" and "first_value (certs s) = Some c"
    and "c_id c' = c_id c" and "fst (exec_stmt (Update_cert c') s) = Ok ()"
  shows "length (c_domain c') \<le> 32"
  using assms(3,4) tables_ok_cert [OF assms(1,2)]
  by (auto simp: exec_stmt.simps check_cert_def split: if_splits)

lemma update_moment:
  assumes run: "interleaved (other_request P)
      (ask A_Sqlx (Q_execute (Update_cert c') []) (\<lambda>r. commit_with (Some c') (reply_tx r))) s r u"
    and ok: "tables_ok s" and found: "first_value (certs s) = Some c"
    and same: "c_id c' = c_id c" "c_domain c' = c_domain c"
    and spec: "\<And>a. a_cert a = Some c \<Longrightarrow> start_spec env a = (Ok (Some c'), a\<lparr>a_cert := Some c'\<rparr>)"
  shows "effective P (start_moment env) s r u"
proof (rule ask_quiet [OF run ok])
  fix x s1 s2
  assume s1: "calm P s s1" and run1: "serve (Q_execute (Update_cert c') []) s1 = (Ok x, s2)" "calm P s s2"
    and run2: "interleaved (other_request P) (commit_with (Some c') (reply_tx x)) s2 r u"
  note x = execute_Ok [OF run1(1)]
  have c1: "first_value (certs s1) = Some c"
    using s1 found by (simp add: calm_def)
  have short: "length (c_domain c) \<le> 32"
    using update_cert_length [OF calm_ok [OF s1] c1 same(1)] x(2) same(2) by simp
  have "tables_ok (view [Update_cert c'] t) \<and>
      start_spec env (tables_abs t) = (Ok (Some c'), tables_abs (view [Update_cert c'] t))" if "calm P s2 t" for t
  proof -
    have t: "tables_ok t" "first_value (certs t) = Some c"
      using that run1(2) found by (simp_all add: calm_def)
    show ?thesis
      using exec_update_cert [OF t same exec_update_cert_Ok [OF t same short]] spec [of "tables_abs t"] t(2)
      by (simp add: view_def)
  qed
  then show "effective P (start_moment env) s2 r u"
    using commit_moment [OF run2 calm_ok [OF run1(2)]] x(1) by simp
qed simp_all

lemma insert_both_ready:
  assumes "tables_ok t" and "first_value (certs t) = None" and "insertable d t" and "cert_new env d = Ok c"
    and "length (d_id d) \<le> 32"
  shows "tables_ok (view [Insert_domain d, Insert_cert c] t)"
    and "tables_abs (view [Insert_domain d, Insert_cert c] t) = (add_domain d (tables_abs t))\<lparr>a_cert := Some c\<rparr>"
proof -
  let ?t1 = "snd (exec_stmt (Insert_domain d) t)"
  note one = exec_insert_domain [OF assms(1) assms(3) [unfolded insertable_def]]
  have none: "first_value (certs ?t1) = None" "entries (certs ?t1) = []"
    using one(3) assms(2) by (auto simp: first_value_def split: list.splits)
  have c: "c_domain c = d_id d" "length (c_id c) \<le> 32"
    using cert_new_OkD [OF assms(4)] by simp_all
  have "lookup (domains ?t1) (d_id d) = Some d"
    using arg_cong [OF one(2), of a_domains] by simp
  then have "exec_stmt (Insert_cert c) ?t1 = (Ok (), ?t1\<lparr>certs := insert_new (c_id c) c (certs ?t1)\<rparr>)"
    using none c assms(5) by (intro insert_cert_Ok) (auto simp: lookup_def dest: map_of_SomeD intro: rev_image_eqI)
  then have "fst (exec_stmt (Insert_cert c) ?t1) = Ok ()" by simp
  from exec_insert_cert [OF one(1) none(1) this]
  show "tables_ok (view [Insert_domain d, Insert_cert c] t)"
    and "tables_abs (view [Insert_domain d, Insert_cert c] t) = (add_domain d (tables_abs t))\<lparr>a_cert := Some c\<rparr>"
    using one(2) by (simp_all add: view_def)
qed

lemma insert_moment:
  assumes run: "interleaved (other_request P)
      (ask A_Sqlx (Q_execute (Insert_domain d) []) (\<lambda>r.
       ask A_Sqlx (Q_execute (Insert_cert c) (reply_tx r)) (\<lambda>r. commit_with (Some c) (reply_tx r)))) s r u"
    and ok: "tables_ok s" and found: "first_value (certs s) = None"
    and new: "domain_new env = Ok d" "cert_new env d = Ok c" and apart: "\<And>e. P e \<Longrightarrow> differs d e"
  shows "effective P (start_moment env) s r u"
proof (rule ask_quiet [OF run ok])
  fix x s1 s2
  assume s1: "calm P s s1" and run1: "serve (Q_execute (Insert_domain d) []) s1 = (Ok x, s2)" "same_data s1 s2" "calm P s s2"
    and run2: "interleaved (other_request P) (ask A_Sqlx (Q_execute (Insert_cert c) (reply_tx x))
      (\<lambda>r. commit_with (Some c) (reply_tx r))) s2 r u"
  have x: "reply_tx x = [Insert_domain d]" and ins: "insertable d s2"
    using execute_Ok [OF run1(1)] insertable_same_data [OF run1(2)] by (simp_all add: insertable_def)
  show "effective P (start_moment env) s2 r u"
  proof (rule ask_quiet [OF run2 calm_ok [OF run1(3)]])
    fix y s3 s4
    assume y: "serve (Q_execute (Insert_cert c) (reply_tx x)) s3 = (Ok y, s4)" and s4: "calm P s2 s4"
      and run3: "interleaved (other_request P) (commit_with (Some c) (reply_tx y)) s4 r u"
    have tx: "reply_tx y = [Insert_domain d, Insert_cert c]"
      using execute_Ok(1) [OF y] x by simp
    have "tables_ok (view [Insert_domain d, Insert_cert c] t) \<and>
        start_spec env (tables_abs t) = (Ok (Some c), tables_abs (view [Insert_domain d, Insert_cert c] t))"
      if t: "calm P s4 t" for t
    proof -
      have facts: "tables_ok t" "first_value (certs t) = None" "insertable d t"
        using calm_trans [OF s4 t] run1(3) found ins apart by (simp_all add: calm_def)
      have "length (d_id d) \<le> 32"
        using domain_new_lengths [OF new(1)] by simp
      note both = insert_both_ready [OF facts new(2) this]
      have "start_spec env (tables_abs t) = (Ok (Some c), (add_domain d (tables_abs t))\<lparr>a_cert := Some c\<rparr>)"
        using facts(2) new by (simp add: start_spec_def add_domain_def)
      then show ?thesis
        using both by (simp only: simp_thms)
    qed
    then show "effective P (start_moment env) s4 r u"
      using commit_moment [OF run3 calm_ok [OF s4]] tx by simp
  qed simp_all
qed simp_all

text \<open>What the operation writes, by what it has found, beside the protocol's step for it.\<close>

lemma start_writes_cases:
  obtains (update) c c' where "found = Some c" and "c_id c' = c_id c" and "c_domain c' = c_domain c"
      and "start_writes env [] found
        = ask A_Sqlx (Q_execute (Update_cert c') []) (\<lambda>r. commit_with (Some c') (reply_tx r))"
      and "\<And>a. a_cert a = found \<Longrightarrow> start_spec env a = (Ok (Some c'), a\<lparr>a_cert := Some c'\<rparr>)"
    | (keep) "start_writes env [] found = commit_with None []"
      and "\<And>a. a_cert a = found \<Longrightarrow> start_spec env a = (Ok None, a)"
    | (insert) d c where "found = None" and "domain_new env = Ok d" and "cert_new env d = Ok c"
      and "start_writes env [] found
        = ask A_Sqlx (Q_execute (Insert_domain d) []) (\<lambda>r.
          ask A_Sqlx (Q_execute (Insert_cert c) (reply_tx r)) (\<lambda>r. commit_with (Some c) (reply_tx r)))"
    | (fail) r where "start_writes env [] found = Done r"
      and "\<And>a. a_cert a = found \<Longrightarrow> start_moment env r a a"
proof (cases found)
  case None
  note defs = start_writes_def proceed_with_def start_spec_def None
  show ?thesis
  proof (cases "domain_new env")
    case d: (Ok d)
    show ?thesis
    proof (cases "cert_new env d")
      case (Ok c)
      then show ?thesis using insert None d by (simp add: defs)
    next
      case (Err e)
      then show ?thesis using d by (intro fail [of "Err e"]) (simp_all add: defs)
    next
      case (Panic p)
      then show ?thesis using d by (intro fail [of "Panic p"]) (simp_all add: defs)
    qed
  next
    case (Err e)
    then show ?thesis by (intro fail [of "Err e"]) (simp_all add: defs)
  next
    case (Panic p)
    then show ?thesis by (intro fail [of "Panic p"]) (simp_all add: defs)
  qed
next
  case (Some c)
  note defs = start_writes_def proceed_with_def start_spec_def now_def Let_def lease_expired_def one_hour_ago_def
  consider "c_state c = State_Ok" | "c_state c \<noteq> State_Ok" "clock env < 0"
    | "c_state c \<noteq> State_Ok" "0 \<le> clock env" "lease_expired (word_of_int (clock env)) c"
    | "c_state c \<noteq> State_Ok" "0 \<le> clock env" "\<not> lease_expired (word_of_int (clock env)) c"
    by linarith
  then show ?thesis
  proof cases
    case 1
    then show ?thesis
      using Some by (intro update [of c "c\<lparr>c_state := Updating\<rparr>"]) (simp_all add: defs)
  next
    case 2
    then show ?thesis
      using Some by (intro fail [of "Panic ''unix epoch is safe''"]) (simp_all add: defs)
  next
    case 3
    then show ?thesis
      using Some by (intro update [of c "c\<lparr>c_update := word_of_int (clock env), c_state := Updating\<rparr>"])
        (simp_all add: defs)
  next
    case 4
    then show ?thesis
      using Some by (intro keep) (simp_all add: defs)
  qed
qed

lemma start_writes_moment:
  assumes run: "interleaved (other_request P) (start_writes env [] (first_value (certs s))) s r u"
    and ok: "tables_ok s" and apart: "\<And>d e. domain_new env = Ok d \<Longrightarrow> P e \<Longrightarrow> differs d e"
  shows "effective P (start_moment env) s r u"
proof (cases rule: start_writes_cases [of "first_value (certs s)" env])
  case (update c c')
  then show ?thesis
    using run by (intro update_moment [OF _ ok, of _ c' r u c]) simp_all
next
  case keep
  have ready: "tables_ok (view [] t) \<and> start_spec env (tables_abs t) = (Ok None, tables_abs (view [] t))"
    if "calm P s t" for t
    using that keep(2) [of "tables_abs t"] by (simp add: calm_def)
  show ?thesis
    by (rule commit_moment [OF _ ok ready]) (use run keep(1) in simp_all)
next
  case (insert d c)
  then show ?thesis
    using run by (intro insert_moment [OF _ ok _ _ _ apart]) simp_all
next
  case (fail r')
  then have fin: "r = r'" "(other_request P)\<^sup>*\<^sup>* s u"
    using run interleaved_Done [of "other_request P" r' s r u] by simp_all
  have "calm P s u"
    by (rule calm_others [OF fin(2) ok])
  then show ?thesis
    using fail(2) [of "tables_abs u"] fin(1) by (intro effective_here) (simp_all add: calm_def)
qed

lemma begin_Ok:
  assumes "serve Q_begin s = (Ok x, t)"
  shows "reply_tx x = []"
proof -
  obtain y t' where y: "pool_begin s = (y, t')" by fastforce
  then show ?thesis
    using assms pool_begin_run [OF y] by (auto simp: serve_replying)
qed

lemma select_Ok:
  assumes "serve (Q_select_cert []) s = (Ok x, t)" and "same_data s t"
  shows "reply_cert x = first_value (certs t)"
proof -
  obtain y t' where y: "tx_query select_cert [] s = (y, t')" by fastforce
  show ?thesis
    using assms(1) y tx_query_run [OF y] same_data_sel(1) [OF assms(2)]
    by (auto simp: serve_replying select_cert_def split: outcome.splits)
qed

lemma start_effective:
  assumes run: "interleaved (other_request P) (start_script env) s r u"
    and ok: "tables_ok s" and apart: "\<And>d e. domain_new env = Ok d \<Longrightarrow> P e \<Longrightarrow> differs d e"
  shows "effective P (start_moment env) s r u"
proof (rule ask_quiet [OF run [unfolded start_script_def] ok])
  fix x s1 s2
  assume x: "serve Q_begin s1 = (Ok x, s2)" and s2: "calm P s s2"
    and run2: "interleaved (other_request P) (ask A_Sqlx (Q_select_cert (reply_tx x))
      (\<lambda>found. start_writes env (reply_tx x) (reply_cert found))) s2 r u"
  have tx: "reply_tx x = []" by (rule begin_Ok [OF x])
  show "effective P (start_moment env) s2 r u"
  proof (rule ask_quiet [OF run2 calm_ok [OF s2]])
    fix z s3 s4
    assume z: "serve (Q_select_cert (reply_tx x)) s3 = (Ok z, s4)" and s4: "same_data s3 s4" "calm P s2 s4"
      and run3: "interleaved (other_request P) (start_writes env (reply_tx x) (reply_cert z)) s4 r u"
    show "effective P (start_moment env) s4 r u"
      using start_writes_moment [OF _ calm_ok [OF s4(2)] apart] run3 tx select_Ok [OF z [unfolded tx]] s4(1) by simp
  qed simp_all
qed simp_all

lemma end_stop_moment:
  assumes run: "interleaved (other_request P) (end_stop m' []) s r u" and "tables_ok s"
    and "\<And>e. step (Err e) (tables_abs s0) (tables_abs s)" and "step (Ok m') (tables_abs s0) (tables_abs s)"
    and "tables_ok s0"
  shows "effective P step s0 r u"
proof -
  have "effective P (\<lambda>r a b. b = a \<and> (r = Ok m' \<or> (\<exists>e. r = Err e))) s r u"
  proof (rule ask_quiet [OF run [unfolded end_stop_def] assms(2)])
    fix s2 assume s2: "calm P s s2" and fin: "interleaved (other_request P) (Done (Ok m')) s2 r u"
    have "r = Ok m'" "calm P s2 u"
      using interleaved_Done [OF fin] calm_others [OF _ calm_ok [OF s2]] by simp_all
    then show "effective P (\<lambda>r a b. b = a \<and> (r = Ok m' \<or> (\<exists>e. r = Err e))) s2 r u"
      by (intro effective_here) simp_all
  qed simp_all
  then obtain a where u: "tables_ok u" "grows P (tables_abs s) a" "grows P a (tables_abs u)"
      and r: "r = Ok m' \<or> (\<exists>e. r = Err e)"
    by (auto simp: effective_def)
  have "step r (tables_abs s0) (tables_abs s)"
    using assms(3,4) r by auto
  then show ?thesis
    using u grows_trans [OF u(3,2)] by (auto simp: effective_def intro: grows.unchanged)
qed

text \<open>A write through the pool takes effect at once, if at all.\<close>

lemma pool_write_later:
  assumes ok: "tables_ok s" and found: "first_value (certs s) = Some c"
    and ids: "c_id c' = c_id c" "c_domain c' = c_domain c"
    and steps: "(other_request P)\<^sup>*\<^sup>* s s1" "serve (Q_pool_execute (Update_cert c')) s1 = (x, t)"
  shows "tables_ok t \<and> a_cert (tables_abs s1) = Some c \<and> calm P s s1 \<and> (\<forall>p. x \<noteq> Panic p) \<and>
    (tables_abs t = (tables_abs s1)\<lparr>a_cert := Some c'\<rparr> \<or> (\<exists>e. x = Err e) \<and> tables_abs t = tables_abs s1)"
proof -
  have s1: "calm P s s1" by (rule calm_others [OF steps(1) ok])
  have c1: "first_value (certs s1) = Some c" using s1 found by (simp add: calm_def)
  obtain y t' where y: "pool_execute (Update_cert c') s1 = (y, t')" by fastforce
  show ?thesis
    using pool_update_cert_run [OF calm_ok [OF s1] c1 ids y] steps(2) y s1 c1 by (auto simp: serve_replying)
qed

lemma stop_writes_moment:
  assumes run: "interleaved (other_request P) (stop_writes m [] (first_value (certs s))) s r u"
    and ok: "tables_ok s" and job: "same_job m (tables_abs s)"
  shows "effective P (stop_moment m) s r u"
proof -
  let ?m = "m\<lparr>c_state := State_Ok\<rparr>"
  have idle: ?thesis if "interleaved (other_request P) (end_stop m []) s r u" "stop_spec m (tables_abs s) = (m, tables_abs s)"
    by (rule end_stop_moment [OF that(1) ok _ _ ok]) (simp_all add: that(2))
  show ?thesis
  proof (cases "first_value (certs s)")
    case None
    then show ?thesis using run by (intro idle) (simp_all add: stop_writes_def stop_spec_def)
  next
    case (Some c)
    show ?thesis
    proof (cases "c_state c = Updating \<and> c_update c = c_update m")
      case False
      then show ?thesis
        using run Some by (intro idle) (auto simp: stop_writes_def stop_spec_def)
    next
      case True
      have ids: "c_id ?m = c_id c" "c_domain ?m = c_domain c"
        using job Some by (simp_all add: same_job_def)
      have spec: "stop_spec m a = (?m, a\<lparr>a_cert := Some ?m\<rparr>)" if "a_cert a = Some c" for a
        using True that by (simp add: stop_spec_def Let_def)
      note stored = pool_write_later [OF ok Some ids]
      have "interleaved (other_request P) (ask id (Q_pool_execute (Update_cert ?m)) (\<lambda>_. end_stop ?m [])) s r u"
        using run Some True by (simp add: stop_writes_def Let_def)
      then show ?thesis
      proof (rule interleaved_ask)
        fix x s1 s2
        assume steps: "(other_request P)\<^sup>*\<^sup>* s s1" "serve (Q_pool_execute (Update_cert ?m)) s1 = (Ok x, s2)"
          "interleaved (other_request P) (end_stop ?m []) s2 r u"
        note w = stored [OF steps(1,2)]
        have "effective P (stop_moment m) s1 r u"
          by (rule end_stop_moment [OF steps(3)]) (use w spec [of "tables_abs s1"] calm_ok in auto)
        then show ?thesis by (rule effective_later [rotated]) (use w in simp)
      next
        fix e s1 s2
        assume steps: "(other_request P)\<^sup>*\<^sup>* s s1" "serve (Q_pool_execute (Update_cert ?m)) s1 = (Err e, s2)"
          "r = Err (id e)" "(other_request P)\<^sup>*\<^sup>* s2 u"
        note w = stored [OF steps(1,2)]
        show ?thesis
          using w spec [of "tables_abs s1"] calm_others [OF steps(4)] steps(3)
          by (intro effective_now [of P s s1]) auto
      next
        fix p s1 s2
        assume "(other_request P)\<^sup>*\<^sup>* s s1" "serve (Q_pool_execute (Update_cert ?m)) s1 = (Panic p, s2)"
        then show ?thesis using stored by blast
      qed
    qed
  qed
qed

lemma stop_effective:
  assumes run: "interleaved (other_request P) (stop_script m) s r u"
    and ok: "tables_ok s" and job: "same_job m (tables_abs s)"
  shows "effective P (stop_moment m) s r u"
proof (rule ask_quiet [OF run [unfolded stop_script_def] ok])
  fix x s1 s2
  assume x: "serve Q_begin s1 = (Ok x, s2)" and s2: "calm P s s2"
    and run2: "interleaved (other_request P) (ask id (Q_select_cert (reply_tx x))
      (\<lambda>found. stop_writes m (reply_tx x) (reply_cert found))) s2 r u"
  have tx: "reply_tx x = []" by (rule begin_Ok [OF x])
  show "effective P (stop_moment m) s2 r u"
  proof (rule ask_quiet [OF run2 calm_ok [OF s2]])
    fix z s3 s4
    assume z: "serve (Q_select_cert (reply_tx x)) s3 = (Ok z, s4)" and s4: "same_data s3 s4" "calm P s2 s4"
      and run3: "interleaved (other_request P) (stop_writes m (reply_tx x) (reply_cert z)) s4 r u"
    have "same_job m (tables_abs s4)"
      using job s2 s4(2) by (simp add: calm_def same_job_def)
    then show "effective P (stop_moment m) s4 r u"
      using stop_writes_moment [OF _ calm_ok [OF s4(2)]] run3 tx select_Ok [OF z [unfolded tx]] s4(1) by simp
  qed simp_all
qed simp_all

section \<open>The properties\<close>

text \<open>
  C2: \<^verbatim>\<open>start_cert\<close> on the database takes effect at a single moment. However the requests of
  registrations, of DNS answers and of the TLS acceptor come between its own, and whatever requests are
  lost: there is a moment between call and return at which the tables make exactly the protocol's
  step, of which the result tells, or none when it ends with an error (unless the reply to the commit
  was lost); before and after that moment only the registered domains are added. The others are
  no managers, and register no domain with the identity, the user name or the password of the one
  \<^verbatim>\<open>start_cert\<close> creates.
\<close>

theorem db_start_linearizable:
  assumes "tables_ok s" and "interleaved (other_request P) (start_script env) s r u"
    and "\<And>d e. domain_new env = Ok d \<Longrightarrow> P e \<Longrightarrow> differs d e"
  shows "tables_ok u \<and> (\<exists>a b. grows P (tables_abs s) a \<and> grows P b (tables_abs u) \<and>
    (case r of
       Ok cert \<Rightarrow> start_spec env a = (Ok cert, b)
     | Err e \<Rightarrow> b = a \<or> e = A_Sqlx Connection_lost \<and> (\<exists>cert. start_spec env a = (Ok cert, b))
     | Panic p \<Rightarrow> start_spec env a = (Panic p, b)))"
proof -
  have "effective P (start_moment env) s r u"
    by (rule start_effective [OF assms(2,1)]) (rule assms(3))
  then show ?thesis
    by (cases r) (auto simp: effective_def)
qed

definition registered_between :: domain where
  "registered_between = \<lparr>d_id = ''e'', d_username = ''v'', d_password = ''q'', d_txt = None\<rparr>"

lemma registration_between:
  assumes "serve q s = (x, s)" and "network s = []"
  shows "interleaved (other_request (\<lambda>d. d = registered_between)) (Send q k) s
    (fst (run_script (k x) (snd (db_create_domain registered_between s))))
    (snd (run_script (k x) (snd (db_create_domain registered_between s))))"
  by (rule interleaved.own [OF assms(1) interleaved.other [OF other_request.register interleaved_alone]])
    (auto intro: prod.collapse [symmetric])

theorem db_start_linearizable_witness:
  "let s = example_db (renewed_cert State_Ok) []; P = (\<lambda>d. d = registered_between) in
   \<exists>u. interleaved (other_request P) (start_script (db_env 0 9000)) s (Ok (Some (renewed_cert Updating))) u \<and>
     (\<exists>a b. grows P (tables_abs s) a \<and> grows P b (tables_abs u) \<and>
       start_spec (db_env 0 9000) a = (Ok (Some (renewed_cert Updating)), b))"
proof -
  let ?s = "example_db (renewed_cert State_Ok) []" and ?P = "\<lambda>d. d = registered_between"
  let ?k = "\<lambda>r. case r of
       Ok x \<Rightarrow> ask A_Sqlx (Q_select_cert (reply_tx x)) (\<lambda>found. start_writes (db_env 0 9000) (reply_tx x) (reply_cert found))
     | Err e \<Rightarrow> Done (Err (A_Sqlx e))
     | Panic p \<Rightarrow> Done (Panic p)"
  let ?last = "run_script (?k (Ok (R_tx []))) (snd (db_create_domain registered_between ?s))"
  have ok: "tables_ok ?s"
    by (rule example_db_ok) (simp add: renewed_cert_def)
  have serve: "serve Q_begin ?s = (Ok (R_tx []), ?s)"
    by (simp add: replying_def pool_begin_def request_def bind_op_def ret_def example_db_def)
  have run: "interleaved (other_request ?P) (start_script (db_env 0 9000)) ?s (fst ?last) (snd ?last)"
    unfolding start_script_def ask_def [of A_Sqlx Q_begin]
    by (rule registration_between [OF serve]) (simp add: example_db_def)
  have "fst ?last = Ok (Some (renewed_cert Updating))"
    by code_simp
  then have run: "interleaved (other_request ?P) (start_script (db_env 0 9000)) ?s (Ok (Some (renewed_cert Updating))) (snd ?last)"
    using run by simp
  have "uuid w \<noteq> [x]" for w x
    using length_uuid [of w] by (auto simp del: length_uuid)
  then have "differs d e" if "domain_new (db_env 0 9000) = Ok d" "?P e" for d e
    using that by (auto simp: differs_def registered_between_def domain_new_def db_env_def)
  then show ?thesis
    using db_start_linearizable [OF ok run] run by (auto simp: Let_def)
qed

text \<open>
  C11: \<^verbatim>\<open>stop_cert\<close> on the database takes effect at a single moment too, whatever registrations and reads
  come between its requests, although it writes outside its transaction: between call and return the
  tables make exactly the protocol's step, or none when it ends with an error.
\<close>

theorem db_stop_linearizable:
  assumes "tables_ok s" and "interleaved (other_request P) (stop_script m) s r u"
    and "same_job m (tables_abs s)"
  shows "tables_ok u \<and> (\<exists>a b. grows P (tables_abs s) a \<and> grows P b (tables_abs u) \<and>
    (case r of
       Ok m' \<Rightarrow> stop_spec m a = (m', b)
     | Err e \<Rightarrow> b = a \<or> b = snd (stop_spec m a)
     | Panic p \<Rightarrow> False))"
proof -
  have "effective P (stop_moment m) s r u"
    by (rule stop_effective [OF assms(2,1,3)])
  then show ?thesis
    by (cases r) (auto simp: effective_def)
qed

theorem db_stop_linearizable_witness:
  "let s = example_db (renewed_cert Updating) []; P = (\<lambda>d. d = registered_between);
       m = (renewed_cert Updating)\<lparr>c_cert := Some ''new''\<rparr> in
   \<exists>u. interleaved (other_request P) (stop_script m) s (Ok (m\<lparr>c_state := State_Ok\<rparr>)) u \<and>
     (\<exists>a b. grows P (tables_abs s) a \<and> grows P b (tables_abs u) \<and>
       stop_spec m a = (m\<lparr>c_state := State_Ok\<rparr>, b))"
proof -
  let ?s = "example_db (renewed_cert Updating) []" and ?P = "\<lambda>d. d = registered_between"
  let ?m = "(renewed_cert Updating)\<lparr>c_cert := Some ''new''\<rparr>"
  let ?k = "\<lambda>r. case r of
       Ok x \<Rightarrow> ask id (Q_select_cert (reply_tx x)) (\<lambda>found. stop_writes ?m (reply_tx x) (reply_cert found))
     | Err e \<Rightarrow> Done (Err (id e))
     | Panic p \<Rightarrow> Done (Panic p)"
  let ?last = "run_script (?k (Ok (R_tx []))) (snd (db_create_domain registered_between ?s))"
  have ok: "tables_ok ?s"
    by (rule example_db_ok) (simp add: renewed_cert_def)
  have serve: "serve Q_begin ?s = (Ok (R_tx []), ?s)"
    by (simp add: replying_def pool_begin_def request_def bind_op_def ret_def example_db_def)
  have run: "interleaved (other_request ?P) (stop_script ?m) ?s (fst ?last) (snd ?last)"
    unfolding stop_script_def ask_def [of id Q_begin]
    by (rule registration_between [OF serve]) (simp add: example_db_def)
  have "fst ?last = Ok (?m\<lparr>c_state := State_Ok\<rparr>)"
    by code_simp
  then have run: "interleaved (other_request ?P) (stop_script ?m) ?s (Ok (?m\<lparr>c_state := State_Ok\<rparr>)) (snd ?last)"
    using run by simp
  have "same_job ?m (tables_abs ?s)"
    by (simp add: same_job_def example_db_def renewed_cert_def first_value_def)
  then show ?thesis
    using db_stop_linearizable [OF ok run] run by (auto simp: Let_def)
qed

end
