(* ===== verification/Manager_Tasks.thy ===== *)
theory Manager_Tasks
  imports Cert_Manager Cert_Jobs
begin

text \<open>
  \<^verbatim>\<open>manage\<close> of \<^verbatim>\<open>src/cert.rs\<close>, with \<^verbatim>\<open>validate\<close> inside it, cut where it uses the facade or waits for the
  ACME server, so that DNS queries, TLS connections and registrations can come between. Every piece makes
  at most one request to the facade. Run without interruption the pieces are \<^verbatim>\<open>manage\<close>, and every piece
  is a step of a certificate job as \<open>Cert_Jobs\<close> has them, or a read.
\<close>

section \<open>The task in pieces\<close>

text \<open>
  The task asks for a job, looks for the job's domain, opens an order, and then goes round: it looks
  whether the order is confirmed, publishes the proof of a challenge and waits for the server to validate
  it. With a confirmed order it has downloaded the key and the certificate, and finishes the job.
\<close>

datatype manager_task = Starting env | Finding cert | Ordering cert domain | Confirming cert domain
  | Publishing cert domain string | Awaiting cert domain string | Stopping cert "string \<times> string"
  | Managed "(any_err, unit) outcome"

definition with_keys :: "cert \<Rightarrow> string \<times> string \<Rightarrow> cert" where
  "with_keys c kc = c\<lparr>c_private := Some (fst kc), c_cert := Some (snd kc)\<rparr>"

text \<open>What the next piece does with the outcome of the last: a failure ends the task.\<close>

definition go_on :: "('a \<Rightarrow> manager_task) \<Rightarrow> (any_err, 'a) outcome \<times> 's \<Rightarrow> manager_task \<times> 's" where
  "go_on f = (\<lambda>(r, t). (case r of Ok a \<Rightarrow> f a | Err e \<Rightarrow> Managed (Err e) | Panic p \<Rightarrow> Managed (Panic p), t))"

text \<open>On the blocking pool, a panic reaches the task as a join error.\<close>

definition joining :: "(any_err, 'a) outcome \<times> 's \<Rightarrow> (any_err, 'a) outcome \<times> 's" where
  "joining = (\<lambda>(r, t). (joined r, t))"

fun manager_step :: "'w acme \<Rightarrow> ('s, 'm) facade_scheme \<Rightarrow> manager_task \<Rightarrow> 's \<times> 'w \<Rightarrow> manager_task \<times> 's \<times> 'w" where
  "manager_step A F (Starting env) sw =
     go_on (\<lambda>started. case started of None \<Rightarrow> Managed (Ok ()) | Some memory_cert \<Rightarrow> Finding memory_cert)
       (on_facade (start_cert F env) sw)"
| "manager_step A F (Finding memory_cert) sw =
     go_on (Ordering memory_cert)
       (bind_op (on_facade (map_err_op A_Sqlx (find_domain_by_id F (c_domain memory_cert)))) (\<lambda>found.
          lift_outcome (ok_or (A_Msg (''Could not find domain: '' @ c_domain memory_cert)) found)) sw)"
| "manager_step A F (Ordering memory_cert domain) sw =
     go_on (\<lambda>_. Confirming memory_cert domain)
       (joining (bind_op (on_acme (account A ''acme-dns-rust@byom.de'')) (\<lambda>_.
          on_acme (new_order A ''acme.conblem.me'' [])) sw))"
| "manager_step A F (Confirming memory_cert domain) sw =
     (if confirm_validations A (snd sw) then
        go_on (Stopping memory_cert)
          (joining (bind_op (on_acme (finalize_pkey A 5000)) (\<lambda>_. on_acme (download_and_save_cert A)) sw))
      else
        go_on (Publishing memory_cert domain)
          (joining (bind_op (on_acme (authorizations A)) (\<lambda>auths.
             lift_outcome (ok_or (A_Msg ''couldn't unpack auths'')
               (case auths of [] \<Rightarrow> None | chall # _ \<Rightarrow> Some chall))) sw)))"
| "manager_step A F (Publishing memory_cert domain chall) sw =
     go_on (\<lambda>_. Awaiting memory_cert domain chall)
       (joining (on_facade (map_err_op A_Sqlx
          (update_domain F (domain\<lparr>d_txt := Some (dns_proof A (snd sw) chall)\<rparr>))) sw))"
| "manager_step A F (Awaiting memory_cert domain chall) sw =
     go_on (\<lambda>_. Confirming memory_cert domain)
       (joining (bind_op (on_acme (chall_validate A chall 5000)) (\<lambda>_. on_acme (refresh A)) sw))"
| "manager_step A F (Stopping memory_cert kc) sw =
     go_on (\<lambda>_. Managed (Ok ()))
       (on_facade (map_err_op A_Sqlx (stop_cert F (with_keys memory_cert kc))) sw)"
| "manager_step A F (Managed r) sw = (Managed r, sw)"

fun manager_run :: "nat \<Rightarrow> 'w acme \<Rightarrow> ('s, 'm) facade_scheme \<Rightarrow> manager_task \<Rightarrow> 's \<times> 'w \<Rightarrow> manager_task \<times> 's \<times> 'w" where
  "manager_run 0 A F k sw = (k, sw)"
| "manager_run (Suc n) A F k sw = (case manager_step A F k sw of (k', sw') \<Rightarrow> manager_run n A F k' sw')"

section \<open>The pieces are \<open>manage\<close>\<close>

text \<open>What is left of \<^verbatim>\<open>manage\<close> at each piece.\<close>

definition stop_rest :: "('s, 'm) facade_scheme \<Rightarrow> cert \<Rightarrow> ('s \<times> 'w, any_err, unit) dop" where
  "stop_rest F cert = bind_dop (returns (on_facade (map_err_op A_Sqlx (stop_cert F cert)))) (\<lambda>_. returns (ret ()))"

definition blocking_rest :: "('s, 'm) facade_scheme \<Rightarrow> ('s \<times> 'w, any_err, cert) dop \<Rightarrow> ('s \<times> 'w, any_err, unit) dop" where
  "blocking_rest F m = bind_dop (spawn_blocking m) (stop_rest F)"

text \<open>A round of the loop, from the authorizations on.\<close>

definition round_rest :: "'w acme \<Rightarrow> ('s, 'm) facade_scheme \<Rightarrow> cert \<Rightarrow> domain \<Rightarrow> string \<Rightarrow> ('s \<times> 'w, any_err, cert) dop" where
  "round_rest A F c d chall =
     bind_dop (returns (\<lambda>sw. on_facade (map_err_op A_Sqlx
       (update_domain F (d\<lparr>d_txt := Some (dns_proof A (snd sw) chall)\<rparr>))) sw)) (\<lambda>_.
     bind_dop (returns (bind_op (on_acme (chall_validate A chall 5000)) (\<lambda>_. on_acme (refresh A)))) (\<lambda>_.
     validate A F c d))"

fun manage_rest :: "'w acme \<Rightarrow> ('s, 'm) facade_scheme \<Rightarrow> manager_task \<Rightarrow> ('s \<times> 'w, any_err, unit) dop" where
  "manage_rest A F (Starting env) = manage A F env"
| "manage_rest A F (Finding c) =
     bind_dop (returns (on_facade (map_err_op A_Sqlx (find_domain_by_id F (c_domain c))))) (\<lambda>found.
     bind_dop (returns (lift_outcome (ok_or (A_Msg (''Could not find domain: '' @ c_domain c)) found))) (\<lambda>d.
     blocking_rest F (issue A F c d)))"
| "manage_rest A F (Ordering c d) = blocking_rest F (issue A F c d)"
| "manage_rest A F (Confirming c d) = blocking_rest F (validate A F c d)"
| "manage_rest A F (Publishing c d chall) = blocking_rest F (round_rest A F c d chall)"
| "manage_rest A F (Awaiting c d chall) =
     blocking_rest F (bind_dop (returns (bind_op (on_acme (chall_validate A chall 5000)) (\<lambda>_. on_acme (refresh A)))) (\<lambda>_.
     validate A F c d))"
| "manage_rest A F (Stopping c kc) = stop_rest F (with_keys c kc)"
| "manage_rest A F (Managed r) = (\<lambda>sw. Some (r, sw))"

lemma bind_dop_returns_run:
  "bind_dop (returns m) f s = (case m s of (Ok a, t) \<Rightarrow> f a t | (Err e, t) \<Rightarrow> Some (Err e, t) | (Panic p, t) \<Rightarrow> Some (Panic p, t))"
  by (simp add: bind_dop_def returns_def split: prod.split)

lemma manage_unfold:
  "manage A F env = bind_dop (returns (on_facade (start_cert F env))) (\<lambda>started.
     manage_rest A F (case started of None \<Rightarrow> Managed (Ok ()) | Some c \<Rightarrow> Finding c))"
proof -
  have rest: "(case started of None \<Rightarrow> returns (ret ()) | Some c \<Rightarrow>
      bind_dop (returns (on_facade (map_err_op A_Sqlx (find_domain_by_id F (c_domain c))))) (\<lambda>found.
      bind_dop (returns (lift_outcome (ok_or (A_Msg (''Could not find domain: '' @ c_domain c)) found))) (\<lambda>d.
      bind_dop (spawn_blocking (issue A F c d)) (\<lambda>cert.
      bind_dop (returns (on_facade (map_err_op A_Sqlx (stop_cert F cert)))) (\<lambda>_. returns (ret ()))))))
    = manage_rest A F (case started of None \<Rightarrow> Managed (Ok ()) | Some c \<Rightarrow> Finding c)" for started
    by (cases started) (simp_all add: returns_def ret_def blocking_rest_def stop_rest_def [abs_def])
  show ?thesis
    unfolding manage_def
    by (rule arg_cong [where f = "bind_dop (returns (on_facade (start_cert F env)))"], rule ext, rule rest)
qed

text \<open>Each piece followed by the rest after it is the rest before it: first on the task itself.\<close>

lemma plain_piece:
  assumes "go_on f (m sw) = (k, sw')" and "\<And>a. manage_rest A F (f a) = g a"
  shows "manage_rest A F k sw' = bind_dop (returns m) g sw"
  using assms by (cases "m sw"; cases "fst (m sw)") (auto simp: go_on_def bind_dop_returns_run)

lemma blocking_rest_fails:
  "m sw = Some (Err e, t) \<Longrightarrow> blocking_rest F m sw = Some (Err e, t)"
  "m sw = Some (Panic p, t) \<Longrightarrow> blocking_rest F m sw = Some (Err (A_Join p), t)"
  by (simp_all add: blocking_rest_def bind_dop_def spawn_blocking_def joined_def)

lemma blocking_rest_cong: "m sw = m' sw' \<Longrightarrow> blocking_rest F m sw = blocking_rest F m' sw'"
  by (simp add: blocking_rest_def bind_dop_def spawn_blocking_def)

text \<open>A piece on the blocking pool.\<close>

lemma blocking_piece:
  assumes "go_on f (joining (m sw)) = (k, sw')" and "\<And>a. manage_rest A F (f a) = blocking_rest F (g a)"
  shows "manage_rest A F k sw' = blocking_rest F (bind_dop (returns m) g) sw"
proof -
  obtain r t where m: "m sw = (r, t)" by (cases "m sw")
  show ?thesis
  proof (cases r)
    case (Ok a)
    then have "k = f a" "sw' = t" and "bind_dop (returns m) g sw = g a t"
      using assms(1) m by (simp_all add: go_on_def joining_def joined_def bind_dop_returns_run)
    then show ?thesis
      using assms(2) blocking_rest_cong by metis
  next
    case (Err e)
    then show ?thesis
      using assms(1) m blocking_rest_fails(1) [of "bind_dop (returns m) g" sw e t F]
      by (auto simp: go_on_def joining_def joined_def bind_dop_returns_run)
  next
    case (Panic p)
    then show ?thesis
      using assms(1) m blocking_rest_fails(2) [of "bind_dop (returns m) g" sw p t F]
      by (auto simp: go_on_def joining_def joined_def bind_dop_returns_run)
  qed
qed

lemma bind_dop_bind_op:
  "bind_dop (returns (bind_op m f)) g = bind_dop (returns m) (\<lambda>a. bind_dop (returns (f a)) g)"
  by (rule ext) (simp add: bind_dop_returns_run bind_op_def split: prod.split outcome.split)

lemma validate_confirmed:
  assumes "confirm_validations A (snd sw)"
  shows "validate A F c d sw = bind_dop (returns (bind_op (on_acme (finalize_pkey A 5000)) (\<lambda>_.
    on_acme (download_and_save_cert A)))) (\<lambda>kc. returns (ret (with_keys c kc))) sw"
  using assms
  by (simp add: validate_def with_keys_def bind_dop_bind_op bind_dop_def [of "validate_loop A F d"] validate_loop.simps
      case_prod_unfold)

lemma validate_round:
  assumes "\<not> confirm_validations A (snd sw)"
  shows "validate A F c d sw = bind_dop (returns (bind_op (on_acme (authorizations A)) (\<lambda>auths.
    lift_outcome (ok_or (A_Msg ''couldn't unpack auths'')
      (case auths of [] \<Rightarrow> None | chall # _ \<Rightarrow> Some chall))))) (round_rest A F c d) sw"
proof -
  have loop: "validate_loop A F d sw = bind_dop (returns (challenge_round A F d)) (\<lambda>_. validate_loop A F d) sw"
    using assms by (simp add: validate_loop.simps [of A F d sw] bind_dop_returns_run)
  have "validate A F c d sw = bind_dop (returns (challenge_round A F d)) (\<lambda>_. validate A F c d) sw"
    unfolding validate_def bind_dop_def [of "validate_loop A F d"] loop
    by (simp add: bind_dop_returns_run split: prod.split outcome.split)
  then show ?thesis
    by (simp add: challenge_round_def bind_dop_bind_op round_rest_def [abs_def] case_prod_unfold)
qed

lemma rest_step:
  assumes "manager_step A F k sw = (k', sw')"
  shows "manage_rest A F k' sw' = manage_rest A F k sw"
proof (cases k)
  case (Starting env)
  then show ?thesis
    using assms unfolding manage_rest.simps manage_unfold Starting
    by (simp only: manager_step.simps) (erule plain_piece, simp split: option.split)
next
  case (Finding c)
  have "manage_rest A F k' sw' = bind_dop (returns (bind_op (on_facade (map_err_op A_Sqlx
      (find_domain_by_id F (c_domain c)))) (\<lambda>found.
      lift_outcome (ok_or (A_Msg (''Could not find domain: '' @ c_domain c)) found))))
      (\<lambda>d. blocking_rest F (issue A F c d)) sw"
    by (rule plain_piece [where f = "Ordering c"]) (use assms Finding in simp_all)
  then show ?thesis
    using Finding by (simp add: bind_dop_bind_op)
next
  case (Ordering c d)
  have "manage_rest A F k' sw' = blocking_rest F (bind_dop (returns (bind_op (on_acme (account A ''acme-dns-rust@byom.de''))
      (\<lambda>_. on_acme (new_order A ''acme.conblem.me'' [])))) (\<lambda>_. validate A F c d)) sw"
    by (rule blocking_piece [where f = "\<lambda>_. Confirming c d"]) (use assms Ordering in simp_all)
  then show ?thesis
    using Ordering by (simp add: bind_dop_bind_op issue_def)
next
  case (Confirming c d)
  show ?thesis
  proof (cases "confirm_validations A (snd sw)")
    case True
    have "manage_rest A F k' sw' = blocking_rest F (bind_dop (returns (bind_op (on_acme (finalize_pkey A 5000)) (\<lambda>_.
        on_acme (download_and_save_cert A)))) (\<lambda>kc. returns (ret (with_keys c kc)))) sw"
      by (rule blocking_piece [where f = "Stopping c"])
        (use assms Confirming True in \<open>simp_all add: fun_eq_iff blocking_rest_def bind_dop_def spawn_blocking_def returns_def ret_def joined_def\<close>)
    also have "\<dots> = blocking_rest F (validate A F c d) sw"
      by (rule blocking_rest_cong, rule validate_confirmed [OF True, symmetric])
    finally show ?thesis
      by (simp only: Confirming manage_rest.simps)
  next
    case False
    have "manage_rest A F k' sw' = blocking_rest F (bind_dop (returns (bind_op (on_acme (authorizations A)) (\<lambda>auths.
        lift_outcome (ok_or (A_Msg ''couldn't unpack auths'')
          (case auths of [] \<Rightarrow> None | chall # _ \<Rightarrow> Some chall))))) (round_rest A F c d)) sw"
      by (rule blocking_piece [where f = "Publishing c d"]) (use assms Confirming False in simp_all)
    also have "\<dots> = blocking_rest F (validate A F c d) sw"
      by (rule blocking_rest_cong, rule validate_round [OF False, symmetric])
    finally show ?thesis
      by (simp only: Confirming manage_rest.simps)
  qed
next
  case (Publishing c d chall)
  have "manage_rest A F k' sw' = blocking_rest F (round_rest A F c d chall) sw"
    unfolding round_rest_def by (rule blocking_piece [where f = "\<lambda>_. Awaiting c d chall"]) (use assms Publishing in simp_all)
  then show ?thesis
    using Publishing by simp
next
  case (Awaiting c d chall)
  show ?thesis
    unfolding Awaiting manage_rest.simps
    by (rule blocking_piece [where f = "\<lambda>_. Confirming c d"]) (use assms Awaiting in simp_all)
next
  case (Stopping c kc)
  show ?thesis
    unfolding Stopping manage_rest.simps stop_rest_def
    by (rule plain_piece [where f = "\<lambda>_. Managed (Ok ())"]) (use assms Stopping in \<open>simp_all add: returns_def ret_def\<close>)
next
  case (Managed r)
  then show ?thesis
    using assms by simp
qed

lemma rest_run: "manager_run n A F k sw = (k', sw') \<Longrightarrow> manage_rest A F k' sw' = manage_rest A F k sw"
proof (induction n arbitrary: k sw)
  case 0
  then show ?case by simp
next
  case (Suc n)
  obtain k1 sw1 where step: "manager_step A F k sw = (k1, sw1)"
    by (cases "manager_step A F k sw")
  then show ?case
    using Suc rest_step [OF step] by simp
qed

text \<open>The task ends, if the loop of \<^verbatim>\<open>validate\<close> ends.\<close>

definition ends_from :: "'w acme \<Rightarrow> ('s, 'm) facade_scheme \<Rightarrow> manager_task \<Rightarrow> 's \<times> 'w \<Rightarrow> bool" where
  "ends_from A F k sw \<longleftrightarrow> (\<exists>n r sw'. manager_run n A F k sw = (Managed r, sw'))"

lemma ends_managed [simp]: "ends_from A F (Managed r) sw"
  unfolding ends_from_def by (intro exI [of _ 0]) simp

lemma ends_step: "manager_step A F k sw = (k', sw') \<Longrightarrow> ends_from A F k' sw' \<Longrightarrow> ends_from A F k sw"
  unfolding ends_from_def by (metis case_prod_conv manager_run.simps(2))

lemma go_on_cases:
  assumes "go_on f x = (k, t)"
  obtains (next_piece) a where "x = (Ok a, t)" and "k = f a"
    | (failed) r where "k = Managed r"
  using assms by (cases x; cases "fst x") (auto simp: go_on_def)

lemma go_on_ends:
  assumes "manager_step A F k sw = go_on f x" and "\<And>a t. x = (Ok a, t) \<Longrightarrow> ends_from A F (f a) t"
  shows "ends_from A F k sw"
proof -
  obtain k' t where step: "go_on f x = (k', t)"
    by (cases "go_on f x")
  then have "ends_from A F k' t"
    by (rule go_on_cases) (use assms(2) in auto)
  then show ?thesis
    using ends_step [of A F k sw k' t] assms(1) step by simp
qed

lemma joining_Ok [simp]: "joining x = (Ok a, t) \<longleftrightarrow> x = (Ok a, t)"
  by (cases x; cases "fst x") (auto simp: joining_def joined_def)

lemma round_pieces:
  assumes "bind_op (on_acme (authorizations A)) (\<lambda>auths. lift_outcome (ok_or (A_Msg ''couldn't unpack auths'')
      (case auths of [] \<Rightarrow> None | chall # _ \<Rightarrow> Some chall))) sw = (Ok chall, sw1)"
    and "on_facade (map_err_op A_Sqlx (update_domain F (d\<lparr>d_txt := Some (dns_proof A (snd sw1) chall)\<rparr>))) sw1 = (Ok u, sw2)"
    and "bind_op (on_acme (chall_validate A chall 5000)) (\<lambda>_. on_acme (refresh A)) sw2 = (Ok u', sw3)"
  shows "challenge_round A F d sw = (Ok (), sw3)"
proof -
  obtain auths where "on_acme (authorizations A) sw = (Ok auths, sw1)"
    "lift_outcome (ok_or (A_Msg ''couldn't unpack auths'') (case auths of [] \<Rightarrow> None | chall # _ \<Rightarrow> Some chall)) sw1
      = (Ok chall, sw1)"
    using assms(1) by (elim bind_op_OkE) (auto simp: lift_outcome_def)
  then show ?thesis
    using assms(2,3) unfolding challenge_round_def by (simp add: op_simps case_prod_unfold)
qed

lemma confirming_ends: "rounds n A F d sw \<noteq> None \<Longrightarrow> ends_from A F (Confirming c d) sw"
proof (induction n arbitrary: sw)
  case (0 sw)
  then have "confirm_validations A (snd sw)"
    by (simp add: rounds.simps [of 0] split: if_splits)
  then show ?case
    by (intro go_on_ends [OF manager_step.simps(4) [THEN trans, OF if_P]] go_on_ends [OF manager_step.simps(7)]) simp_all
next
  case (Suc n)
  show ?case
  proof (cases "confirm_validations A (snd sw)")
    case True
    then show ?thesis
      by (intro go_on_ends [OF manager_step.simps(4) [THEN trans, OF if_P]] go_on_ends [OF manager_step.simps(7)]) simp_all
  next
    case False
    show ?thesis
    proof (intro go_on_ends [OF manager_step.simps(4) [THEN trans, OF if_not_P [OF False]]]
        go_on_ends [OF manager_step.simps(5)] go_on_ends [OF manager_step.simps(6)])
      fix chall sw1 u sw2 u' sw3
      assume pieces: "joining (bind_op (on_acme (authorizations A)) (\<lambda>auths. lift_outcome (ok_or (A_Msg ''couldn't unpack auths'')
          (case auths of [] \<Rightarrow> None | chall # _ \<Rightarrow> Some chall))) sw) = (Ok chall, sw1)"
        "joining (on_facade (map_err_op A_Sqlx (update_domain F (d\<lparr>d_txt := Some (dns_proof A (snd sw1) chall)\<rparr>))) sw1)
          = (Ok u, sw2)"
        "joining (bind_op (on_acme (chall_validate A chall 5000)) (\<lambda>_. on_acme (refresh A)) sw2) = (Ok u', sw3)"
      have "challenge_round A F d sw = (Ok (), sw3)"
        by (rule round_pieces; rule joining_Ok [THEN iffD1]; rule pieces)
      then have "rounds n A F d sw3 \<noteq> None"
        using Suc.prems False by (simp add: rounds_Suc_step)
      then show "ends_from A F (Confirming c d) sw3"
        by (rule Suc.IH)
    qed
  qed
qed

lemma rest_ends:
  assumes "manager_step A F k sw = go_on f x" and "manage_rest A F k sw \<noteq> None"
    and "\<And>a t. manage_rest A F (f a) t \<noteq> None \<Longrightarrow> ends_from A F (f a) t"
  shows "ends_from A F k sw"
proof (rule go_on_ends [OF assms(1)])
  fix a t
  assume "x = (Ok a, t)"
  then have "manager_step A F k sw = (f a, t)"
    using assms(1) by (simp add: go_on_def)
  then show "ends_from A F (f a) t"
    using rest_step assms(2,3) by metis
qed

lemma confirming_rest_ends:
  assumes "manage_rest A F (Confirming c d) sw \<noteq> None"
  shows "ends_from A F (Confirming c d) sw"
proof -
  have "validate_loop A F d sw \<noteq> None"
    by (rule notI) (use assms in \<open>simp add: blocking_rest_def bind_dop_def spawn_blocking_def validate_def\<close>)
  then show ?thesis
    using loop_rounds [of A F d sw] confirming_ends by fastforce
qed

lemma finding_rest_ends:
  assumes "manage_rest A F (Finding c) sw \<noteq> None"
  shows "ends_from A F (Finding c) sw"
  by (rule rest_ends [OF manager_step.simps(2) assms], rule rest_ends [OF manager_step.simps(3)], assumption,
      rule confirming_rest_ends)

lemma manage_ends:
  assumes "manage A F env sw \<noteq> None"
  shows "ends_from A F (Starting env) sw"
proof (rule rest_ends [OF manager_step.simps(1)])
  show "manage_rest A F (Starting env) sw \<noteq> None"
    using assms by simp
  fix started t
  assume "manage_rest A F (case started of None \<Rightarrow> Managed (Ok ()) | Some c \<Rightarrow> Finding c) t \<noteq> None"
  then show "ends_from A F (case started of None \<Rightarrow> Managed (Ok ()) | Some c \<Rightarrow> Finding c) t"
    using finding_rest_ends by (cases started) (simp_all del: manage_rest.simps)
qed

section \<open>Pieces and certificate jobs\<close>

text \<open>The job that the task holds.\<close>

fun held :: "manager_task \<Rightarrow> cert list" where
  "held (Finding c) = [c]"
| "held (Ordering c d) = [c]"
| "held (Confirming c d) = [c]"
| "held (Publishing c d chall) = [c]"
| "held (Awaiting c d chall) = [c]"
| "held (Stopping c kc) = [c]"
| "held _ = []"

text \<open>A step of a certificate job, or a read.\<close>

inductive job_or_read :: "('s, 'm) facade_scheme \<Rightarrow> 's job_config \<Rightarrow> 's job_config \<Rightarrow> bool" for F where
  job_moves: "job_step F x y \<Longrightarrow> job_or_read F x y"
| cert_asked: "first_cert F s = (q, t) \<Longrightarrow> job_or_read F (s, jobs) (t, jobs)"
| domain_asked: "find_domain_by_id F i s = (q', t) \<Longrightarrow> job_or_read F (s, jobs) (t, jobs)"

lemma with_keys_finished: "with_keys c kc = finished c (Some (snd kc)) (Some (fst kc))"
  by (simp add: with_keys_def finished_def)

lemma dropped: "held k = [c] \<or> held k = [] \<Longrightarrow> (job_or_read F)\<^sup>*\<^sup>* (s, c # js) (s, held k @ js)"
  using job_moves [OF give_up [of c "c # js" F s]] by auto

text \<open>The one request to the facade that a piece makes.\<close>

lemma manager_step_store:
  assumes "manager_step A F k (s, w) = (k', (t, v))"
  obtains (none) "t = s"
    | (starts) env r where "k = Starting env" and "start_cert F env s = (r, t)"
    | (finds) c r where "k = Finding c" and "find_domain_by_id F (c_domain c) s = (r, t)"
    | (publishes) c d chall r where "k = Publishing c d chall"
        and "update_domain F (d\<lparr>d_txt := Some (dns_proof A w chall)\<rparr>) s = (r, t)"
    | (stops) c kc r where "k = Stopping c kc" and "stop_cert F (with_keys c kc) s = (r, t)"
proof (cases k)
  case (Starting env)
  then show ?thesis
    using assms starts [of env "fst (start_cert F env s)"]
    by (cases "start_cert F env s") (simp add: go_on_def on_facade_def)
next
  case (Finding c)
  then show ?thesis
    using assms finds [of c "fst (find_domain_by_id F (c_domain c) s)"]
    by (cases "find_domain_by_id F (c_domain c) s")
      (auto simp: go_on_def on_facade_def map_err_op_def bind_op_def lift_outcome_def split: outcome.splits)
next
  case (Publishing c d chall)
  then show ?thesis
    using assms publishes [of c d chall "fst (update_domain F (d\<lparr>d_txt := Some (dns_proof A w chall)\<rparr>) s)"]
    by (cases "update_domain F (d\<lparr>d_txt := Some (dns_proof A w chall)\<rparr>) s")
      (simp add: go_on_def joining_def on_facade_def map_err_op_def)
next
  case (Stopping c kc)
  then show ?thesis
    using assms stops [of c kc "fst (stop_cert F (with_keys c kc) s)"]
    by (cases "stop_cert F (with_keys c kc) s") (simp add: go_on_def on_facade_def map_err_op_def)
qed (use assms none in \<open>auto simp: go_on_def joining_def on_acme_def bind_op_def lift_outcome_def
    split: outcome.splits prod.splits if_splits\<close>)

text \<open>
  What holds of the data at each piece of the only manager: the certificate is its job, the domain is the
  job's, and while the task waits for the server, the domain's record is exactly the proof; the key and the
  certificate are those of the last download.
\<close>

definition holds_job :: "astate \<Rightarrow> cert \<Rightarrow> bool" where
  "holds_job a c \<longleftrightarrow> a_cert a = Some c \<and> c_state c = Updating"

definition domain_there :: "astate \<Rightarrow> cert \<Rightarrow> domain \<Rightarrow> bool" where
  "domain_there a c d \<longleftrightarrow> d_id d = c_domain c \<and> (\<exists>txt. a_domains a (c_domain c) = Some (d\<lparr>d_txt := txt\<rparr>))"

fun manager_ok :: "'w acme \<Rightarrow> astate \<Rightarrow> 'w \<Rightarrow> manager_task \<Rightarrow> bool" where
  "manager_ok A a w (Finding c) \<longleftrightarrow> holds_job a c"
| "manager_ok A a w (Ordering c d) \<longleftrightarrow> holds_job a c \<and> domain_there a c d"
| "manager_ok A a w (Confirming c d) \<longleftrightarrow> holds_job a c \<and> domain_there a c d"
| "manager_ok A a w (Publishing c d chall) \<longleftrightarrow> holds_job a c \<and> domain_there a c d"
| "manager_ok A a w (Awaiting c d chall) \<longleftrightarrow> holds_job a c \<and> d_id d = c_domain c \<and>
     a_domains a (c_domain c) = Some (d\<lparr>d_txt := Some (dns_proof A w chall)\<rparr>)"
| "manager_ok A a w (Stopping c kc) \<longleftrightarrow> holds_job a c \<and> (\<exists>w1. download_and_save_cert A w1 = (Ok kc, w))"
| "manager_ok A a w _ \<longleftrightarrow> True"

lemma awaiting_there: "manager_ok A a w (Awaiting c d chall) \<Longrightarrow> domain_there a c d"
  by (auto simp: domain_there_def)

lemma acme_piece:
  assumes "go_on f (joining (bind_op (on_acme m) (\<lambda>a. on_acme (g a)) (s, w))) = (k, (t, v))"
    and "\<And>a. held (f a) = [c]"
  shows "t = s \<and> (held k = [c] \<or> held k = [])"
  using assms
  by (auto simp: go_on_def joining_def joined_def bind_op_def on_acme_def split: outcome.splits prod.splits)

lemma piece_jobs:
  assumes "manager_step A F k (s, w) = (k', (t, v))" and "manager_ok A a w k"
  shows "(job_or_read F)\<^sup>*\<^sup>* (s, held k @ js) (t, held k' @ js)"
proof (cases k)
  case (Starting env)
  obtain r u where start: "start_cert F env s = (r, u)"
    by (cases "start_cert F env s")
  then have "t = u" "held k' @ js = (case r of Ok (Some c) \<Rightarrow> c # js | _ \<Rightarrow> js)"
    using assms Starting by (auto simp: go_on_def on_facade_def split: outcome.splits option.splits)
  then show ?thesis
    using job_moves [OF job_step.start [OF start, of js]] Starting by auto
next
  case (Finding c)
  obtain r u where find: "find_domain_by_id F (c_domain c) s = (r, u)"
    by (cases "find_domain_by_id F (c_domain c) s")
  have "t = u" "held k' = [c] \<or> held k' = []"
    using assms Finding find
    by (auto simp: go_on_def on_facade_def map_err_op_def bind_op_def lift_outcome_def ok_or_def
        split: outcome.splits option.splits prod.splits)
  then show ?thesis
    using domain_asked [OF find, of "c # js"] dropped [of k' c F u js] Finding by (simp add: converse_rtranclp_into_rtranclp)
next
  case (Ordering c d)
  then show ?thesis
    using acme_piece [OF assms(1) [unfolded Ordering manager_step.simps], of c] dropped [of k' c F s js] by simp
next
  case (Confirming c d)
  have "t = s \<and> (held k' = [c] \<or> held k' = [])"
  proof (cases "confirm_validations A w")
    case True
    then show ?thesis
      using assms(1) acme_piece [of "Stopping c" "finalize_pkey A 5000" "\<lambda>_. download_and_save_cert A" s w k' t v c]
      by (simp add: Confirming)
  next
    case False
    then show ?thesis
      using assms(1)
      by (auto simp: Confirming go_on_def joining_def joined_def bind_op_def on_acme_def lift_outcome_def
          split: outcome.splits prod.splits)
  qed
  then show ?thesis
    using dropped [of k' c F s js] Confirming by simp
next
  case (Publishing c d chall)
  let ?d = "d\<lparr>d_txt := Some (dns_proof A w chall)\<rparr>"
  obtain r u where upd: "update_domain F ?d s = (r, u)"
    by (cases "update_domain F ?d s")
  have "t = u" "held k' = [c] \<or> held k' = []"
    using assms(1) Publishing upd
    by (auto simp: go_on_def joining_def joined_def on_facade_def map_err_op_def split: outcome.splits)
  moreover have "job_step F (s, c # js) (u, c # js)"
    by (rule job_step.challenge [OF _ _ upd, of c]) (use assms(2) Publishing in \<open>simp_all add: domain_there_def\<close>)
  then have "job_or_read F (s, c # js) (u, c # js)"
    by (rule job_moves)
  ultimately show ?thesis
    using dropped [of k' c F u js] Publishing by (simp add: converse_rtranclp_into_rtranclp)
next
  case (Awaiting c d chall)
  then show ?thesis
    using acme_piece [OF assms(1) [unfolded Awaiting manager_step.simps], of c] dropped [of k' c F s js] by simp
next
  case (Stopping c kc)
  obtain r u where stop: "stop_cert F (finished c (Some (snd kc)) (Some (fst kc))) s = (r, u)"
    by (cases "stop_cert F (finished c (Some (snd kc)) (Some (fst kc))) s")
  then have "t = u" "held k' = []"
    using assms(1) Stopping
    by (auto simp: with_keys_finished go_on_def on_facade_def map_err_op_def split: outcome.splits)
  then show ?thesis
    using job_moves [OF job_step.finish [OF _ stop, of "c # js"]] Stopping by auto
next
  case (Managed r)
  then show ?thesis
    using assms(1) by simp
qed

context facade_provider
begin

lemma job_or_read_ok: "job_or_read F x y \<Longrightarrow> config_ok x \<Longrightarrow> config_ok y"
proof (induction rule: job_or_read.induct)
  case (job_moves x y)
  then show ?case by (rule step_config_ok)
next
  case (cert_asked s q t jobs)
  then show ?case
    using first_frame [OF cert_asked.hyps] by (simp add: config_ok_def)
next
  case (domain_asked i s q' t jobs)
  then show ?case
    using find_frame [OF domain_asked.hyps] by (simp add: config_ok_def)
qed

lemma jobs_or_reads_ok: "(job_or_read F)\<^sup>*\<^sup>* x y \<Longrightarrow> config_ok x \<Longrightarrow> config_ok y"
  by (induction rule: rtranclp_induct) (auto intro: job_or_read_ok)

text \<open>The pieces keep what holds of the data.\<close>

lemma update_there:
  assumes "ok s" and "update_domain F (d\<lparr>d_txt := Some p\<rparr>) s = (r, t)" and "domain_there (abs s) c d" and "holds_job (abs s) c"
  shows "ok t \<and> holds_job (abs t) c \<and> domain_there (abs t) c d \<and>
    (\<forall>u. r = Ok u \<longrightarrow> a_domains (abs t) (c_domain c) = Some (d\<lparr>d_txt := Some p\<rparr>))"
proof -
  have id: "d_id d = c_domain c" "a_domains (abs s) (d_id (d\<lparr>d_txt := Some p\<rparr>)) \<noteq> None"
    using assms(3) by (auto simp: domain_there_def)
  have "abs t = add_domain (d\<lparr>d_txt := Some p\<rparr>) (abs s)" if "r = Ok u" for u
    using update_Ok [of "d\<lparr>d_txt := Some p\<rparr>" s u t] assms(1,2) id that by simp
  moreover have "abs t = abs s \<or> abs t = add_domain (d\<lparr>d_txt := Some p\<rparr>) (abs s)"
    using update_Ok [OF _ assms(1) id(2), of _ t] update_Err [OF _ assms(1) id(2), of _ t]
      update_Panic [OF _ assms(1), of "d\<lparr>d_txt := Some p\<rparr>" _ t] id(2) assms(2) by (cases r) auto
  ultimately show ?thesis
    using update_frame [OF assms(2,1) id(2)] assms(3,4) id(1)
    by (auto simp: holds_job_def domain_there_def)
qed

lemma start_piece:
  assumes "ok s" and "manager_step A F (Starting env) (s, w) = (k, (t, v))"
  shows "ok t \<and> v = w \<and> manager_ok A (abs t) w k"
proof -
  obtain r where start: "start_cert F env s = (r, t)" and k: "v = w" "k = fst (go_on (\<lambda>started. case started of
      None \<Rightarrow> Managed (Ok ()) | Some memory_cert \<Rightarrow> Finding memory_cert) (r, t))"
    using assms(2) by (cases "start_cert F env s") (auto simp: go_on_def on_facade_def)
  have "manager_ok A (abs t) w (Finding c)" if "r = Ok (Some c)" for c
    using start_spec_Some [of env "abs s" c "abs t"] start_Ok [of env s "Some c" t] start assms(1) that
    by (simp add: holds_job_def)
  then show ?thesis
    using start_frame [OF start assms(1)] k by (cases r) (auto simp: go_on_def split: option.split)
qed

lemma find_piece:
  assumes "ok s" and "holds_job (abs s) c" and "manager_step A F (Finding c) (s, w) = (k, (t, v))"
  shows "ok t \<and> v = w \<and> manager_ok A (abs t) w k"
proof -
  obtain r where find: "find_domain_by_id F (c_domain c) s = (r, t)"
    using assms(3) by (cases "find_domain_by_id F (c_domain c) s")
      (auto simp: go_on_def on_facade_def map_err_op_def bind_op_def lift_outcome_def ok_or_def
        split: outcome.splits option.splits)
  have t: "ok t" "abs t = abs s"
    using find_frame [OF find assms(1)] by simp_all
  have there: "domain_there (abs t) c d" if "r = Ok (Some d)" for d
  proof -
    have "a_domains (abs s) (c_domain c) = Some d"
      using find_Ok [of "c_domain c" s "Some d" t] find that assms(1) by simp
    then show ?thesis
      using a_wf_key [OF wf [OF assms(1)]] t(2) unfolding domain_there_def
      by (metis domain.surjective domain.update_convs(4))
  qed
  have "v = w \<and> ((\<exists>d. r = Ok (Some d) \<and> k = Ordering c d) \<or> (\<exists>q. k = Managed q))"
    using assms(3) find
    by (auto simp: go_on_def on_facade_def map_err_op_def bind_op_def lift_outcome_def ok_or_def
        split: outcome.splits option.splits)
  then show ?thesis
    using t there assms(2) by auto
qed

lemma acme_piece_ok:
  assumes "ok s" and "holds_job (abs s) c" and "domain_there (abs s) c d"
    and "k = Ordering c d \<or> k = Confirming c d \<or> (\<exists>chall. k = Awaiting c d chall)"
    and "manager_step A F k (s, w) = (k', (t, v))"
  shows "t = s \<and> manager_ok A (abs t) v k'"
  using assms(2-5)
  by (auto simp: go_on_def joining_def joined_def bind_op_def on_acme_def lift_outcome_def
      split: outcome.splits prod.splits if_splits) blast

lemma publish_piece:
  assumes "ok s" and "holds_job (abs s) c" and "domain_there (abs s) c d"
    and "manager_step A F (Publishing c d chall) (s, w) = (k, (t, v))"
  shows "ok t \<and> v = w \<and> manager_ok A (abs t) w k"
proof -
  obtain r where upd: "update_domain F (d\<lparr>d_txt := Some (dns_proof A w chall)\<rparr>) s = (r, t)"
      and k: "v = w" "(\<exists>u. r = Ok u \<and> k = Awaiting c d chall) \<or> (\<exists>q. k = Managed q)"
    using assms(4) by (cases "update_domain F (d\<lparr>d_txt := Some (dns_proof A w chall)\<rparr>) s")
      (auto simp: go_on_def joining_def joined_def on_facade_def map_err_op_def split: outcome.splits)
  then show ?thesis
    using update_there [OF assms(1) upd assms(3,2)] assms(3) by (auto simp: domain_there_def)
qed

lemma stop_piece:
  assumes "ok s" and "holds_job (abs s) c" and "manager_step A F (Stopping c kc) (s, w) = (k, (t, v))"
  shows "ok t \<and> v = w \<and> (\<exists>q. k = Managed q) \<and>
    (k = Managed (Ok ()) \<longrightarrow> a_cert (abs t) = Some ((with_keys c kc)\<lparr>c_state := State_Ok\<rparr>))"
proof -
  let ?m = "finished c (Some (snd kc)) (Some (fst kc))"
  obtain r where stop: "stop_cert F ?m s = (r, t)" and k: "v = w" "(\<exists>m. r = Ok m \<and> k = Managed (Ok ())) \<or>
      (\<exists>q. k = Managed q \<and> q \<noteq> Ok ())"
    using assms(3) by (cases "stop_cert F ?m s")
      (auto simp: go_on_def with_keys_finished on_facade_def map_err_op_def split: outcome.splits)
  have held: "a_cert (abs s) = Some c" "c_state c = Updating"
    using assms(2) by (simp_all add: holds_job_def)
  have "ok t"
    using stop_frame [OF stop assms(1)] held(1) by (simp add: same_job_def)
  moreover have "a_cert (abs t) = Some (?m\<lparr>c_state := State_Ok\<rparr>)" if "r = Ok m" for m
    using held_finish [OF assms(1) held, of "Some (snd kc)" "Some (fst kc)" m t] stop that by simp
  ultimately show ?thesis
    using k by (auto simp: with_keys_finished)
qed

lemma manager_step_ok:
  assumes "ok s" and "manager_ok A (abs s) w k" and "manager_step A F k (s, w) = (k', (t, v))"
  shows "ok t \<and> manager_ok A (abs t) v k'"
proof (cases k)
  case (Starting env)
  then show ?thesis
    using start_piece [OF assms(1), of A env w k' t v] assms(3) by simp
next
  case (Finding c)
  then show ?thesis
    using find_piece [OF assms(1), of c A w k' t v] assms(2,3) by simp
next
  case (Publishing c d chall)
  then show ?thesis
    using publish_piece [OF assms(1), of c d A chall w k' t v] assms(2,3) by simp
next
  case (Stopping c kc)
  then show ?thesis
    using stop_piece [OF assms(1), of c A kc w k' t v] assms(2,3) by auto
next
  case (Managed r)
  then show ?thesis
    using assms by auto
next
  case (Ordering c d)
  then show ?thesis
    using acme_piece_ok [OF assms(1), of c d k A w k' t v] assms by auto
next
  case (Confirming c d)
  then show ?thesis
    using acme_piece_ok [OF assms(1), of c d k A w k' t v] assms by auto
next
  case (Awaiting c d chall)
  then show ?thesis
    using acme_piece_ok [OF assms(1), of c d k A w k' t v] awaiting_there [of A "abs s" w c d chall] assms by auto
qed

end

section \<open>The pieces and the whole\<close>

text \<open>
  The pieces of the certificate manager are \<^verbatim>\<open>manage\<close>: over any facade and any ACME server, \<^verbatim>\<open>manage\<close>
  returns with an outcome in a state exactly if the pieces, run without interruption, end with this outcome
  in this state, and it runs forever exactly if the pieces never end.
\<close>

theorem manage_in_pieces:
  "(manage A F env sw = Some (r, sw') \<longleftrightarrow> (\<exists>n. manager_run n A F (Starting env) sw = (Managed r, sw'))) \<and>
   (manage A F env sw = None \<longleftrightarrow> (\<nexists>n q t. manager_run n A F (Starting env) sw = (Managed q, t)))"
proof -
  have run: "manage A F env sw = Some (q, t)" if "manager_run n A F (Starting env) sw = (Managed q, t)" for n q t
    using rest_run [OF that] by simp
  have "\<exists>n q t. manager_run n A F (Starting env) sw = (Managed q, t)" if "manage A F env sw \<noteq> None"
    using manage_ends [OF that] by (simp add: ends_from_def)
  then show ?thesis
    using run by (metis (no_types, lifting) not_Some_eq option.inject prod.inject)
qed

end
