(* ===== verification/Dns_Tasks.thy ===== *)
theory Dns_Tasks
  imports Dns_Authority Cert_Jobs
begin

text \<open>
  A DNS query (\<^verbatim>\<open>search\<close> of \<^verbatim>\<open>src/dns/authority.rs\<close>) cut where it awaits the facade: a challenge query makes
  two requests, for the certificate and then for its domain, and certificate jobs, registrations and
  other reads can come between them. A query alone does what \<open>search\<close> does, and an interleaved one is
  answered as if it had run at a single moment.
\<close>

section \<open>A query in steps\<close>

datatype 'e dns_task = Arrived | Asking_cert | Asking_domain cert | Asking_user bytes
  | Replied "('e, lookup_records) outcome"

text \<open>The rest of \<^verbatim>\<open>acme_challenge\<close>, when the certificate is there.\<close>

definition challenge_domain :: "'e lookup_errors \<Rightarrow> ('s, 'm) facade_scheme \<Rightarrow> dns_name \<Rightarrow> cert \<Rightarrow>
    ('s, 'e anyhow, lookup_records) op" where
  "challenge_domain E F name cert =
     bind_op (map_err_op (\<lambda>e. AnyOther (sqlx_text E e)) (find_domain_by_id F (c_domain cert))) (\<lambda>found.
     bind_op (lift_outcome (ok_or (AnyOther (''Domain not found '' @ c_domain cert)) found)) (\<lambda>domain.
     bind_op (lift_outcome (unwrap (d_txt domain))) (\<lambda>txt.
     ret (Lookup (from_rdata name 100 (RD_TXT [txt]))))))"

definition challenge_failed :: "'e lookup_errors \<Rightarrow> ('e anyhow, lookup_records) outcome \<Rightarrow> ('e, lookup_records) outcome" where
  "challenge_failed E r = map_err (\<lambda>e. error (err_text E) (err_from_io E) (InAnyhow e)) r"

fun query_step :: "dns_lib \<Rightarrow> 'e lookup_errors \<Rightarrow> ('s, 'm) facade_scheme \<Rightarrow> authority \<Rightarrow> dns_name \<Rightarrow> rtype \<Rightarrow>
    'e dns_task \<Rightarrow> 's \<Rightarrow> 'e dns_task \<times> 's" where
  "query_step L E F auth name query_type Arrived s =
     (if query_type = RT_SOA then Replied (Ok (soa_lookup auth))
      else case labels name of
        [] \<Rightarrow> Replied (Ok Lookup_Empty)
      | first # _ \<Rightarrow>
          if name_is_empty L name then Replied (Ok Lookup_Empty)
          else case lookup_pre L auth name query_type of
            Ok (Some pre) \<Rightarrow> Replied (Ok pre)
          | Panic p \<Rightarrow> Replied (Panic p)
          | _ \<Rightarrow> if first = ''_acme-challenge'' then Asking_cert else Asking_user first, s)"
| "query_step L E F auth name query_type Asking_cert s =
     (case first_cert F s of
        (Ok (Some cert), t) \<Rightarrow> (Asking_domain cert, t)
      | (Ok None, t) \<Rightarrow> (Replied (challenge_failed E (Err (AnyOther ''First cert not found''))), t)
      | (Err e, t) \<Rightarrow> (Replied (challenge_failed E (Err (AnyOther (sqlx_text E e)))), t)
      | (Panic p, t) \<Rightarrow> (Replied (Panic p), t))"
| "query_step L E F auth name query_type (Asking_domain cert) s =
     (case challenge_domain E F name cert s of (r, t) \<Rightarrow> (Replied (challenge_failed E r), t))"
| "query_step L E F auth name query_type (Asking_user first) s =
     (case search_domain E F name first s of (r, t) \<Rightarrow> (Replied r, t))"
| "query_step L E F auth name query_type (Replied r) s = (Replied r, s)"

fun query_run :: "nat \<Rightarrow> dns_lib \<Rightarrow> 'e lookup_errors \<Rightarrow> ('s, 'm) facade_scheme \<Rightarrow> authority \<Rightarrow> dns_name \<Rightarrow> rtype \<Rightarrow>
    'e dns_task \<Rightarrow> 's \<Rightarrow> 'e dns_task \<times> 's" where
  "query_run 0 L E F auth name qt k s = (k, s)"
| "query_run (Suc n) L E F auth name qt k s =
     (case query_step L E F auth name qt k s of (k', t) \<Rightarrow> query_run n L E F auth name qt k' t)"

text \<open>Without interruption three steps are a whole query.\<close>

lemma acme_challenge_steps:
  "query_run 2 L E F auth name qt Asking_cert s
    = (case map_err_op (\<lambda>e. error (err_text E) (err_from_io E) (InAnyhow e)) (acme_challenge E F name) s of
         (r, t) \<Rightarrow> (Replied r, t))"
proof -
  have "acme_challenge E F name = bind_op (map_err_op (\<lambda>e. AnyOther (sqlx_text E e)) (first_cert F)) (\<lambda>found.
     bind_op (lift_outcome (ok_or (AnyOther ''First cert not found'') found)) (challenge_domain E F name))"
    by (simp add: acme_challenge_def challenge_domain_def [abs_def])
  then show ?thesis
    by (auto simp: numeral_eq_Suc map_err_op_def bind_op_def lift_outcome_def ok_or_def challenge_failed_def
        split: prod.split outcome.split option.split)
qed

lemma replied_stays: "query_run n L E F auth name qt (Replied r) s = (Replied r, s)"
  by (induction n) simp_all

lemma query_alone:
  "query_run 3 L E F auth name qt Arrived s = (case search L E F auth name qt s of (r, t) \<Rightarrow> (Replied r, t))"
proof -
  obtain k where k: "query_step L E F auth name qt Arrived s = (k, s)" by simp
  then have run: "query_run 3 L E F auth name qt Arrived s = query_run 2 L E F auth name qt k s"
    by (simp add: numeral_eq_Suc del: query_step.simps)
  have user: "query_run 2 L E F auth name qt (Asking_user first) s
      = (case search_domain E F name first s of (r, t) \<Rightarrow> (Replied r, t))" for first
    by (simp add: numeral_eq_Suc split: prod.split)
  consider r where "k = Replied r" "search L E F auth name qt s = (r, s)"
    | "k = Asking_cert" "search L E F auth name qt
        = map_err_op (\<lambda>e. error (err_text E) (err_from_io E) (InAnyhow e)) (acme_challenge E F name)"
    | first where "k = Asking_user first" "search L E F auth name qt = search_domain E F name first"
    using k by (auto simp: search_def ret_def lift_outcome_def
        split: if_splits list.splits outcome.splits option.splits)
  then show ?thesis
    by cases (simp_all add: run replied_stays user acme_challenge_steps)
qed

section \<open>Interleaving\<close>

type_synonym ('s, 'e) query_state = "'s job_config \<times> 'e dns_task"

text \<open>
  One query from its arrival to its answer, the last state first. Before it is answered, certificate jobs
  and registrations make their steps, and other queries and connections read.
\<close>

inductive query_trace :: "dns_lib \<Rightarrow> 'e lookup_errors \<Rightarrow> ('s, 'm) facade_scheme \<Rightarrow> authority \<Rightarrow> dns_name \<Rightarrow> rtype \<Rightarrow>
    's job_config \<Rightarrow> ('s, 'e) query_state list \<Rightarrow> bool" for L E F auth name qt x where
  arrives: "query_trace L E F auth name qt x [(x, Arrived)]"
| proceeds: "query_trace L E F auth name qt x (((s, jobs), k) # xs) \<Longrightarrow> \<forall>r. k \<noteq> Replied r \<Longrightarrow>
    query_step L E F auth name qt k s = (k', t) \<Longrightarrow>
    query_trace L E F auth name qt x (((t, jobs), k') # ((s, jobs), k) # xs)"
| job: "query_trace L E F auth name qt x ((y, k) # xs) \<Longrightarrow> \<forall>r. k \<noteq> Replied r \<Longrightarrow> job_step F y z \<Longrightarrow>
    query_trace L E F auth name qt x ((z, k) # (y, k) # xs)"
| cert_read: "query_trace L E F auth name qt x (((s, jobs), k) # xs) \<Longrightarrow> \<forall>r. k \<noteq> Replied r \<Longrightarrow>
    first_cert F s = (q, t) \<Longrightarrow> query_trace L E F auth name qt x (((t, jobs), k) # ((s, jobs), k) # xs)"
| domain_read: "query_trace L E F auth name qt x (((s, jobs), k) # xs) \<Longrightarrow> \<forall>r. k \<noteq> Replied r \<Longrightarrow>
    find_domain_by_id F i s = (q', t) \<Longrightarrow> query_trace L E F auth name qt x (((t, jobs), k) # ((s, jobs), k) # xs)"

text \<open>What a query knows on its way: which part of the specification answers it, and the certificate's domain.\<close>

fun task_fits :: "dns_lib \<Rightarrow> 'e lookup_errors \<Rightarrow> authority \<Rightarrow> dns_name \<Rightarrow> rtype \<Rightarrow> 'e dns_task \<Rightarrow> astate \<Rightarrow> bool" where
  "task_fits L E auth name qt Arrived a = True"
| "task_fits L E auth name qt Asking_cert a = (\<forall>b. answer L E auth b name qt = challenge_answer E b name)"
| "task_fits L E auth name qt (Asking_domain c) a =
     ((\<forall>b. answer L E auth b name qt = challenge_answer E b name) \<and> job_known a c)"
| "task_fits L E auth name qt (Asking_user first) a =
     (\<forall>b. answer L E auth b name qt = domain_answer E b name first)"
| "task_fits L E auth name qt (Replied r) a = answers E r (answer L E auth a name qt)"

context facade_provider
begin

text \<open>The certificate keeps its identity and its domain.\<close>

lemma step_known: "job_step F x y \<Longrightarrow> config_ok x \<Longrightarrow> job_known (abs (fst x)) m \<Longrightarrow> job_known (abs (fst y)) m"
proof (induction rule: job_step.induct)
  case (start env s r t jobs)
  then show ?case
    using start_known [of s env r t m] by (simp add: config_ok_def)
next
  case (finish n jobs crt key s r t)
  then have "job_known (abs s) (finished n crt key)"
    by (simp add: config_ok_def)
  then show ?case
    using finish stop_known [of s "finished n crt key" r t m] by (simp add: config_ok_def)
next
  case (give_up n jobs s)
  then show ?case by simp
next
  case (challenge n jobs d s r t)
  then have "a_domains (abs s) (d_id d) \<noteq> None"
    using config_ok_domain [OF challenge.prems(1) challenge.hyps(1)] by simp
  then show ?case
    using challenge update_known [of s d r t m] by (simp add: config_ok_def)
next
  case (register d s r t jobs)
  then show ?case
    using create_known [of s d r t m] by (simp add: config_ok_def)
qed

lemma arrived_fits:
  assumes "query_step L E F auth name qt Arrived s = (k, t)"
  shows "t = s \<and> task_fits L E auth name qt k a"
  using assms by (auto simp: answer_def split: if_splits list.splits outcome.splits option.splits)

lemma cert_fits:
  assumes "ok s" and "task_fits L E auth name qt Asking_cert (abs s)"
    and "query_step L E F auth name qt Asking_cert s = (k, t)"
  shows "ok t \<and> abs t = abs s \<and> task_fits L E auth name qt k (abs t)"
proof -
  obtain q u where first: "first_cert F s = (q, u)" by fastforce
  have u: "ok u" "abs u = abs s" "\<And>c. q = Ok c \<Longrightarrow> a_cert (abs s) = c" "\<And>p. q \<noteq> Panic p"
    using first_frame [OF first assms(1)] first_Ok [of s _ u] first_Panic [of s _ u] first assms(1) by auto
  consider e where "q = Err e" | "q = Ok None" | c where "q = Ok (Some c)"
    using u(4) by (cases q) auto
  then show ?thesis
    using assms(2,3) first u(1-3)
    by cases (auto simp: challenge_failed_def answers_def io_err_def challenge_answer_def job_known_iff)
qed

lemma domain_fits:
  assumes "ok s" and "task_fits L E auth name qt (Asking_domain c) (abs s)"
    and "query_step L E F auth name qt (Asking_domain c) s = (k, t)"
  shows "ok t \<and> abs t = abs s \<and> task_fits L E auth name qt k (abs t)"
proof -
  obtain q u where find: "find_domain_by_id F (c_domain c) s = (q, u)" by fastforce
  have u: "ok u" "abs u = abs s" "\<And>d. q = Ok d \<Longrightarrow> a_domains (abs s) (c_domain c) = d" "\<And>p. q \<noteq> Panic p"
    using find_frame [OF find assms(1)] find_Ok [of _ s _ u] find_Panic [of _ s _ u] find assms(1) by auto
  obtain c' where c': "a_cert (abs s) = Some c'" "c_domain c' = c_domain c"
    using assms(2) by (auto simp: job_known_iff)
  have reply: "k = Replied (challenge_failed E (fst (challenge_domain E F name c s))) \<and> t = snd (challenge_domain E F name c s)"
    using assms(3) by (auto split: prod.splits)
  consider e where "q = Err e" | d where "q = Ok d"
    using u(4) by (cases q) auto
  then show ?thesis
  proof cases
    case 1
    then show ?thesis
      using reply find u(1,2) assms(2)
      by (auto simp: challenge_domain_def bind_op_def map_err_op_def challenge_failed_def answers_def io_err_def)
  next
    case (2 d)
    then show ?thesis
      using reply find u(1-3) assms(2) c'
      by (auto simp: challenge_domain_def bind_op_def map_err_op_def lift_outcome_def ret_def ok_or_def unwrap_def
          challenge_failed_def answers_def io_err_def challenge_answer_def split: option.splits)
  qed
qed

lemma query_step_fits:
  assumes "ok s" and "task_fits L E auth name qt k (abs s)" and "query_step L E F auth name qt k s = (k', t)"
  shows "ok t \<and> abs t = abs s \<and> task_fits L E auth name qt k' (abs t)"
proof (cases k)
  case Arrived
  then show ?thesis
    using arrived_fits assms by blast
next
  case (Asking_user first)
  obtain r u where "search_domain E F name first s = (r, u)" by fastforce
  then show ?thesis
    using domain_answers [OF assms(1), of E name first r u] assms Asking_user by auto
next
  case (Replied r)
  then show ?thesis using assms by auto
qed (use assms cert_fits domain_fits in blast)+

lemma query_trace_fits:
  "query_trace L E F auth name qt x xs \<Longrightarrow> config_ok x \<Longrightarrow>
    xs \<noteq> [] \<and> config_ok (fst (hd xs)) \<and> task_fits L E auth name qt (snd (hd xs)) (abs (fst (fst (hd xs))))"
proof (induction rule: query_trace.induct)
  case arrives
  then show ?case by simp
next
  case (proceeds s jobs k xs k' t)
  then show ?case
    using query_step_fits [of s L E auth name qt k k' t] by (auto simp: config_ok_def)
next
  case (job y k xs z)
  then show ?case
    using step_config_ok [OF job.hyps(3)] step_known [OF job.hyps(3)] by (cases k) auto
next
  case (cert_read s jobs k xs q t)
  then show ?case
    using first_frame [OF cert_read.hyps(3)] by (auto simp: config_ok_def)
next
  case (domain_read s jobs k xs i q t)
  then show ?case
    using find_frame [OF domain_read.hyps(3)] by (auto simp: config_ok_def)
qed

end

section \<open>The property\<close>

text \<open>
  C3: A DNS query on the database is answered as the data are at the moment its answer is complete,
  although a challenge query makes two requests: whatever certificate jobs, challenges, registrations and
  other reads come between its arrival and its answer, in any state that whole operations have reached,
  the answer is the specified one for the last state, or an error of the store.
\<close>

theorem db_query_linearizable:
  assumes "query_trace L E database_facade auth name qt x (((s, jobs), Replied r) # xs)"
    and "reachable database_facade (s0 :: db) x" and "tables_ok s0"
  shows "r = answer L E auth (tables_abs s) name qt \<or> (\<exists>e. r = Err (io_err E (sqlx_text E e)))"
  using database.query_trace_fits [OF assms(1) database.reachable_config_ok [OF assms(2,3)]]
  by (simp add: answers_def)

theorem db_query_linearizable_witness:
  "\<exists>s jobs xs. query_trace example_lib io_errors database_facade example_authority (example_name ''_acme-challenge'') RT_TXT
      (example_db (renewed_cert State_Ok) [], [])
      (((s, jobs), Replied (Ok (Lookup (from_rdata (example_name ''_acme-challenge'') 100 (RD_TXT [''proof'']))))) # xs) \<and>
    answer example_lib io_errors example_authority (tables_abs s) (example_name ''_acme-challenge'') RT_TXT
      = Ok (Lookup (from_rdata (example_name ''_acme-challenge'') 100 (RD_TXT [''proof''])))"
proof -
  let ?s0 = "example_db (renewed_cert State_Ok) []" and ?c = "renewed_cert Updating"
  let ?name = "example_name ''_acme-challenge''"
  let ?step = "query_step example_lib io_errors database_facade example_authority ?name RT_TXT"
  let ?trace = "query_trace example_lib io_errors database_facade example_authority ?name RT_TXT (?s0, [])"
  let ?d = "\<lparr>d_id = ''d'', d_username = ''u'', d_password = ''p'', d_txt = Some ''proof''\<rparr>"
  let ?r = "Ok (Lookup (from_rdata ?name 100 (RD_TXT [''proof'']))) :: (io_error, lookup_records) outcome"
  let ?s1 = "snd (?step Asking_cert ?s0)"
  let ?s2 = "snd (start_cert database_facade (db_env 0 9000) ?s1)"
  let ?s3 = "snd (update_domain database_facade ?d ?s2)"
  let ?s4 = "snd (?step (Asking_domain (renewed_cert State_Ok)) ?s3)"
  have ok: "tables_ok ?s0"
    by (rule example_db_ok) (simp add: renewed_cert_def)
  have firsts: "fst (?step Arrived ?s0) = Asking_cert" "fst (?step Asking_cert ?s0) = Asking_domain (renewed_cert State_Ok)"
    "fst (start_cert database_facade (db_env 0 9000) ?s1) = Ok (Some ?c)"
    "fst (?step (Asking_domain (renewed_cert State_Ok)) ?s3) = Replied ?r"
    by code_simp+
  have "snd (?step Arrived ?s0) = ?s0"
    by (simp only: query_step.simps snd_conv)
  then have runs: "?step Arrived ?s0 = (Asking_cert, ?s0)"
      "?step Asking_cert ?s0 = (Asking_domain (renewed_cert State_Ok), ?s1)"
      "start_cert database_facade (db_env 0 9000) ?s1 = (Ok (Some ?c), ?s2)"
      "?step (Asking_domain (renewed_cert State_Ok)) ?s3 = (Replied ?r, ?s4)"
    using with_fst [OF firsts(1)] with_fst [OF firsts(2)] with_fst [OF firsts(3)] with_fst [OF firsts(4)]
    by (simp_all only:)
  have jobs: "job_step database_facade (?s1, []) (?s2, [?c])"
    using job_step.start [OF runs(3), of "[]"] by simp
  have chall: "job_step database_facade (?s2, [?c]) (?s3, [?c])"
    by (rule job_step.challenge [of ?c _ ?d _ _ "fst (update_domain database_facade ?d ?s2)"])
      (simp_all add: renewed_cert_def)
  have "?trace (((?s0, []), Asking_cert) # [((?s0, []), Arrived)])"
    by (rule query_trace.proceeds [OF query_trace.arrives _ runs(1)]) simp
  then have "?trace (((?s1, []), Asking_domain (renewed_cert State_Ok)) # [((?s0, []), Asking_cert), ((?s0, []), Arrived)])"
    by (rule query_trace.proceeds [OF _ _ runs(2)]) simp
  from query_trace.job [OF query_trace.job [OF this _ jobs] _ chall]
  obtain ys where "?trace (((?s3, [?c]), Asking_domain (renewed_cert State_Ok)) # ys)"
    by blast
  then have "?trace (((?s4, [?c]), Replied ?r) # ((?s3, [?c]), Asking_domain (renewed_cert State_Ok)) # ys)"
    by (rule query_trace.proceeds [OF _ _ runs(4)]) simp
  then obtain xs where xs: "?trace (((?s4, [?c]), Replied ?r) # xs)" ..
  have "?r = answer example_lib io_errors example_authority (tables_abs ?s4) ?name RT_TXT \<or>
      (\<exists>e. ?r = Err (io_err io_errors (sqlx_text io_errors e)))"
    by (rule db_query_linearizable [OF xs reachable.init ok])
  then show ?thesis
    using xs by (metis outcome.distinct(1))
qed

end
