(* ===== verification/Api_Tls_Tasks.thy ===== *)
theory Api_Tls_Tasks
  imports Api_Tls Cert_Jobs
begin

text \<open>
  Many connections at once on \<^verbatim>\<open>load_cert\<close> of \<^verbatim>\<open>src/api/tls.rs\<close>: its body is cut where it awaits the
  facade or takes the lock of the cache, and the pieces of all open connections are interleaved with
  each other and with the certificate jobs. A connection alone does what \<open>load_cert\<close> does.
\<close>

section \<open>One connection in steps\<close>

text \<open>
  A connection asks the facade, compares the answer with the cache (under the read lock), makes a
  configuration (without a lock; if that fails, the cached one is read under the lock), and stores it
  (under the write lock). The configuration it then has is the one it offers.
\<close>

datatype tls_task = Asking | Comparing "(sqlx_error, cert option) outcome" | Creating cert
  | Storing cert server_config | Answered server_config | Panicked string

fun task_step :: "tls_lib \<Rightarrow> ('s, 'm) facade_scheme \<Rightarrow> tls_task \<Rightarrow> 's \<times> tls_cache \<Rightarrow> tls_task \<times> 's \<times> tls_cache" where
  "task_step T F Asking (s, cache) =
     (case first_cert F s of
        (Panic p, t) \<Rightarrow> (Panicked p, t, cache)
      | (r, t) \<Rightarrow> (Comparing r, t, cache))"
| "task_step T F (Comparing r) (s, cache) =
     (case r of
        Ok (Some c) \<Rightarrow> if same_cached c (fst cache) then Answered (snd cache) else Creating c
      | _ \<Rightarrow> Answered (snd cache), s, cache)"
| "task_step T F (Creating c) (s, cache) =
     (case create_server_config T c of
        Ok config \<Rightarrow> Storing c config
      | Err e \<Rightarrow> Answered (snd cache)
      | Panic p \<Rightarrow> Panicked p, s, cache)"
| "task_step T F (Storing c config) (s, cache) = (Answered config, s, (Some c, config))"
| "task_step T F (Answered config) x = (Answered config, x)"
| "task_step T F (Panicked p) x = (Panicked p, x)"

fun task_run :: "nat \<Rightarrow> tls_lib \<Rightarrow> ('s, 'm) facade_scheme \<Rightarrow> tls_task \<Rightarrow> 's \<times> tls_cache \<Rightarrow> tls_task \<times> 's \<times> tls_cache" where
  "task_run 0 T F k x = (k, x)"
| "task_run (Suc n) T F k x = (case task_step T F k x of (k', x') \<Rightarrow> task_run n T F k' x')"

fun task_outcome :: "tls_task \<Rightarrow> (any_err, server_config) outcome option" where
  "task_outcome (Answered config) = Some (Ok config)"
| "task_outcome (Panicked p) = Some (Panic p)"
| "task_outcome _ = None"

lemma task_alone:
  "(case task_run 4 T F Asking x of (k, y) \<Rightarrow> (task_outcome k, y))
     = (case load_cert T F x of (r, y) \<Rightarrow> (Some r, y))"
proof -
  obtain s cache where x: "x = (s, cache)" by (cases x)
  obtain r t where r: "first_cert F s = (r, t)" by fastforce
  consider c where "r = Ok (Some c)" "\<not> same_cached c (fst cache)"
    | c where "r = Ok (Some c)" "same_cached c (fst cache)" | "r = Ok None" | e where "r = Err e" | p where "r = Panic p"
    by (cases r; cases "case r of Ok x \<Rightarrow> x | _ \<Rightarrow> None") auto
  then show ?thesis
  proof cases
    case (1 c)
    then show ?thesis
      using x r by (cases "create_server_config T c") (simp_all add: numeral_eq_Suc load_cert_def)
  qed (use x r in \<open>simp_all add: numeral_eq_Suc load_cert_def\<close>)
qed

section \<open>A connection with its proxy future\<close>

text \<open>
  \<^verbatim>\<open>try_join!\<close> waits for the connection's own future and the acceptor together. When the connection fails
  after \<open>n\<close> pieces of the acceptor that have not ended it, the acceptor is dropped where it is: what it has
  read or cached stays, the rest is not run. In every other case the acceptor runs to its end, and with
  both results the handshake is made.
\<close>

definition tls_connection :: "tls_lib \<Rightarrow> ('s, 'm) facade_scheme \<Rightarrow> (server_config \<Rightarrow> 'c \<Rightarrow> (io_error, 't) outcome) \<Rightarrow>
    nat \<Rightarrow> (any_err, 'c) outcome \<Rightarrow> ('s \<times> tls_cache, any_err, 't) op" where
  "tls_connection T F handshake n conn = (\<lambda>x.
     (case task_run n T F Asking x of (k, y) \<Rightarrow>
        (case (task_outcome k, conn) of
           (None, Err e) \<Rightarrow> (Err e, y)
         | (None, Panic p) \<Rightarrow> (Panic p, y)
         | (ended, _) \<Rightarrow>
             (case load_cert T F x of (acceptor, z) \<Rightarrow> (tls_accept (Option.is_none ended) conn acceptor handshake, z)))))"

text \<open>\<^verbatim>\<open>wrap\<close> joins the stream of connections with the acceptor of the facade.\<close>

definition tls_wrap :: "tls_lib \<Rightarrow> ('s, 'm) facade_scheme \<Rightarrow> (server_config \<Rightarrow> 'c \<Rightarrow> (io_error, 't) outcome) \<Rightarrow>
    (io_error, nat \<times> (any_err, 'c) outcome) outcome list \<Rightarrow>
    (any_err, ('s \<times> tls_cache, any_err, 't) op) outcome list" where
  "tls_wrap T F handshake listener = wrap_higher listener (\<lambda>(n, conn). tls_connection T F handshake n conn)"

text \<open>An error is the connection's own or the handshake's.\<close>

lemma tls_accept_Err:
  assumes "tls_accept conn_first conn acceptor handshake = Err e" and "\<And>e'. acceptor \<noteq> Err e'"
  shows "conn = Err e \<or> (\<exists>c config io. conn = Ok c \<and> handshake config c = Err io \<and> e = A_Io io)"
proof -
  have handshake: "\<exists>config io. handshake config c = Err io \<and> e = A_Io io"
    if "map_err A_Io (handshake config c) = Err e" for config c
    using that by (cases "handshake config c") auto
  show ?thesis
    using assms by (cases acceptor; cases conn; cases conn_first) (auto simp: tls_accept_def dest: handshake)
qed

lemma tls_connection_Err:
  assumes "tls_connection T F handshake n conn x = (Err e, y)"
  shows "conn = Err e \<or> (\<exists>c config io. conn = Ok c \<and> handshake config c = Err io \<and> e = A_Io io)"
proof -
  obtain k z where k: "task_run n T F Asking x = (k, z)"
    by (cases "task_run n T F Asking x")
  obtain acceptor u where load: "load_cert T F x = (acceptor, u)"
    by (cases "load_cert T F x")
  have "acceptor \<noteq> Err e'" for e'
    using load load_cert_no_Err by metis
  then show ?thesis
    using assms k load tls_accept_Err [of _ conn acceptor handshake e]
    by (cases "task_outcome k"; cases conn) (auto simp: tls_connection_def)
qed

text \<open>A connection that does not fail by itself leaves the facade and the cache as \<^verbatim>\<open>load_cert\<close> does.\<close>

lemma tls_connection_state:
  "snd (tls_connection T F handshake n (Ok c) x) = snd (load_cert T F x)"
  by (auto simp: tls_connection_def split: prod.split option.split)

section \<open>Interleaving\<close>

type_synonym 's tls_state = "'s job_config \<times> tls_cache \<times> tls_task list"

inductive tls_step :: "tls_lib \<Rightarrow> ('s, 'm) facade_scheme \<Rightarrow> 's tls_state \<Rightarrow> 's tls_state \<Rightarrow> bool" for T F where
  connect: "tls_step T F (sj, cache, ks) (sj, cache, Asking # ks)"
| proceed: "i < length ks \<Longrightarrow> task_step T F (ks ! i) (s, cache) = (k, t, cache') \<Longrightarrow>
    tls_step T F ((s, jobs), cache, ks) ((t, jobs), cache', ks[i := k])"
| job: "job_step F sj sj' \<Longrightarrow> tls_step T F (sj, cache, ks) (sj', cache, ks)"

text \<open>A run, its last state first.\<close>

inductive tls_trace :: "tls_lib \<Rightarrow> ('s, 'm) facade_scheme \<Rightarrow> 's \<Rightarrow> 's tls_state list \<Rightarrow> bool" for T F s0 where
  begins: "tls_trace T F s0 [((s0, []), acceptor_new, [])]"
| continues: "tls_trace T F s0 (x # xs) \<Longrightarrow> tls_step T F x y \<Longrightarrow> tls_trace T F s0 (y # x # xs)"

text \<open>
  A schedule of connections: 0 opens one, and n + 1 lets the connection n proceed (the newest has
  number 0).
\<close>

fun scheduled :: "tls_lib \<Rightarrow> ('s, 'm) facade_scheme \<Rightarrow> nat list \<Rightarrow> 's \<times> tls_cache \<times> tls_task list \<Rightarrow>
    's \<times> tls_cache \<times> tls_task list" where
  "scheduled T F [] x = x"
| "scheduled T F (n # ns) (s, cache, ks) = scheduled T F ns
     (if n = 0 then (s, cache, Asking # ks)
      else if n \<le> length ks then (case task_step T F (ks ! (n - 1)) (s, cache) of
        (k, t, cache') \<Rightarrow> (t, cache', ks[n - 1 := k]))
      else (s, cache, ks))"

lemma scheduled_trace:
  "tls_trace T F s0 (((s, jobs), cache, ks) # xs) \<Longrightarrow>
    \<exists>ys. tls_trace T F s0 (((fst (scheduled T F ns (s, cache, ks)), jobs), snd (scheduled T F ns (s, cache, ks))) # ys)"
proof (induction ns arbitrary: s cache ks xs)
  case Nil
  then show ?case by auto
next
  case (Cons n ns)
  obtain k t cache' where step: "task_step T F (ks ! (n - 1)) (s, cache) = (k, t, cache')"
    using prod_cases3 by blast
  consider "n = 0" | "n \<noteq> 0" "n \<le> length ks" | "n \<noteq> 0" "\<not> n \<le> length ks" by blast
  then show ?case
  proof cases
    case 1
    then show ?thesis
      using Cons.IH [OF tls_trace.continues [OF Cons.prems connect]] by simp
  next
    case 2
    then have "n - 1 < length ks" by simp
    then show ?thesis
      using Cons.IH [OF tls_trace.continues [OF Cons.prems proceed [OF _ step]]] 2 step by simp
  next
    case 3
    then show ?thesis
      using Cons.IH [OF Cons.prems] by simp
  qed
qed

text \<open>The certificates that were stored at some time of a run.\<close>

definition stored_in :: "('s \<Rightarrow> astate) \<Rightarrow> 's tls_state list \<Rightarrow> cert set" where
  "stored_in reads xs = {c. \<exists>x \<in> set xs. a_cert (reads (fst (fst x))) = Some c}"

lemma stored_in_Cons:
  "stored_in reads (x # xs) = {c. a_cert (reads (fst (fst x))) = Some c} \<union> stored_in reads xs"
  by (auto simp: stored_in_def)

definition made_of :: "tls_lib \<Rightarrow> cert set \<Rightarrow> server_config \<Rightarrow> bool" where
  "made_of T H config \<longleftrightarrow> config = server_config_new \<or> (\<exists>c \<in> H. create_server_config T c = Ok config)"

fun task_ok :: "tls_lib \<Rightarrow> cert set \<Rightarrow> tls_task \<Rightarrow> bool" where
  "task_ok T H (Comparing (Ok (Some c))) \<longleftrightarrow> c \<in> H"
| "task_ok T H (Creating c) \<longleftrightarrow> c \<in> H"
| "task_ok T H (Storing c config) \<longleftrightarrow> c \<in> H \<and> create_server_config T c = Ok config"
| "task_ok T H (Answered config) \<longleftrightarrow> made_of T H config"
| "task_ok T H _ \<longleftrightarrow> True"

definition cache_in :: "tls_lib \<Rightarrow> cert set \<Rightarrow> tls_cache \<Rightarrow> bool" where
  "cache_in T H cache \<longleftrightarrow> cache_ok T cache \<and> (\<forall>c. fst cache = Some c \<longrightarrow> c \<in> H)"

lemma cache_in_made: "cache_in T H cache \<Longrightarrow> made_of T H (snd cache)"
  by (cases "fst cache") (auto simp: cache_in_def cache_ok_def made_of_def)

lemma made_of_mono: "made_of T H config \<Longrightarrow> H \<subseteq> H' \<Longrightarrow> made_of T H' config"
  by (auto simp: made_of_def)

lemma task_ok_mono: "task_ok T H k \<Longrightarrow> H \<subseteq> H' \<Longrightarrow> task_ok T H' k"
  by (induction T H k rule: task_ok.induct) (auto intro: made_of_mono)

lemma cache_in_mono: "cache_in T H cache \<Longrightarrow> H \<subseteq> H' \<Longrightarrow> cache_in T H' cache"
  by (auto simp: cache_in_def)

context facade_provider
begin

definition tls_ok :: "tls_lib \<Rightarrow> cert set \<Rightarrow> 's tls_state \<Rightarrow> bool" where
  "tls_ok T H = (\<lambda>(sj, cache, ks). config_ok sj \<and> cache_in T H cache \<and> (\<forall>k \<in> set ks. task_ok T H k))"

text \<open>A piece of a connection changes nothing in the facade and keeps the cache coherent.\<close>

lemma task_step_ok:
  assumes "task_step T F k (s, cache) = (k', t, cache')" and "ok s" and "task_ok T H k" and "cache_in T H cache"
    and "\<And>c. a_cert (abs s) = Some c \<Longrightarrow> c \<in> H"
  shows "ok t \<and> abs t = abs s \<and> cache_in T H cache' \<and> task_ok T H k'"
proof (cases k)
  case Asking
  obtain r u where r: "first_cert F s = (r, u)" by fastforce
  have u: "ok u" "abs u = abs s"
    using first_frame [OF r assms(2)] by simp_all
  have "\<And>c. r = Ok (Some c) \<Longrightarrow> c \<in> H"
    using first_Ok [of s _ u] r assms(2,5) by simp
  then have "task_ok T H (Comparing r)"
    by (cases "(T, H, Comparing r)" rule: task_ok.cases) auto
  then show ?thesis
    using assms(1,4) Asking r u by (cases r) auto
next
  case (Comparing r)
  then show ?thesis
    using assms(1-4) cache_in_made [OF assms(4)]
    by (auto split: outcome.splits option.splits if_splits)
next
  case (Creating c)
  then show ?thesis
    using assms(1-4) cache_in_made [OF assms(4)] by (auto split: outcome.splits)
next
  case (Storing c config)
  then show ?thesis
    using assms(1-4) by (auto simp: cache_in_def cache_ok_def made_of_def)
qed (use assms in auto)

lemma tls_step_ok:
  assumes "tls_step T F x y" and "tls_ok T H x" and "\<And>c. a_cert (abs (fst (fst x))) = Some c \<Longrightarrow> c \<in> H"
  shows "tls_ok T H y"
  using assms(1)
proof cases
  case (connect sj cache ks)
  then show ?thesis
    using assms(2) by (simp add: tls_ok_def)
next
  case (proceed i ks s cache k t cache' jobs)
  have "ok s" "task_ok T H (ks ! i)" "cache_in T H cache"
    using assms(2) proceed by (simp_all add: tls_ok_def config_ok_def)
  then have "ok t \<and> abs t = abs s \<and> cache_in T H cache' \<and> task_ok T H k"
    using task_step_ok [OF proceed(4)] assms(3) proceed(1) by simp
  then show ?thesis
    using assms(2) proceed set_update_subset_insert [of ks i k] by (auto simp: tls_ok_def config_ok_def)
next
  case (job sj sj' cache ks)
  then show ?thesis
    using assms(2) step_config_ok by (auto simp: tls_ok_def)
qed

lemma tls_trace_ok: "tls_trace T F s0 xs \<Longrightarrow> ok s0 \<Longrightarrow> xs \<noteq> [] \<and> tls_ok T (stored_in abs xs) (hd xs)"
proof (induction rule: tls_trace.induct)
  case begins
  then show ?case
    by (simp add: tls_ok_def config_ok_def cache_in_def cache_ok_def acceptor_new_def)
next
  case (continues x xs y)
  let ?H = "stored_in abs (y # x # xs)"
  have "tls_ok T ?H x"
    using continues stored_in_Cons [of abs y "x # xs"]
    by (auto simp: tls_ok_def intro: cache_in_mono task_ok_mono split: prod.splits)
  then show ?case
    using tls_step_ok [OF continues.hyps(2)] by (simp add: stored_in_Cons)
qed

end

lemma load_cert_current:
  assumes "cache_ok T cache" and "fst (first_cert F s) = Ok (Some c)" and "create_server_config T c = Ok config"
  shows "fst (load_cert T F (s, cache)) = Ok config"
proof -
  obtain t where first: "first_cert F s = (Ok (Some c), t)"
    using assms(2) by (cases "first_cert F s") simp
  show ?thesis
  proof (cases "same_cached c (fst cache)")
    case True
    then obtain c' where c': "fst cache = Some c'" "cert_eq c c'"
      by (cases "fst cache") (auto simp: same_cached_def)
    have "snd cache = config"
      using assms(1) create_server_config_eq [OF c'(2) assms(3)] c'(1) by (simp add: cache_ok_def)
    then show ?thesis
      using first True by (simp add: load_cert_def)
  next
    case False
    then show ?thesis
      using first assms(3) by (simp add: load_cert_def)
  qed
qed

section \<open>Properties\<close>

text \<open>
  The pieces of a connection are those of \<^verbatim>\<open>load_cert\<close>: run without interruption, four pieces end
  with its result, the facade and the cache as it leaves them.
\<close>

theorem connection_alone:
  "(case task_run 4 T F Asking x of (k, y) \<Rightarrow> (task_outcome k, y))
     = (case load_cert T F x of (r, y) \<Rightarrow> (Some r, y))"
  by (rule task_alone)

text \<open>
  C16: Any number of connections on the database at once, interleaved with the certificate jobs: the
  configuration that is cached is always the one its certificate gives, every connection is offered the
  empty configuration of the start or one made of a certificate that was stored at some time, and a
  connection that then runs alone is offered the one of the certificate stored now, also after an older
  certificate has overwritten a newer one in the cache.
\<close>

theorem db_tls_concurrent:
  assumes "tls_trace T database_facade (s0 :: db) (((s, jobs), cache, ks) # xs)" and "tables_ok s0"
  shows "cache_ok T cache \<and>
    (\<forall>config. Answered config \<in> set ks \<longrightarrow> config = server_config_new \<or>
      (\<exists>c. (\<exists>x \<in> set (((s, jobs), cache, ks) # xs). a_cert (tables_abs (fst (fst x))) = Some c) \<and>
        create_server_config T c = Ok config)) \<and>
    (\<forall>c config. fst (first_cert database_facade s) = Ok (Some c) \<longrightarrow> create_server_config T c = Ok config \<longrightarrow>
      fst (load_cert T database_facade (s, cache)) = Ok config)"
proof (intro conjI)
  have ok: "cache_in T (stored_in tables_abs (((s, jobs), cache, ks) # xs)) cache"
      "\<forall>k \<in> set ks. task_ok T (stored_in tables_abs (((s, jobs), cache, ks) # xs)) k"
    using database.tls_trace_ok [OF assms] by (simp_all add: database.tls_ok_def)
  then show cache: "cache_ok T cache"
    by (simp add: cache_in_def)
  show "\<forall>c config. fst (first_cert database_facade s) = Ok (Some c) \<longrightarrow> create_server_config T c = Ok config \<longrightarrow>
      fst (load_cert T database_facade (s, cache)) = Ok config"
    by (intro allI impI) (rule load_cert_current [OF cache])
  show "\<forall>config. Answered config \<in> set ks \<longrightarrow> config = server_config_new \<or>
      (\<exists>c. (\<exists>x \<in> set (((s, jobs), cache, ks) # xs). a_cert (tables_abs (fst (fst x))) = Some c) \<and>
        create_server_config T c = Ok config)"
  proof (intro allI impI)
    fix config
    assume "Answered config \<in> set ks"
    then have "made_of T (stored_in tables_abs (((s, jobs), cache, ks) # xs)) config"
      using ok(2) by fastforce
    then show "config = server_config_new \<or>
      (\<exists>c. (\<exists>x \<in> set (((s, jobs), cache, ks) # xs). a_cert (tables_abs (fst (fst x))) = Some c) \<and>
        create_server_config T c = Ok config)"
      unfolding made_of_def stored_in_def by blast
  qed
qed

theorem db_tls_concurrent_witness:
  "\<exists>s cache config xs. tls_trace example_tls database_facade (example_db (renewed_cert State_Ok) [])
      (((s, []), cache, [Answered config, Answered config]) # xs) \<and>
    config = \<lparr>sc_cert = Some ([''crt''], ''k2''), sc_alpn = [''h2'', ''http/1.1'']\<rparr> \<and> cache_ok example_tls cache"
proof -
  let ?s0 = "example_db (renewed_cert State_Ok) []"
  let ?config = "\<lparr>sc_cert = Some ([''crt''], ''k2''), sc_alpn = [''h2'', ''http/1.1'']\<rparr>"
  let ?final = "scheduled example_tls database_facade [0, 0, 1, 2, 1, 2, 1, 2, 1, 2] (?s0, acceptor_new, [])"
  have ok: "tables_ok ?s0"
    by (rule example_db_ok) (simp add: renewed_cert_def)
  have ks: "snd (snd ?final) = [Answered ?config, Answered ?config]"
    by code_simp
  obtain xs where run: "tls_trace example_tls database_facade ?s0
      (((fst ?final, []), fst (snd ?final), snd (snd ?final)) # xs)"
    using scheduled_trace [where ns = "[0, 0, 1, 2, 1, 2, 1, 2, 1, 2]",
        OF tls_trace.begins [of example_tls database_facade ?s0]] unfolding prod.collapse by blast
  show ?thesis
    using db_tls_concurrent [OF run ok] run unfolding ks by blast
qed

end
