(* ===== verification/Api_Metrics.thy ===== *)
theory Api_Metrics
  imports Util
begin

text \<open>
  \<^verbatim>\<open>src/api/metrics.rs\<close>: HTTP requests and responses as the program sees them, the counting of requests
  by path, method and status, and the page of measurements without the lines that are zero.
\<close>

section \<open>Requests, responses and filters\<close>

text \<open>
  The path is the raw path of the request. Header names are in lower case, as the library compares
  them, and a header is listed when its value can be read as text; the others are rejected like
  missing ones.
\<close>

record http_request =
  rq_method :: string
  rq_path :: string
  rq_headers :: "(string \<times> string) list"

record http_response =
  rp_status :: nat
  rp_body :: bytes

text \<open>
  A filter of the library warp accepts a request with a response, or rejects it (\<open>Ok None\<close>); a panic of
  a handler ends the connection. \<^verbatim>\<open>warp::path(segment)\<close>
  compares the first segment of the path and leaves the rest unread.
\<close>

definition first_segment :: "string \<Rightarrow> string" where
  "first_segment path = takeWhile (\<lambda>c. c \<noteq> CHR ''/'') (case path of [] \<Rightarrow> [] | c # cs \<Rightarrow> if c = CHR ''/'' then cs else path)"

definition path_is :: "string \<Rightarrow> http_request \<Rightarrow> bool" where
  "path_is segment req \<longleftrightarrow> first_segment (rq_path req) = segment"

section \<open>Counting\<close>

datatype metrics_config = Borrowed string | Owned string

definition config_as_str :: "metrics_config \<Rightarrow> string" where
  "config_as_str c = (case c of Borrowed s \<Rightarrow> s | Owned p \<Rightarrow> p)"

definition metrics_config_new :: "string \<Rightarrow> http_request \<Rightarrow> metrics_config" where
  "metrics_config_new s req = Borrowed s"

definition metrics_config_path :: "http_request \<Rightarrow> metrics_config" where
  "metrics_config_path req = Owned (rq_path req)"

text \<open>The two metrics, by their label values: how often a status was answered, how many times were measured.\<close>

record http_metrics =
  status_counter :: "string \<times> string \<times> nat \<Rightarrow> nat"
  req_histogram :: "string \<times> string \<Rightarrow> nat"

definition count_request :: "string \<Rightarrow> string \<Rightarrow> nat \<Rightarrow> http_metrics \<Rightarrow> http_metrics" where
  "count_request path verb status m =
     m\<lparr>status_counter := (status_counter m)((path, verb, status) := Suc (status_counter m (path, verb, status))),
       req_histogram := (req_histogram m)((path, verb) := Suc (req_histogram m (path, verb)))\<rparr>"

text \<open>
  The wrapped filter: its response is passed on after it has been counted; a rejection is not counted.
\<close>

text \<open>The filters of the program turn their errors into responses; there is no other error.\<close>

type_synonym no_error = unit

type_synonym 's filter_op = "http_request \<Rightarrow> ('s, no_error, (http_response \<times> metrics_config) option) op"

definition metrics_wrapper :: "'s filter_op \<Rightarrow> http_request \<Rightarrow> ('s \<times> http_metrics, no_error, http_response option) op" where
  "metrics_wrapper inner req = (\<lambda>(s, m).
     (case inner req s of
        (Ok (Some (res, config)), t) \<Rightarrow>
          (Ok (Some res), (t, count_request (config_as_str config) (rq_method req) (rp_status res) m))
      | (Ok None, t) \<Rightarrow> (Ok None, (t, m))
      | (Err e, t) \<Rightarrow> (Err e, (t, m))
      | (Panic p, t) \<Rightarrow> (Panic p, (t, m))))"

section \<open>The page of measurements\<close>

definition internal_server_error_and_trace :: "string \<Rightarrow> http_response" where
  "internal_server_error_and_trace e = \<lparr>rp_status = 500, rp_body = e\<rparr>"

text \<open>\<^verbatim>\<open>read_until\<close> on a slice: the bytes up to and including the next line feed, and the rest.\<close>

abbreviation lf :: char where
  "lf \<equiv> CHR 0x0A"

definition read_until_lf :: "bytes \<Rightarrow> bytes \<times> bytes" where
  "read_until_lf data =
     (let line = takeWhile (\<lambda>c. c \<noteq> lf) data; rest = dropWhile (\<lambda>c. c \<noteq> lf) data in
      (line @ take 1 rest, drop 1 rest))"

definition zero_line :: "bytes \<Rightarrow> bool" where
  "zero_line res \<longleftrightarrow> ends_with ('' 0'' @ [lf]) res \<or> ends_with '' 0'' res"

lemma read_until_lf_append: "read_until_lf data = (line, rest) \<Longrightarrow> data = line @ rest"
  by (auto simp: read_until_lf_def Let_def)

lemma read_until_lf_less: "read_until_lf data = (line, rest) \<Longrightarrow> line \<noteq> [] \<Longrightarrow> length rest < length data"
  using read_until_lf_append by fastforce

function remove_zero_loop :: "bytes \<Rightarrow> bytes \<Rightarrow> bytes" where
  "remove_zero_loop data res =
     (case read_until_lf data of (line, rest) \<Rightarrow>
        if line = [] then res
        else
          let res' = res @ line in
          remove_zero_loop rest
            (if zero_line res' then take (length res' - length line) res' else res'))"
  by pat_completeness auto
termination
  by (relation "measure (\<lambda>(data, res). length data)") (auto dest: read_until_lf_less [OF sym])

declare remove_zero_loop.simps [simp del]

definition remove_zero_metrics :: "bytes \<Rightarrow> io_error + bytes" where
  "remove_zero_metrics data = Inr (remove_zero_loop data [])"

text \<open>\<open>encode\<close> is the library's text encoder applied to what the registry gathers.\<close>

definition metrics_handler :: "string + bytes \<Rightarrow> http_response" where
  "metrics_handler encode =
     (case encode of
        Inl e \<Rightarrow> internal_server_error_and_trace e
      | Inr res \<Rightarrow>
          (case remove_zero_metrics res of
             Inl e \<Rightarrow> internal_server_error_and_trace (io_text e)
           | Inr res \<Rightarrow> \<lparr>rp_status = 200, rp_body = res\<rparr>))"

definition METRICS_PATH :: string where
  "METRICS_PATH = ''metrics''"

definition metrics_filter :: "(unit \<Rightarrow> string + bytes) \<Rightarrow> unit filter_op" where
  "metrics_filter encode req =
     (if path_is METRICS_PATH req \<and> rq_method req = ''GET''
      then ret (Some (metrics_handler (encode ()), metrics_config_path req))
      else ret None)"

text \<open>The page counts its own requests, after it has been made.\<close>

definition metrics_route :: "(http_metrics \<Rightarrow> string + bytes) \<Rightarrow> http_request \<Rightarrow> http_metrics \<Rightarrow>
    (no_error, http_response option) outcome \<times> unit \<times> http_metrics" where
  "metrics_route encode req m = metrics_wrapper (metrics_filter (\<lambda>_. encode m)) req ((), m)"

section \<open>Lines\<close>

function split_lines :: "bytes \<Rightarrow> bytes list" where
  "split_lines data =
     (case read_until_lf data of (line, rest) \<Rightarrow> if line = [] then [] else line # split_lines rest)"
  by pat_completeness auto
termination
  by (relation "measure length") (auto dest: read_until_lf_less [OF sym])

declare split_lines.simps [simp del]

lemma read_until_lf_line:
  assumes "read_until_lf data = (line, rest)"
  shows "lf \<notin> set (butlast line)" and "rest \<noteq> [] \<Longrightarrow> last line = lf" and "line = [] \<Longrightarrow> data = []"
proof -
  let ?l = "takeWhile (\<lambda>c. c \<noteq> lf) data"
  have l: "lf \<notin> set ?l"
    by (auto dest: set_takeWhileD)
  obtain r where r: "dropWhile (\<lambda>c. c \<noteq> lf) data = r" by blast
  have lr: "line = ?l @ take 1 r" "rest = drop 1 r" "data = ?l @ r"
    using assms r by (auto simp: read_until_lf_def Let_def)
  have hd: "r \<noteq> [] \<Longrightarrow> hd r = lf"
    using hd_dropWhile [of "\<lambda>c. c \<noteq> lf" data] r by auto
  show "lf \<notin> set (butlast line)"
    using l lr(1) by (cases r) (auto simp: butlast_append dest: in_set_butlastD)
  show "rest \<noteq> [] \<Longrightarrow> last line = lf"
    using lr hd by (cases r) auto
  show "line = [] \<Longrightarrow> data = []"
    using lr by (cases r) auto
qed

text \<open>After a complete line the end of what has been kept says nothing but what the line says.\<close>

lemma zero_line_last:
  assumes "res = [] \<or> last res = lf" and "line \<noteq> []" and "lf \<notin> set (butlast line)"
  shows "zero_line (res @ line) \<longleftrightarrow> zero_line line"
proof -
  obtain l c where line: "line = l @ [c]" "lf \<notin> set l"
    using assms(2,3) by (metis append_butlast_last_id)
  show ?thesis
  proof (cases res rule: rev_cases)
    case Nil
    then show ?thesis by simp
  next
    case (snoc r x)
    then have "x = lf" using assms(1) by simp
    then show ?thesis
      using snoc line
      by (cases l rule: rev_cases; cases "butlast l" rule: rev_cases)
        (auto simp: zero_line_def ends_with_def)
  qed
qed

lemma remove_zero_loop_lines:
  assumes "data = [] \<or> res = [] \<or> last res = lf"
  shows "remove_zero_loop data res = res @ concat (filter (\<lambda>l. \<not> zero_line l) (split_lines data))"
  using assms
proof (induction data res rule: remove_zero_loop.induct)
  case (1 data res)
  obtain line rest where rd: "read_until_lf data = (line, rest)" by fastforce
  note facts = read_until_lf_line [OF rd]
  show ?case
  proof (cases "line = []")
    case True
    then show ?thesis
      using rd by (simp add: remove_zero_loop.simps [of data] split_lines.simps [of data])
  next
    case False
    then have "data \<noteq> []"
      using read_until_lf_append [OF rd] by auto
    then have res: "res = [] \<or> last res = lf"
      using 1(2) by simp
    have zero: "zero_line (res @ line) = zero_line line"
      by (rule zero_line_last [OF res False facts(1)])
    have "rest = [] \<or> last (res @ line) = lf"
      using facts(2) False by auto
    then have "remove_zero_loop rest (if zero_line (res @ line) then res else res @ line)
        = (if zero_line line then res else res @ line) @
          concat (filter (\<lambda>l. \<not> zero_line l) (split_lines rest))"
      using 1(1) [OF rd [symmetric] False refl] res zero by auto
    then show ?thesis
      using rd False zero
      by (cases "zero_line line")
        (simp_all add: remove_zero_loop.simps [of data] split_lines.simps [of data])
  qed
qed

lemma concat_split_lines: "concat (split_lines data) = data"
proof (induction data rule: split_lines.induct)
  case (1 data)
  obtain line rest where rd: "read_until_lf data = (line, rest)" by fastforce
  have "split_lines data = (if line = [] then [] else line # split_lines rest)"
    using rd by (simp add: split_lines.simps [of data])
  then show ?case
    using 1 [OF rd [symmetric]] read_until_lf_append [OF rd] read_until_lf_line(3) [OF rd] by auto
qed

section \<open>Properties\<close>

text \<open>
  C38: The page of measurements consists of exactly the lines of the encoder's output that do not end
  with a space and a zero, in their order and complete; the output is the concatenation of its lines.
\<close>

theorem remove_zero_metrics_lines:
  "remove_zero_metrics data = Inr (concat (filter (\<lambda>l. \<not> zero_line l) (split_lines data)))
   \<and> concat (split_lines data) = data"
  by (simp add: remove_zero_metrics_def remove_zero_loop_lines concat_split_lines)

end
