(* ===== verification/Api_Routes.thy ===== *)
theory Api_Routes
  imports Api_Metrics Dns_Authority
begin

text \<open>
  \<^verbatim>\<open>src/api/routes.rs\<close>: the HTTP interface, over any facade: registering a domain, the update request,
  and the answer to everything else.
\<close>

section \<open>Handlers\<close>

text \<open>
  \<open>json\<close> is the library's serializer; \<^verbatim>\<open>warp::reply::json\<close> answers with status 500 when it fails.
\<close>

definition reply_json :: "(domain_dto \<Rightarrow> bytes option) \<Rightarrow> domain_dto \<Rightarrow> http_response" where
  "reply_json json d =
     (case json d of
        Some body \<Rightarrow> \<lparr>rp_status = 200, rp_body = body\<rparr>
      | None \<Rightarrow> \<lparr>rp_status = 500, rp_body = []\<rparr>)"

definition register_body :: "('s, 'm) domain_facade_scheme \<Rightarrow> env \<Rightarrow> ('s, any_err, domain_dto) op" where
  "register_body F env =
     (let res = dto_default env in
      bind_op (lift_outcome (domain_try_from env res)) (\<lambda>domain.
      bind_op (map_err_op A_Sqlx (create_domain F domain)) (\<lambda>_.
      ret res)))"

definition register_handler :: "(domain_dto \<Rightarrow> bytes option) \<Rightarrow> ('s, 'm) domain_facade_scheme \<Rightarrow> env \<Rightarrow>
    ('s, no_error, http_response) op" where
  "register_handler json F env = (\<lambda>s.
     (case register_body F env s of
        (Panic p, t) \<Rightarrow> (Panic p, t)
      | (r, t) \<Rightarrow>
          let res = (case r of Ok dto \<Rightarrow> reply_json json dto | _ \<Rightarrow> \<lparr>rp_status = 500, rp_body = ''test''\<rparr>) in
          (Ok (if rp_status res \<noteq> 500 then res\<lparr>rp_status := 201\<rparr> else res), t)))"

definition X_API_USER_HEADER :: string where
  "X_API_USER_HEADER = ''x-api-user''"

definition X_API_KEY_HEADER :: string where
  "X_API_KEY_HEADER = ''x-api-key''"

definition update_handler :: "string \<Rightarrow> string \<Rightarrow> ('s, 'm) domain_facade_scheme \<Rightarrow> ('s, no_error, http_response) op" where
  "update_handler user key F = ret \<lparr>rp_status = 200, rp_body = user @ '' '' @ key\<rparr>"

section \<open>Routes\<close>

definition REGISTER_PATH :: string where
  "REGISTER_PATH = ''register''"

definition UPDATE_PATH :: string where
  "UPDATE_PATH = ''update''"

definition register_route :: "(domain_dto \<Rightarrow> bytes option) \<Rightarrow> ('s, 'm) domain_facade_scheme \<Rightarrow> env \<Rightarrow> 's filter_op" where
  "register_route json F env req =
     (if path_is REGISTER_PATH req \<and> rq_method req = ''POST''
      then bind_op (register_handler json F env) (\<lambda>res. ret (Some (res, metrics_config_path req)))
      else ret None)"

definition update_route :: "('s, 'm) domain_facade_scheme \<Rightarrow> 's filter_op" where
  "update_route F req =
     (if path_is UPDATE_PATH req \<and> rq_method req = ''POST'' then
        (case (map_of (rq_headers req) X_API_USER_HEADER, map_of (rq_headers req) X_API_KEY_HEADER) of
           (Some user, Some key) \<Rightarrow>
             bind_op (update_handler user key F) (\<lambda>res. ret (Some (res, metrics_config_path req)))
         | _ \<Rightarrow> ret None)
      else ret None)"

definition not_found_route :: "'s filter_op" where
  "not_found_route req = ret (Some (\<lparr>rp_status = 404, rp_body = []\<rparr>, metrics_config_new ''404'' req))"

definition or_route :: "'s filter_op \<Rightarrow> 's filter_op \<Rightarrow> 's filter_op" where
  "or_route f g req = bind_op (f req) (\<lambda>r. case r of Some x \<Rightarrow> ret (Some x) | None \<Rightarrow> g req)"

definition routes :: "(domain_dto \<Rightarrow> bytes option) \<Rightarrow> ('s, 'm) domain_facade_scheme \<Rightarrow> env \<Rightarrow> http_request \<Rightarrow>
    ('s \<times> http_metrics, no_error, http_response option) op" where
  "routes json F env req =
     metrics_wrapper (or_route (or_route (register_route json F env) (update_route F)) not_found_route) req"

section \<open>Facts\<close>

definition is_register :: "http_request \<Rightarrow> bool" where
  "is_register req \<longleftrightarrow> path_is REGISTER_PATH req \<and> rq_method req = ''POST''"

text \<open>What a request that is not a registration is answered, and under which label it is counted.\<close>

definition other_answer :: "http_request \<Rightarrow> http_response \<times> metrics_config" where
  "other_answer req =
     (if path_is UPDATE_PATH req \<and> rq_method req = ''POST'' then
        (case (map_of (rq_headers req) X_API_USER_HEADER, map_of (rq_headers req) X_API_KEY_HEADER) of
           (Some user, Some key) \<Rightarrow> (\<lparr>rp_status = 200, rp_body = user @ '' '' @ key\<rparr>, Owned (rq_path req))
         | _ \<Rightarrow> (\<lparr>rp_status = 404, rp_body = []\<rparr>, Borrowed ''404''))
      else (\<lparr>rp_status = 404, rp_body = []\<rparr>, Borrowed ''404''))"

lemma routes_other:
  fixes s :: 's and F :: "('s, 'm) domain_facade_scheme"
  assumes "\<not> is_register req"
  shows "routes json F env req (s, m) = (case other_answer req of (res, config) \<Rightarrow>
    (Ok (Some res), (s, count_request (config_as_str config) (rq_method req) (rp_status res) m)))"
proof -
  have "or_route (or_route (register_route json F env) (update_route F)) not_found_route req s
      = (Ok (Some (other_answer req)), s)"
    using assms
    by (auto simp: or_route_def register_route_def update_route_def not_found_route_def is_register_def
        bind_op_def ret_def other_answer_def update_handler_def metrics_config_path_def
        metrics_config_new_def split: option.split)
  then show ?thesis
    by (cases "other_answer req") (simp add: routes_def metrics_wrapper_def)
qed

lemma routes_register:
  fixes s :: 's and F :: "('s, 'm) domain_facade_scheme"
  assumes "is_register req"
  shows "routes json F env req (s, m) =
    (case register_handler json F env s of
       (Ok res, t) \<Rightarrow> (Ok (Some res), (t, count_request (rq_path req) ''POST'' (rp_status res) m))
     | (Err e, t) \<Rightarrow> (Err e, (t, m))
     | (Panic p, t) \<Rightarrow> (Panic p, (t, m)))"
  using assms
  by (cases "register_handler json F env s";
      cases "fst (register_handler json F env s)")
    (auto simp: routes_def metrics_wrapper_def or_route_def register_route_def is_register_def
      bind_op_def ret_def metrics_config_path_def config_as_str_def)

lemma register_body_run:
  "register_body F env s =
     (case domain_try_from env (dto_default env) of
        Ok d \<Rightarrow> (case create_domain F d s of (r, t) \<Rightarrow> (and_then (map_err A_Sqlx r) (\<lambda>_. Ok (dto_default env)), t))
      | Err e \<Rightarrow> (Err e, s)
      | Panic p \<Rightarrow> (Panic p, s))"
  by (auto simp: register_body_def bind_op_def lift_outcome_def map_err_op_def ret_def Let_def
      split: outcome.split prod.split)

lemma try_from_Ok:
  "domain_try_from env (dto_default env) = Ok d \<Longrightarrow>
    d_id d = uuid (drawn env 0) \<and> d_username d = uuid (drawn env 1) \<and> d_txt d = None \<and>
    bcrypt_hash env (uuid (drawn env 2)) (default_cost env) = Ok (d_password d)"
  by (auto simp: domain_try_from_def dto_default_def elim!: and_then_OkE)

text \<open>A generated identity is a text and never the label of a challenge.\<close>

lemma uuid_not_challenge: "uuid u \<noteq> ''_acme-challenge''"
proof
  assume "uuid u = ''_acme-challenge''"
  then have "length (uuid u) = length ''_acme-challenge''" by (rule arg_cong)
  then show False by simp
qed

lemma utf8_ascii: "\<forall>b \<in> set bs. byte_in 0 127 b \<Longrightarrow> utf8_valid bs"
  by (induction bs) simp_all

lemma uuid_utf8: "utf8_valid (uuid u)"
proof (rule utf8_ascii, rule ballI)
  fix b assume "b \<in> set (uuid u)"
  then have "b \<in> set ''0123456789abcdef''"
    by (rule uuid_digits [THEN subsetD])
  then show "byte_in 0 127 b"
    by (auto simp: byte_in_def)
qed

text \<open>The requests that came in, each with what its handler takes from outside; a panic ends one connection.\<close>

fun http_session :: "(domain_dto \<Rightarrow> bytes option) \<Rightarrow> ('s, 'm) domain_facade_scheme \<Rightarrow> (env \<times> http_request) list \<Rightarrow>
    's \<times> http_metrics \<Rightarrow> 's \<times> http_metrics" where
  "http_session json F [] sm = sm"
| "http_session json F ((env, req) # reqs) sm =
     http_session json F reqs
       (snd (routes json F env req sm))"

text \<open>Nothing is published from one state to another: every text record of the second is one of the first.\<close>

definition unpublished :: "astate \<Rightarrow> astate \<Rightarrow> bool" where
  "unpublished a b \<longleftrightarrow> a_cert b = a_cert a \<and>
     (\<forall>i d. a_domains b i = Some d \<longrightarrow> a_domains a i = Some d \<or> d_txt d = None)"

lemma unpublished_refl: "unpublished a a"
  by (simp add: unpublished_def)

lemma unpublished_trans: "unpublished a b \<Longrightarrow> unpublished b c \<Longrightarrow> unpublished a c"
  unfolding unpublished_def by metis

lemma unpublished_add: "d_txt d = None \<Longrightarrow> unpublished a (add_domain d a)"
  by (simp add: unpublished_def)

lemma unpublished_answer:
  assumes "unpublished a b"
  shows "domain_answer E b name first = Ok Lookup_Empty \<or> (\<exists>e. domain_answer E b name first = Err e) \<or>
    domain_answer E b name first = domain_answer E a name first"
proof (cases "\<exists>d. a_domains b first = Some d \<and> d_txt d \<noteq> None")
  case True
  then have "a_domains b first = a_domains a first"
    using assms unfolding unpublished_def by metis
  then show ?thesis by (simp add: domain_answer_def)
next
  case False
  then show ?thesis
    by (cases "a_domains b first") (auto simp: domain_answer_def)
qed

text \<open>How registering ends, over any facade.\<close>

context domain_provider
begin

lemma register_run:
  assumes "ok s" and "register_handler json F env s = (Ok res, t)"
  shows "ok t \<and> (rp_status res = 201 \<or> rp_status res = 500) \<and>
    (\<forall>d. domain_try_from env (dto_default env) = Ok d \<longrightarrow> abs t = abs s \<or> abs t = add_domain d (abs s)) \<and>
    (rp_status res = 201 \<longrightarrow> (\<exists>d. domain_try_from env (dto_default env) = Ok d \<and> abs t = add_domain d (abs s) \<and>
       json (dto_default env) = Some (rp_body res))) \<and>
    ((\<forall>d. domain_try_from env (dto_default env) \<noteq> Ok d) \<longrightarrow> abs t = abs s)"
proof (cases "domain_try_from env (dto_default env)")
  case (Ok d)
  obtain r u where c: "create_domain F d s = (r, u)" by fastforce
  have u: "ok u"
    by (rule create_frame [OF c assms(1)])
  show ?thesis
  proof (cases r)
    case (Ok x)
    have "abs u = add_domain d (abs s)"
      using create_Ok c Ok assms(1) by blast
    then show ?thesis
      using assms(2) c Ok u \<open>domain_try_from env (dto_default env) = Ok d\<close>
      by (auto simp: register_handler_def register_body_run Let_def reply_json_def split: option.splits)
  next
    case (Err e)
    have "abs u = abs s \<or> abs u = add_domain d (abs s)"
      using create_Err c Err assms(1) by blast
    then show ?thesis
      using assms(2) c Err u \<open>domain_try_from env (dto_default env) = Ok d\<close>
      by (auto simp: register_handler_def register_body_run)
  next
    case (Panic p)
    then show ?thesis
      using create_Panic c assms(1) by blast
  qed
qed (use assms in \<open>auto simp: register_handler_def register_body_run\<close>)

text \<open>What a request does to the facade, however it ends: at most the drawn domain is stored.\<close>

lemma routes_effect:
  assumes "ok s" and "routes json F env req (s, m) = (r, (t, m'))"
  shows "ok t \<and> (abs t = abs s \<or>
    (\<exists>d. d_id d = dto_id (dto_default env) \<and> d_txt d = None \<and> abs t = add_domain d (abs s)))"
proof (cases "is_register req")
  case False
  then show ?thesis
    using assms routes_other [OF False, of json F env s m] by (cases "other_answer req") simp
next
  case True
  have "t = snd (register_handler json F env s)"
    using assms(2) routes_register [OF True, of json F env s m] by (auto split: prod.splits outcome.splits)
  then have t: "t = snd (register_body F env s)"
    by (auto simp: register_handler_def Let_def split: prod.splits outcome.splits)
  show ?thesis
  proof (cases "domain_try_from env (dto_default env)")
    case (Ok d)
    obtain q u where c: "create_domain F d s = (q, u)" by fastforce
    then have "t = u"
      using t Ok by (simp add: register_body_run)
    moreover have "abs u = abs s \<or> abs u = add_domain d (abs s)"
      using create_Ok [of d s _ u] create_Err [of d s _ u] create_Panic [of d s _ u] c assms(1) by (cases q) auto
    ultimately show ?thesis
      using create_frame [OF c assms(1)] try_from_Ok [OF Ok] by (auto simp: dto_default_def)
  qed (use t assms(1) in \<open>simp_all add: register_body_run\<close>)
qed

lemma session_unpublished:
  assumes "ok (fst sm)"
  shows "ok (fst (http_session json F reqs sm)) \<and>
    unpublished (abs (fst sm)) (abs (fst (http_session json F reqs sm)))"
  using assms
proof (induction reqs arbitrary: sm)
  case Nil
  then show ?case by (simp add: unpublished_refl)
next
  case (Cons e reqs)
  obtain env req where e: "e = (env, req)" by fastforce
  obtain s m where sm: "sm = (s, m)" by fastforce
  obtain r t m' where run: "routes json F env req (s, m) = (r, (t, m'))"
    using prod_cases3 by blast
  have t: "ok t" "unpublished (abs s) (abs t)"
    using routes_effect [OF _ run] Cons.prems unpublished_add unpublished_refl by (auto simp: sm)
  then show ?case
    using Cons.IH [of "(t, m')"] unpublished_trans [OF t(2)] run by (simp add: e sm)
qed

end

section \<open>Properties\<close>

text \<open>
  C19: On the database a registration is answered with 201 or 500 and counted once under its status. With
  201 the domain of the answered credentials has been stored, with the hash of the answered password and
  no text record, and nothing else has changed.
\<close>

theorem db_register:
  fixes s :: db
  assumes "tables_ok s" and "is_register req"
    and "routes json database_facade env req (s, m)
      = (Ok (Some res), (t, m'))"
  shows "(rp_status res = 201 \<or> rp_status res = 500) \<and>
    m' = count_request (rq_path req) ''POST'' (rp_status res) m \<and>
    (rp_status res = 201 \<longrightarrow> (\<exists>d. tables_abs t = add_domain d (tables_abs s) \<and>
      json (dto_default env) = Some (rp_body res) \<and> d_id d = dto_id (dto_default env) \<and>
      d_username d = dto_username (dto_default env) \<and> d_txt d = None \<and>
      bcrypt_hash env (dto_password (dto_default env)) (default_cost env) = Ok (d_password d)))"
proof -
  have reg: "register_handler json database_facade env s = (Ok res, t)"
      "m' = count_request (rq_path req) ''POST'' (rp_status res) m"
    using assms(3) routes_register [OF assms(2), of json database_facade env s m]
    by (auto split: prod.splits outcome.splits)
  then show ?thesis
    using database.register_run [OF assms(1) reg(1)] try_from_Ok [of env]
    by (auto simp: dto_default_def)
qed

theorem db_register_witness:
  "\<exists>d. tables_abs (fst (snd ((routes (\<lambda>_. Some ''json'') database_facade (db_env 0 9000)
        \<lparr>rq_method = ''POST'', rq_path = ''/register'', rq_headers = []\<rparr>)
      (example_db (renewed_cert State_Ok) [], \<lparr>status_counter = (\<lambda>_. 0), req_histogram = (\<lambda>_. 0)\<rparr>))))
    = add_domain d (tables_abs (example_db (renewed_cert State_Ok) [])) \<and> d_txt d = None"
proof -
  let ?req = "\<lparr>rq_method = ''POST'', rq_path = ''/register'', rq_headers = []\<rparr>"
  let ?s = "example_db (renewed_cert State_Ok) []"
  let ?m = "\<lparr>status_counter = (\<lambda>_. 0), req_histogram = (\<lambda>_. 0)\<rparr>"
  let ?run = "(routes (\<lambda>_. Some ''json'') database_facade (db_env 0 9000) ?req) (?s, ?m)"
  have ok: "tables_ok ?s"
    by (rule example_db_ok) (simp add: renewed_cert_def)
  have reg: "is_register ?req"
    by code_simp
  have "fst ?run = Ok (Some \<lparr>rp_status = 201, rp_body = ''json''\<rparr>)"
    by code_simp
  then have "?run = (Ok (Some \<lparr>rp_status = 201, rp_body = ''json''\<rparr>), (fst (snd ?run), snd (snd ?run)))"
    by (metis prod.collapse)
  from db_register [OF ok reg this] show ?thesis
    by auto
qed

text \<open>
  C31: No sequence of HTTP requests publishes a text record. On the database, in whatever consistent state,
  after any requests with any losses every stored text record is one that was stored before, and the
  certificate is as it was. So a query for a user's name (not preconfigured, not the challenge's label, not
  for SOA) is answered with nothing, with an error, or with what it was answered before the requests.
\<close>

theorem http_never_publishes:
  fixes s :: db
  assumes "tables_ok s" and "http_session json database_facade reqs (s, m) = (t, m')"
  shows "a_cert (tables_abs t) = a_cert (tables_abs s) \<and>
    (\<forall>i d. a_domains (tables_abs t) i = Some d \<and> d_txt d \<noteq> None \<longrightarrow> a_domains (tables_abs s) i = Some d) \<and>
    (\<forall>L E auth name first rest qt. records auth name = None \<and> labels name = first # rest \<and>
       first \<noteq> ''_acme-challenge'' \<and> qt \<noteq> RT_SOA \<longrightarrow>
       (let r = fst (search L E database_facade auth name qt t) in
        r = Ok Lookup_Empty \<or> (\<exists>e. r = Err e) \<or> r = answer L E auth (tables_abs s) name qt))"
proof -
  have t: "tables_ok t" "unpublished (tables_abs s) (tables_abs t)"
    using database.session_unpublished [of "(s, m)" json reqs] assms by simp_all
  have answered: "r = Ok Lookup_Empty \<or> (\<exists>e. r = Err e) \<or> r = answer L E auth (tables_abs s) name qt"
    if q: "records auth name = None" "labels name = first # rest" "first \<noteq> ''_acme-challenge''" "qt \<noteq> RT_SOA"
      and r: "r = fst (search L E database_facade auth name qt t)" for L E auth name first rest qt r
  proof -
    have "answers E r (answer L E auth (tables_abs t) name qt)"
      using database.search_answers [OF t(1), of L E auth name qt r] r by (metis prod.collapse)
    then show ?thesis
      using unpublished_answer [OF t(2), of E name first] q
      by (auto simp: answers_def answer_def lookup_pre_def)
  qed
  have kept: "a_cert (tables_abs t) = a_cert (tables_abs s)"
      "a_domains (tables_abs s) i = Some d" if "a_domains (tables_abs t) i = Some d \<and> d_txt d \<noteq> None" for i d
    using t(2) that unfolding unpublished_def by metis+
  show ?thesis
    unfolding Let_def using t(2) kept(2)
    by (intro conjI allI impI; (elim conjE)?) (simp add: unpublished_def, simp, rule answered, simp_all)
qed

theorem http_never_publishes_witness:
  "fst (search example_lib io_errors database_facade example_authority (example_name ''d'') RT_TXT
      (fst (http_session (\<lambda>_. Some []) database_facade
        [(db_env 0 9000, \<lparr>rq_method = ''POST'', rq_path = ''/register'', rq_headers = []\<rparr>),
         (db_env 9 9001, \<lparr>rq_method = ''POST'', rq_path = ''/update'',
            rq_headers = [(''x-api-user'', ''u''), (''x-api-key'', ''k'')]\<rparr>)]
        (example_db (renewed_cert State_Ok) [], \<lparr>status_counter = (\<lambda>_. 0), req_histogram = (\<lambda>_. 0)\<rparr>))))
    \<in> {r. r = Ok Lookup_Empty \<or> (\<exists>e. r = Err e)}"
proof -
  let ?s = "example_db (renewed_cert State_Ok) []" and ?name = "example_name ''d''"
  have ok: "tables_ok ?s"
    by (rule example_db_ok) (simp add: renewed_cert_def)
  have q: "records example_authority ?name = None" "labels ?name = ''d'' # [''acme'', ''example'', ''com'']"
      "(''d'' :: bytes) \<noteq> ''_acme-challenge''" "RT_TXT \<noteq> RT_SOA"
    by code_simp+
  have "answer example_lib io_errors example_authority (tables_abs ?s) ?name RT_TXT = Ok Lookup_Empty"
    by code_simp
  then show ?thesis
    using http_never_publishes [OF ok surjective_pairing, THEN conjunct2, THEN conjunct2, rule_format, of example_authority ?name]
      q unfolding Let_def mem_Collect_eq by metis
qed

text \<open>
  The answered requests of a session, in order; a request whose handler panics has no answer.
\<close>

fun http_answers :: "(domain_dto \<Rightarrow> bytes option) \<Rightarrow> ('s, 'm) domain_facade_scheme \<Rightarrow> (env \<times> http_request) list \<Rightarrow>
    's \<times> http_metrics \<Rightarrow> (http_request \<times> http_response) list" where
  "http_answers json F [] sm = []"
| "http_answers json F ((env, req) # reqs) sm =
     (case routes json F env req sm of
        (Ok (Some res), sm') \<Rightarrow> (req, res) # http_answers json F reqs sm'
      | (_, sm') \<Rightarrow> http_answers json F reqs sm')"

text \<open>The labels under which an answer is counted: everything that is not found has one path label.\<close>

definition answer_label :: "http_request \<times> http_response \<Rightarrow> string \<times> string \<times> nat" where
  "answer_label = (\<lambda>(req, res).
     (if rp_status res = 404 then ''404'' else rq_path req, rq_method req, rp_status res))"

lemma register_status:
  "register_handler json F env s = (Ok res, t) \<Longrightarrow> rp_status res = 201 \<or> rp_status res = 500"
  by (auto simp: register_handler_def reply_json_def Let_def split: outcome.splits prod.splits option.splits if_splits)

lemma routes_counts:
  fixes s :: 's and F :: "('s, 'm) domain_facade_scheme"
  assumes "routes json F env req (s, m) = (r, (t, m'))"
  shows "(\<exists>res. r = Ok (Some res) \<and> m' = (case answer_label (req, res) of
      (path, verb, status) \<Rightarrow> count_request path verb status m)) \<or> (\<forall>res. r \<noteq> Ok (Some res)) \<and> m' = m"
proof (cases "is_register req")
  case True
  then have "rq_method req = ''POST''"
    by (simp add: is_register_def)
  then show ?thesis
    using assms routes_register [OF True, of json F env s m] register_status [of json F env s]
    by (auto simp: answer_label_def split: prod.splits outcome.splits)
next
  case False
  then show ?thesis
    using assms routes_other [OF False, of json F env s m]
    by (auto simp: answer_label_def other_answer_def config_as_str_def split: prod.splits if_splits option.splits)
qed

text \<open>
  C20: The HTTP measurements are exact over any facade: after any sequence of requests the counter of a
  path, method and status has grown by exactly the number of answers with that label (all answers that
  find no route share the path label 404), and the histogram of a path and method by the number of
  answers with that pair; a request whose handler panics is not counted.
\<close>

theorem http_counts_exact:
  fixes s :: 's and F :: "('s, 'm) domain_facade_scheme"
  shows "status_counter (snd (http_session json F reqs (s, m))) label
      = status_counter m label + count_list (map answer_label (http_answers json F reqs (s, m))) label \<and>
    req_histogram (snd (http_session json F reqs (s, m))) pair
      = req_histogram m pair + count_list (map ((\<lambda>(path, verb, status). (path, verb)) \<circ> answer_label)
          (http_answers json F reqs (s, m))) pair"
proof (induction reqs arbitrary: s m)
  case Nil
  then show ?case by simp
next
  case (Cons e reqs)
  obtain env req where e: "e = (env, req)" by fastforce
  obtain r t m' where run: "routes json F env req (s, m) = (r, (t, m'))"
    using prod_cases3 by blast
  show ?case
  proof (cases "\<exists>res. r = Ok (Some res)")
    case True
    then obtain res where "r = Ok (Some res)" ..
    then show ?thesis
      using Cons.IH [of t m'] run routes_counts [OF run] e
      by (cases "answer_label (req, res)") (auto simp: count_request_def)
  next
    case False
    then have "m' = m" "http_answers json F (e # reqs) (s, m) = http_answers json F reqs (t, m')"
      using run routes_counts [OF run] e by (auto split: outcome.split option.split)
    then show ?thesis
      using Cons.IH [of t m'] run e by simp
  qed
qed

end
