(* ===== verification/System.thy ===== *)
theory System
  imports Manager_Tasks Dns_Tasks Api_Tls_Tasks Api_Routes
begin

text \<open>
  The running program on one store: the certificate manager, any number of DNS queries and of TLS
  connections, each cut into its pieces, and the HTTP requests, in any order. The pieces are those of
  \<open>Manager_Tasks\<close>, \<open>Dns_Tasks\<close> and \<open>Api_Tls_Tasks\<close>. There is one process, so one manager, which
  starts again after it has ended, as the hourly loop of \<^verbatim>\<open>spawn\<close> would without its constant condition.
\<close>

section \<open>The program\<close>

text \<open>The libraries and servers outside, with the preconfigured records.\<close>

record ('w, 'e) outside =
  o_dns :: dns_lib
  o_errors :: "'e lookup_errors"
  o_authority :: authority
  o_tls :: tls_lib
  o_acme :: "'w acme"
  o_json :: "domain_dto \<Rightarrow> bytes option"

type_synonym 'e query = "dns_name \<times> rtype \<times> 'e dns_task"

record ('s, 'w, 'e) system =
  sy_store :: 's
  sy_acme :: 'w
  sy_manager :: manager_task
  sy_queries :: "'e query list"
  sy_cache :: tls_cache
  sy_connections :: "tls_task list"
  sy_metrics :: http_metrics
  sy_replies :: "(no_error, http_response option) outcome list"

definition asks :: "('w, 'e) outside \<Rightarrow> ('s, 'm) facade_scheme \<Rightarrow> 'e query \<Rightarrow> 's \<Rightarrow> 'e query \<times> 's" where
  "asks W F = (\<lambda>(name, qt, k) s.
     (case query_step (o_dns W) (o_errors W) F (o_authority W) name qt k s of (k', t) \<Rightarrow> ((name, qt, k'), t)))"

text \<open>
  An HTTP request makes at most one request to the facade, that of a registration. A registration draws a
  new identity, which is not the one of the domain of the job in progress.
\<close>

inductive system_step :: "('w, 'e) outside \<Rightarrow> ('s, 'm) facade_scheme \<Rightarrow> ('s, 'w, 'e) system \<Rightarrow> ('s, 'w, 'e) system \<Rightarrow> bool"
  for W F where
  tick: "sy_manager x = Managed r \<Longrightarrow> system_step W F x (x\<lparr>sy_manager := Starting env\<rparr>)"
| manages: "manager_step (o_acme W) F (sy_manager x) (sy_store x, sy_acme x) = (k, (t, v)) \<Longrightarrow>
    system_step W F x (x\<lparr>sy_store := t, sy_acme := v, sy_manager := k\<rparr>)"
| query_arrives: "system_step W F x (x\<lparr>sy_queries := sy_queries x @ [(name, qt, Arrived)]\<rparr>)"
| query_proceeds: "i < length (sy_queries x) \<Longrightarrow> asks W F (sy_queries x ! i) (sy_store x) = (q, t) \<Longrightarrow>
    system_step W F x (x\<lparr>sy_store := t, sy_queries := (sy_queries x)[i := q]\<rparr>)"
| connects: "system_step W F x (x\<lparr>sy_connections := sy_connections x @ [Asking]\<rparr>)"
| connection_proceeds: "i < length (sy_connections x) \<Longrightarrow>
    task_step (o_tls W) F (sy_connections x ! i) (sy_store x, sy_cache x) = (l, t, cache) \<Longrightarrow>
    system_step W F x (x\<lparr>sy_store := t, sy_cache := cache, sy_connections := (sy_connections x)[i := l]\<rparr>)"
| requests: "dto_id (dto_default env) \<notin> c_domain ` set (held (sy_manager x)) \<Longrightarrow>
    routes (o_json W) F env req (sy_store x, sy_metrics x) = (r, (t, m)) \<Longrightarrow>
    system_step W F x (x\<lparr>sy_store := t, sy_metrics := m, sy_replies := sy_replies x @ [r]\<rparr>)"

definition booted :: "'s \<Rightarrow> 'w \<Rightarrow> ('s, 'w, 'e) system" where
  "booted s w = \<lparr>sy_store = s, sy_acme = w, sy_manager = Managed (Ok ()), sy_queries = [],
     sy_cache = acceptor_new, sy_connections = [],
     sy_metrics = \<lparr>status_counter = (\<lambda>_. 0), req_histogram = (\<lambda>_. 0)\<rparr>, sy_replies = []\<rparr>"

inductive system_reaches :: "('w, 'e) outside \<Rightarrow> ('s, 'm) facade_scheme \<Rightarrow> ('s, 'w, 'e) system \<Rightarrow> ('s, 'w, 'e) system \<Rightarrow> bool"
  for W F x where
  here: "system_reaches W F x x"
| further: "system_reaches W F x y \<Longrightarrow> system_step W F y z \<Longrightarrow> system_reaches W F x z"

text \<open>The same as a function of the events, so that runs can be evaluated.\<close>

datatype event = Tick env | Manage | Ask dns_name rtype | Query nat | Connect | Serve nat | Request env http_request

fun happens :: "('w, 'e) outside \<Rightarrow> ('s, 'm) facade_scheme \<Rightarrow> event \<Rightarrow> ('s, 'w, 'e) system \<Rightarrow> ('s, 'w, 'e) system" where
  "happens W F (Tick env) x =
     (case sy_manager x of Managed r \<Rightarrow> x\<lparr>sy_manager := Starting env\<rparr> | _ \<Rightarrow> x)"
| "happens W F Manage x =
     (case manager_step (o_acme W) F (sy_manager x) (sy_store x, sy_acme x) of
        (k, (t, v)) \<Rightarrow> x\<lparr>sy_store := t, sy_acme := v, sy_manager := k\<rparr>)"
| "happens W F (Ask name qt) x = x\<lparr>sy_queries := sy_queries x @ [(name, qt, Arrived)]\<rparr>"
| "happens W F (Query i) x =
     (if i < length (sy_queries x) then
        (case asks W F (sy_queries x ! i) (sy_store x) of
           (q, t) \<Rightarrow> x\<lparr>sy_store := t, sy_queries := (sy_queries x)[i := q]\<rparr>)
      else x)"
| "happens W F Connect x = x\<lparr>sy_connections := sy_connections x @ [Asking]\<rparr>"
| "happens W F (Serve i) x =
     (if i < length (sy_connections x) then
        (case task_step (o_tls W) F (sy_connections x ! i) (sy_store x, sy_cache x) of
           (l, t, cache) \<Rightarrow> x\<lparr>sy_store := t, sy_cache := cache, sy_connections := (sy_connections x)[i := l]\<rparr>)
      else x)"
| "happens W F (Request env req) x =
     (if dto_id (dto_default env) \<in> c_domain ` set (held (sy_manager x)) then x
      else (case routes (o_json W) F env req (sy_store x, sy_metrics x) of
         (r, (t, m)) \<Rightarrow> x\<lparr>sy_store := t, sy_metrics := m, sy_replies := sy_replies x @ [r]\<rparr>))"

lemma happens_step: "happens W F e x = x \<or> system_step W F x (happens W F e x)"
proof (cases e)
  case (Tick env)
  then show ?thesis
    by (cases "sy_manager x") (auto intro: tick)
next
  case Manage
  then show ?thesis
    by (auto intro: manages split: prod.split)
next
  case (Ask name qt)
  then show ?thesis
    by (auto intro: query_arrives)
next
  case (Query i)
  then show ?thesis
    by (auto intro: query_proceeds split: prod.split)
next
  case Connect
  then show ?thesis
    by (auto intro: connects)
next
  case (Serve i)
  then show ?thesis
    by (auto intro: connection_proceeds split: prod.split)
next
  case (Request env req)
  then show ?thesis
    by (auto intro: requests split: prod.split)
qed

text \<open>Every step is an event.\<close>

lemma step_happens: "system_step W F x y \<Longrightarrow> \<exists>e. y = happens W F e x"
proof (induction rule: system_step.induct)
  case (tick x r env)
  then show ?case
    by (intro exI [of _ "Tick env"]) simp
next
  case (manages x k t v)
  then show ?case
    by (intro exI [of _ Manage]) simp
next
  case (query_arrives x name qt)
  then show ?case
    by (intro exI [of _ "Ask name qt"]) simp
next
  case (query_proceeds i x q t)
  then show ?case
    by (intro exI [of _ "Query i"]) simp
next
  case (connects x)
  then show ?case
    by (intro exI [of _ Connect]) simp
next
  case (connection_proceeds i x l t cache)
  then show ?case
    by (intro exI [of _ "Serve i"]) simp
next
  case (requests env x req r t m)
  then show ?case
    by (intro exI [of _ "Request env req"]) simp
qed

text \<open>A run of events, in their order.\<close>

primrec plays :: "('w, 'e) outside \<Rightarrow> ('s, 'm) facade_scheme \<Rightarrow> event list \<Rightarrow> ('s, 'w, 'e) system \<Rightarrow> ('s, 'w, 'e) system" where
  "plays W F [] x = x"
| "plays W F (e # es) x = plays W F es (happens W F e x)"

lemma plays_append [simp]: "plays W F (es @ fs) x = plays W F fs (plays W F es x)"
  by (induction es arbitrary: x) simp_all

lemma reaches_plays: "system_reaches W F x y \<longleftrightarrow> (\<exists>es. y = plays W F es x)"
proof
  assume "system_reaches W F x y"
  then show "\<exists>es. y = plays W F es x"
  proof (induction rule: system_reaches.induct)
    case here
    show ?case
      by (rule exI [of _ "[]"]) simp
  next
    case (further y z)
    then obtain es e where "y = plays W F es x" "z = happens W F e y"
      using step_happens by blast
    then show ?case
      by (intro exI [of _ "es @ [e]"]) simp
  qed
next
  have "system_reaches W F x (plays W F es y)" if "system_reaches W F x y" for es y
    using that
  proof (induction es arbitrary: y)
    case (Cons e es)
    have "system_reaches W F x (happens W F e y)"
      using happens_step [of W F e y] system_reaches.further [OF Cons.prems] Cons.prems by metis
    then show ?case
      using Cons.IH by simp
  qed simp
  then show "system_reaches W F x y" if "\<exists>es. y = plays W F es x"
    using that system_reaches.here by blast
qed

text \<open>The jobs as \<open>Cert_Jobs\<close> has them.\<close>

definition job_view :: "('s, 'w, 'e) system \<Rightarrow> 's job_config" where
  "job_view x = (sy_store x, held (sy_manager x))"

section \<open>The invariant\<close>

text \<open>
  A query that is not answered yet is at its place of the specification, every connection's configuration
  is made of its certificate, and so is the cached one.
\<close>

definition pending_fits :: "('w, 'e) outside \<Rightarrow> astate \<Rightarrow> 'e query \<Rightarrow> bool" where
  "pending_fits W a = (\<lambda>(name, qt, k). (\<exists>r. k = Replied r) \<or> task_fits (o_dns W) (o_errors W) (o_authority W) name qt k a)"

lemma pending_known:
  assumes "pending_fits W a q" and "\<And>m. job_known a m \<Longrightarrow> job_known b m"
  shows "pending_fits W b q"
proof -
  obtain name qt k where "q = (name, qt, k)"
    by (cases q)
  then show ?thesis
    using assms by (cases k) (auto simp: pending_fits_def)
qed

context facade_provider
begin

definition system_ok :: "('w, 'e) outside \<Rightarrow> ('s, 'w, 'e) system \<Rightarrow> bool" where
  "system_ok W x \<longleftrightarrow> config_ok (job_view x) \<and>
     manager_ok (o_acme W) (abs (sy_store x)) (sy_acme x) (sy_manager x) \<and>
     (\<forall>q \<in> set (sy_queries x). pending_fits W (abs (sy_store x)) q) \<and>
     cache_in (o_tls W) UNIV (sy_cache x) \<and> (\<forall>l \<in> set (sy_connections x). task_ok (o_tls W) UNIV l)"

lemma system_ok_store: "system_ok W x \<Longrightarrow> ok (sy_store x)"
  by (simp add: system_ok_def config_ok_def job_view_def)

lemma booted_ok: "ok s \<Longrightarrow> system_ok W (booted s w)"
  by (simp add: system_ok_def booted_def job_view_def config_ok_def cache_in_def cache_ok_def acceptor_new_def)

lemma job_or_read_known:
  "job_or_read F x y \<Longrightarrow> config_ok x \<Longrightarrow> job_known (abs (fst x)) m \<Longrightarrow> job_known (abs (fst y)) m"
proof (induction rule: job_or_read.induct)
  case (job_moves x y)
  then show ?case by (rule step_known)
next
  case (cert_asked s q t jobs)
  then show ?case
    using first_frame [OF cert_asked.hyps] by (simp add: config_ok_def)
next
  case (domain_asked i s q' t jobs)
  then show ?case
    using find_frame [OF domain_asked.hyps] by (simp add: config_ok_def)
qed

lemma jobs_or_reads_known:
  "(job_or_read F)\<^sup>*\<^sup>* x y \<Longrightarrow> config_ok x \<Longrightarrow> job_known (abs (fst x)) m \<Longrightarrow> job_known (abs (fst y)) m"
proof (induction rule: rtranclp_induct)
  case base
  then show ?case by simp
next
  case (step y z)
  then show ?case
    using job_or_read_known [OF step.hyps(2)] jobs_or_reads_ok [OF step.hyps(1)] by blast
qed

text \<open>A step that does not change the data keeps the invariant of the parts it does not touch.\<close>

lemma read_keeps:
  assumes "system_ok W x" and "ok t" and "abs t = abs (sy_store x)"
  shows "system_ok W (x\<lparr>sy_store := t\<rparr>)"
  using assms by (simp add: system_ok_def job_view_def config_ok_def)

lemma manages_keeps:
  assumes "system_ok W x" and "manager_step (o_acme W) F (sy_manager x) (sy_store x, sy_acme x) = (k, (t, v))"
  shows "system_ok W (x\<lparr>sy_store := t, sy_acme := v, sy_manager := k\<rparr>)"
proof -
  have x: "ok (sy_store x)" "config_ok (sy_store x, held (sy_manager x))"
      "manager_ok (o_acme W) (abs (sy_store x)) (sy_acme x) (sy_manager x)"
    using assms(1) by (simp_all add: system_ok_def job_view_def config_ok_def)
  have moves: "(job_or_read F)\<^sup>*\<^sup>* (sy_store x, held (sy_manager x)) (t, held k)"
    using piece_jobs [OF assms(2) x(3), of "[]"] by simp
  have "manager_ok (o_acme W) (abs t) v k"
    using manager_step_ok [OF x(1,3) assms(2)] ..
  moreover have "config_ok (t, held k)"
    by (rule jobs_or_reads_ok [OF moves x(2)])
  moreover have "pending_fits W (abs t) q" if "q \<in> set (sy_queries x)" for q
    by (rule pending_known [of W "abs (sy_store x)"])
      (use assms(1) that jobs_or_reads_known [OF moves x(2)] in \<open>simp_all add: system_ok_def\<close>)
  ultimately show ?thesis
    using assms(1) by (simp add: system_ok_def job_view_def)
qed

lemma asks_fits:
  assumes "ok s" and "pending_fits W (abs s) q" and "asks W F q s = (q', t)"
  shows "ok t \<and> abs t = abs s \<and> pending_fits W (abs t) q'"
proof -
  obtain name qt k where q: "q = (name, qt, k)"
    by (cases q)
  obtain k' where step: "query_step (o_dns W) (o_errors W) F (o_authority W) name qt k s = (k', t)" "q' = (name, qt, k')"
    using assms(3) q by (auto simp: asks_def split: prod.splits)
  show ?thesis
  proof (cases "\<exists>r. k = Replied r")
    case True
    then show ?thesis
      using step assms(1,2) q by (auto simp: pending_fits_def)
  next
    case False
    then have "task_fits (o_dns W) (o_errors W) (o_authority W) name qt k (abs s)"
      using assms(2) q by (simp add: pending_fits_def)
    then show ?thesis
      using query_step_fits [OF assms(1) _ step(1)] step(2) by (auto simp: pending_fits_def)
  qed
qed

lemma requests_keeps:
  assumes "system_ok W x" and "routes (o_json W) F env req (sy_store x, sy_metrics x) = (r, (t, m))"
    and "dto_id (dto_default env) \<notin> c_domain ` set (held (sy_manager x))"
  shows "system_ok W (x\<lparr>sy_store := t, sy_metrics := m, sy_replies := sy_replies x @ [r]\<rparr>)"
proof -
  have t: "ok t" "abs t = abs (sy_store x) \<or>
      (\<exists>d. d_id d = dto_id (dto_default env) \<and> abs t = add_domain d (abs (sy_store x)))"
    using routes_effect [OF system_ok_store [OF assms(1)] assms(2)] by blast+
  have "manager_ok (o_acme W) (add_domain d a) w k" if "manager_ok (o_acme W) a w k" "d_id d \<notin> c_domain ` set (held k)"
    for a w k d
    using that by (cases k) (auto simp: holds_job_def domain_there_def add_domain_def)
  moreover have "pending_fits W (add_domain d a) q" if "pending_fits W a q" for a q d
    by (rule pending_known [OF that]) simp
  ultimately show ?thesis
    using assms(1,3) t by (auto simp: system_ok_def job_view_def config_ok_def)
qed

lemma system_step_ok:
  assumes "system_step W F x y" and "system_ok W x"
  shows "system_ok W y"
  using assms(1)
proof cases
  case (tick r env)
  then show ?thesis
    using assms(2) by (simp add: system_ok_def job_view_def config_ok_def)
next
  case (manages k t v)
  then show ?thesis
    using manages_keeps [OF assms(2)] by simp
next
  case (query_arrives name qt)
  then show ?thesis
    using assms(2) by (simp add: system_ok_def job_view_def pending_fits_def)
next
  case (query_proceeds i q t)
  have q: "ok t" "abs t = abs (sy_store x)" "pending_fits W (abs t) q"
    using asks_fits [OF system_ok_store [OF assms(2)] _ query_proceeds(3)] assms(2) query_proceeds(2)
    by (auto simp: system_ok_def)
  then show ?thesis
    using assms(2) query_proceeds(1) set_update_subset_insert [of "sy_queries x" i q]
    by (auto simp: system_ok_def job_view_def config_ok_def)
next
  case connects
  then show ?thesis
    using assms(2) by (simp add: system_ok_def job_view_def)
next
  case (connection_proceeds i l t cache)
  have l: "ok t" "abs t = abs (sy_store x)" "cache_in (o_tls W) UNIV cache" "task_ok (o_tls W) UNIV l"
    using task_step_ok [OF connection_proceeds(3) system_ok_store [OF assms(2)], of UNIV] assms(2) connection_proceeds(2)
    by (simp_all add: system_ok_def)
  then show ?thesis
    using assms(2) connection_proceeds(1) set_update_subset_insert [of "sy_connections x" i l]
    by (auto simp: system_ok_def job_view_def config_ok_def)
next
  case (requests env req r t m)
  then show ?thesis
    using requests_keeps [OF assms(2)] by simp
qed

lemma system_reaches_ok: "system_reaches W F x y \<Longrightarrow> system_ok W x \<Longrightarrow> system_ok W y"
  by (induction rule: system_reaches.induct) (auto intro: system_step_ok)

text \<open>A query that is answered now is answered as the data say now.\<close>

lemma answered_now:
  assumes "system_ok W x" and "(name, qt, k) \<in> set (sy_queries x)" and "\<forall>r. k \<noteq> Replied r"
    and "asks W F (name, qt, k) (sy_store x) = ((name, qt, Replied r), t)"
  shows "answers (o_errors W) r (answer (o_dns W) (o_errors W) (o_authority W) (abs (sy_store x)) name qt)"
proof -
  have step: "query_step (o_dns W) (o_errors W) F (o_authority W) name qt k (sy_store x) = (Replied r, t)"
    using assms(4) by (auto simp: asks_def split: prod.splits)
  have fits: "task_fits (o_dns W) (o_errors W) (o_authority W) name qt k (abs (sy_store x))"
    using assms(1-3) by (auto simp: system_ok_def pending_fits_def)
  have "abs t = abs (sy_store x) \<and>
      task_fits (o_dns W) (o_errors W) (o_authority W) name qt (Replied r) (abs t)"
    using query_step_fits [OF system_ok_store [OF assms(1)] fits step] by blast
  then show ?thesis
    by auto
qed

text \<open>While the manager waits for the server, the challenge name is answered with the proof.\<close>

lemma awaiting_answer:
  assumes "system_ok W x" and "sy_manager x = Awaiting c d chall"
    and "records (o_authority W) name = None" and "labels name = ''_acme-challenge'' # rest"
    and "\<not> name_is_empty (o_dns W) name" and "qt \<noteq> RT_SOA"
  shows "answer (o_dns W) E (o_authority W) (abs (sy_store x)) name qt
    = Ok (Lookup (from_rdata name 100 (RD_TXT [dns_proof (o_acme W) (sy_acme x) chall])))"
proof -
  have "a_cert (abs (sy_store x)) = Some c"
    "a_domains (abs (sy_store x)) (c_domain c) = Some (d\<lparr>d_txt := Some (dns_proof (o_acme W) (sy_acme x) chall)\<rparr>)"
    using assms(1,2) by (simp_all add: system_ok_def holds_job_def)
  then show ?thesis
    using assms(3-6) by (simp add: answer_def lookup_pre_def challenge_answer_def)
qed

text \<open>After a job the certificate stays as it is until the next tick.\<close>

lemma settled_step:
  assumes "system_step W F x y" and "system_ok W x" and "sy_manager x = Managed q" and "sy_manager y = Managed q'"
  shows "a_cert (abs (sy_store y)) = a_cert (abs (sy_store x))"
  using assms(1)
proof cases
  case (query_proceeds i q t)
  then show ?thesis
    using asks_fits [OF system_ok_store [OF assms(2)] _ query_proceeds(3)] assms(2) by (simp add: system_ok_def)
next
  case (connection_proceeds i l t cache)
  then show ?thesis
    using task_step_ok [OF connection_proceeds(3) system_ok_store [OF assms(2)], of UNIV] assms(2)
    by (simp add: system_ok_def)
next
  case (requests env req r t m)
  then show ?thesis
    using routes_effect [OF system_ok_store [OF assms(2)] requests(3)] by auto
qed (use assms(3,4) in auto)

lemma plays_ok: "ok s \<Longrightarrow> system_ok W (plays W F es (booted s w))"
  using system_reaches_ok [OF _ booted_ok] reaches_plays by metis

end

end
