(* ===== verification/System_Served.thy ===== *)
theory System_Served
  imports System
begin

text \<open>
  What the running program of \<open>System\<close> does for its clients: the server that looks for a challenge, the
  connections after a renewal, and the users who have registered. Each is answered within a fixed number of
  pieces of its own, whatever the other tasks do in between.
\<close>

section \<open>A connection that has read a certificate\<close>

text \<open>From then on it is on its way to the configuration of this certificate, whatever the others do.\<close>

fun serving :: "tls_lib \<Rightarrow> server_config \<Rightarrow> tls_task \<Rightarrow> bool" where
  "serving T config (Comparing (Ok (Some c))) \<longleftrightarrow> create_server_config T c = Ok config"
| "serving T config (Creating c) \<longleftrightarrow> create_server_config T c = Ok config"
| "serving T config (Storing c g) \<longleftrightarrow> g = config"
| "serving T config (Answered g) \<longleftrightarrow> g = config"
| "serving T config _ \<longleftrightarrow> False"

lemma serving_step:
  assumes "task_step T F l (s, cache) = (l', t, cache')" and "serving T config l" and "cache_ok T cache"
  shows "serving T config l'"
proof -
  have same: "snd cache = config" if c: "create_server_config T c = Ok config" "same_cached c (fst cache)" for c
  proof -
    obtain c' where "fst cache = Some c'" "cert_eq c c'"
      using c(2) by (cases "fst cache") (auto simp: same_cached_def)
    then show ?thesis
      using assms(3) create_server_config_eq [of c c' T config] c(1) by (simp add: cache_ok_def)
  qed
  show ?thesis
    using assms(1,2) same by (cases "(T, config, l)" rule: serving.cases) (auto split: if_splits)
qed

fun pieces_left :: "tls_task \<Rightarrow> nat" where
  "pieces_left (Comparing r) = 3"
| "pieces_left (Creating c) = 2"
| "pieces_left (Storing c g) = 1"
| "pieces_left _ = 0"

lemma pieces_left_step:
  assumes "task_step T F l x = (l', y)" and "serving T config l"
  shows "pieces_left l' \<le> pieces_left l - 1"
  using assms by (cases "(T, config, l)" rule: serving.cases; cases x) (auto split: if_splits)

lemma serving_answered: "serving T config l \<Longrightarrow> pieces_left l = 0 \<Longrightarrow> l = Answered config"
  by (cases "(T, config, l)" rule: serving.cases) auto

lemma happens_other_connection:
  assumes "i < length (sy_connections x)" and "e \<noteq> Serve i"
  shows "i < length (sy_connections (happens W F e x)) \<and>
    sy_connections (happens W F e x) ! i = sy_connections x ! i"
  using assms by (cases e) (auto simp: nth_append split: prod.split manager_task.split)

lemma happens_other_query:
  assumes "i < length (sy_queries x)" and "e \<noteq> Query i"
  shows "i < length (sy_queries (happens W F e x)) \<and> sy_queries (happens W F e x) ! i = sy_queries x ! i"
  using assms by (cases e) (auto simp: nth_append split: prod.split manager_task.split)

text \<open>A user's domain that is not the certificate's, and the identities that are drawn.\<close>

definition user_there :: "string \<Rightarrow> domain \<Rightarrow> astate \<Rightarrow> bool" where
  "user_there i d a \<longleftrightarrow> a_domains a i = Some d \<and> (\<forall>c. a_cert a = Some c \<longrightarrow> c_domain c \<noteq> i)"

fun drawn_id :: "event \<Rightarrow> string option" where
  "drawn_id (Tick env) = Some (uuid (drawn env 1))"
| "drawn_id (Request env req) = Some (dto_id (dto_default env))"
| "drawn_id _ = None"

fun about_to_draw :: "manager_task \<Rightarrow> string option" where
  "about_to_draw (Starting env) = Some (uuid (drawn env 1))"
| "about_to_draw _ = None"

lemma user_start:
  assumes "user_there i d a" and "uuid (drawn env 1) \<noteq> i"
  shows "user_there i d (snd (start_spec env a))"
  using assms by (cases rule: start_spec_cases [of a env])
    (auto simp: user_there_def dest: domain_new_OkD cert_new_OkD)

lemma user_stop:
  assumes "user_there i d a" and "a_cert a = Some c" and "c_domain m = c_domain c"
  shows "user_there i d (snd (stop_spec m a))"
  using assms by (auto simp: user_there_def stop_spec_def Let_def)

lemma user_add: "user_there i d a \<Longrightarrow> d_id d' \<noteq> i \<Longrightarrow> user_there i d (add_domain d' a)"
  by (simp add: user_there_def)

lemma draws_next: "manager_step A F k sw = (k', sw') \<Longrightarrow> about_to_draw k' = None"
  by (cases k) (auto simp: go_on_def split: prod.splits outcome.splits if_splits option.splits)

text \<open>A query's pieces.\<close>

fun asks_left :: "'e dns_task \<Rightarrow> nat" where
  "asks_left Arrived = 3"
| "asks_left Asking_cert = 2"
| "asks_left (Asking_domain c) = 1"
| "asks_left (Asking_user first) = 1"
| "asks_left (Replied r) = 0"

lemma asks_left_step:
  assumes "query_step L E F auth name qt k s = (k', t)"
  shows "asks_left k' \<le> asks_left k - 1"
  using assms by (cases k) (auto split: if_splits list.splits outcome.splits option.splits prod.splits)

lemma asks_left_0: "asks_left k = 0 \<Longrightarrow> \<exists>r. k = Replied r"
  by (cases k) auto

context facade_provider
begin

lemma happens_ok: "system_ok W x \<Longrightarrow> system_ok W (happens W F e x)"
  using happens_step [of W F e x] system_step_ok by metis

lemma serve_piece:
  assumes "system_ok W x" and "i < length (sy_connections x)" and "serving (o_tls W) config (sy_connections x ! i)"
  shows "i < length (sy_connections (happens W F e x)) \<and>
    serving (o_tls W) config (sy_connections (happens W F e x) ! i) \<and>
    pieces_left (sy_connections (happens W F e x) ! i)
      \<le> pieces_left (sy_connections x ! i) - (if e = Serve i then 1 else 0)"
proof (cases "e = Serve i")
  case False
  then show ?thesis
    using happens_other_connection [OF assms(2) False, of W F] assms(3) by simp
next
  case True
  obtain l t cache where step: "task_step (o_tls W) F (sy_connections x ! i) (sy_store x, sy_cache x) = (l, t, cache)"
    using prod_cases3 by blast
  have "cache_ok (o_tls W) (sy_cache x)"
    using assms(1) by (simp add: system_ok_def cache_in_def)
  then show ?thesis
    using serving_step [OF step assms(3)] pieces_left_step [OF step assms(3)] True step assms(2) by simp
qed

lemma served:
  "system_ok W x \<Longrightarrow> i < length (sy_connections x) \<Longrightarrow> serving (o_tls W) config (sy_connections x ! i) \<Longrightarrow>
    serving (o_tls W) config (sy_connections (plays W F es x) ! i) \<and>
    pieces_left (sy_connections (plays W F es x) ! i) \<le> pieces_left (sy_connections x ! i) - count_list es (Serve i)"
proof (induction es arbitrary: x)
  case Nil
  then show ?case by simp
next
  case (Cons e es)
  note piece = serve_piece [OF Cons.prems, of e]
  then show ?case
    using Cons.IH [OF happens_ok [OF Cons.prems(1)], of e] by (cases "e = Serve i") auto
qed

lemma waits:
  assumes "e \<noteq> Manage" and "sy_manager x = Awaiting c d chall"
  shows "sy_manager (happens W F e x) = Awaiting c d chall \<and> sy_acme (happens W F e x) = sy_acme x"
  using assms by (cases e) (auto split: prod.split)

lemma query_piece:
  assumes "system_ok W x" and "answer (o_dns W) (o_errors W) (o_authority W) (abs (sy_store x)) name qt = v"
    and "i < length (sy_queries x)" and "sy_queries x ! i = (name, qt, k)"
    and "\<forall>r. k = Replied r \<longrightarrow> answers (o_errors W) r v"
  shows "\<exists>k'. i < length (sy_queries (happens W F e x)) \<and> sy_queries (happens W F e x) ! i = (name, qt, k') \<and>
    asks_left k' \<le> asks_left k - (if e = Query i then 1 else 0) \<and>
    (\<forall>r. k' = Replied r \<longrightarrow> answers (o_errors W) r v)"
proof (cases "e = Query i")
  case False
  then show ?thesis
    using happens_other_query [OF assms(3) False, of W F] assms(4,5) by auto
next
  case True
  obtain k' t where step: "query_step (o_dns W) (o_errors W) F (o_authority W) name qt k (sy_store x) = (k', t)"
    by (cases "query_step (o_dns W) (o_errors W) F (o_authority W) name qt k (sy_store x)")
  then have asked: "asks W F (name, qt, k) (sy_store x) = ((name, qt, k'), t)"
    by (simp add: asks_def)
  have "answers (o_errors W) r v" if r: "k' = Replied r" for r
  proof (cases "\<exists>q. k = Replied q")
    case True
    then show ?thesis
      using step r assms(5) by auto
  next
    case False
    show ?thesis
      unfolding assms(2) [symmetric]
      by (rule answered_now [OF assms(1), of name qt k _ t])
        (use False asked r assms(4) nth_mem [OF assms(3)] in auto)
  qed
  then show ?thesis
    using asked True assms(3,4) asks_left_step [OF step] by (intro exI [of _ k']) simp
qed

text \<open>
  While something holds that fixes the specified answer, and only events happen that keep it, every open
  query gets that answer once it has made its pieces.
\<close>

lemma queries_replied:
  assumes keeps: "\<And>x e. P x \<Longrightarrow> e \<in> A \<Longrightarrow> P (happens W F e x)"
    and fixes_answer: "\<And>x. P x \<Longrightarrow> system_ok W x \<and>
      answer (o_dns W) (o_errors W) (o_authority W) (abs (sy_store x)) name qt = v"
    and "P x" and "i < length (sy_queries x)" and "sy_queries x ! i = (name, qt, k)"
    and "\<forall>r. k = Replied r \<longrightarrow> answers (o_errors W) r v"
    and "set es \<subseteq> A" and "asks_left k \<le> count_list es (Query i)"
  shows "\<exists>r. sy_queries (plays W F es x) ! i = (name, qt, Replied r) \<and> answers (o_errors W) r v"
  using assms(3-)
proof (induction es arbitrary: x k)
  case Nil
  then show ?case
    using asks_left_0 [of k] by auto
next
  case (Cons e es)
  have "system_ok W x" "answer (o_dns W) (o_errors W) (o_authority W) (abs (sy_store x)) name qt = v"
    using fixes_answer [OF Cons.prems(1)] by blast+
  from query_piece [OF this Cons.prems(2-4), of e]
  obtain k' where k': "i < length (sy_queries (happens W F e x))" "sy_queries (happens W F e x) ! i = (name, qt, k')"
    "asks_left k' \<le> asks_left k - (if e = Query i then 1 else 0)"
    "\<forall>r. k' = Replied r \<longrightarrow> answers (o_errors W) r v"
    by auto
  have "asks_left k' \<le> count_list es (Query i)"
    using k'(3) Cons.prems(6) by (auto split: if_splits)
  then show ?case
    using Cons.IH [OF keeps [OF Cons.prems(1)] k'(1,2,4)] Cons.prems(5) by simp
qed

text \<open>The queries, while the manager waits for the server.\<close>

lemma queries_while_waiting:
  assumes "system_ok W x" and "sy_manager x = Awaiting c d chall"
    and "i < length (sy_queries x)" and "sy_queries x ! i = (name, qt, k)" and "\<forall>r. k \<noteq> Replied r"
    and name: "records (o_authority W) name = None" "labels name = ''_acme-challenge'' # rest"
      "\<not> name_is_empty (o_dns W) name" "qt \<noteq> RT_SOA"
    and "Manage \<notin> set es" and "asks_left k \<le> count_list es (Query i)"
  shows "\<exists>r. sy_queries (plays W F es x) ! i = (name, qt, Replied r) \<and>
    answers (o_errors W) r (Ok (Lookup (from_rdata name 100 (RD_TXT [dns_proof (o_acme W) (sy_acme x) chall]))))"
proof (rule queries_replied [where A = "- {Manage}"
      and P = "\<lambda>y. system_ok W y \<and> sy_manager y = Awaiting c d chall \<and> sy_acme y = sy_acme x"])
  fix y e
  assume y: "system_ok W y \<and> sy_manager y = Awaiting c d chall \<and> sy_acme y = sy_acme x" and "e \<in> - {Manage}"
  then have "sy_manager (happens W F e y) = Awaiting c d chall \<and> sy_acme (happens W F e y) = sy_acme y"
    by (intro waits) auto
  then show "system_ok W (happens W F e y) \<and> sy_manager (happens W F e y) = Awaiting c d chall \<and>
      sy_acme (happens W F e y) = sy_acme x"
    using happens_ok [of W y e] y by auto
next
  fix y
  assume y: "system_ok W y \<and> sy_manager y = Awaiting c d chall \<and> sy_acme y = sy_acme x"
  then have "answer (o_dns W) (o_errors W) (o_authority W) (abs (sy_store y)) name qt
      = Ok (Lookup (from_rdata name 100 (RD_TXT [dns_proof (o_acme W) (sy_acme y) chall])))"
    by (intro awaiting_answer [OF _ _ name]) auto
  with y show "system_ok W y \<and> answer (o_dns W) (o_errors W) (o_authority W) (abs (sy_store y)) name qt
      = Ok (Lookup (from_rdata name 100 (RD_TXT [dns_proof (o_acme W) (sy_acme x) chall])))"
    by simp
qed (use assms in auto)

text \<open>A user's domain stays as it is.\<close>

lemma manager_user:
  assumes "ok s" and "manager_ok A (abs s) w k" and "manager_step A F k (s, w) = (k', (t, v))"
    and "user_there i d (abs s)" and "about_to_draw k \<noteq> Some i"
  shows "user_there i d (abs t)"
proof (cases k)
  case (Starting env)
  obtain r where start: "start_cert F env s = (r, t)"
    using assms(3) Starting by (cases "start_cert F env s") (auto simp: go_on_def on_facade_def)
  have "abs t = abs s \<or> abs t = snd (start_spec env (abs s))"
    using start_Ok [of env s _ t] start_Err [of env s _ t] start_Panic [of env s _ t] start assms(1)
    by (cases r) auto
  then show ?thesis
    using user_start [OF assms(4), of env] assms(4,5) Starting by auto
next
  case (Finding c)
  have "\<exists>r. find_domain_by_id F (c_domain c) s = (r, t)"
    using assms(3) Finding by (cases "find_domain_by_id F (c_domain c) s")
      (auto simp: go_on_def on_facade_def map_err_op_def bind_op_def lift_outcome_def ok_or_def
        split: outcome.splits option.splits)
  then have "abs t = abs s"
    using find_frame assms(1) by blast
  then show ?thesis
    using assms(4) by simp
next
  case (Publishing c d' chall)
  let ?d = "d'\<lparr>d_txt := Some (dns_proof A w chall)\<rparr>"
  have held: "a_cert (abs s) = Some c" "d_id d' = c_domain c" "a_domains (abs s) (d_id ?d) \<noteq> None"
    using assms(2) Publishing by (auto simp: holds_job_def domain_there_def)
  obtain r where upd: "update_domain F ?d s = (r, t)"
    using assms(3) Publishing by (cases "update_domain F ?d s")
      (auto simp: go_on_def joining_def joined_def on_facade_def map_err_op_def split: outcome.splits)
  have "abs t = abs s \<or> abs t = add_domain ?d (abs s)"
    using update_Ok [OF _ assms(1) held(3), of _ t] update_Err [OF _ assms(1) held(3), of _ t]
      update_Panic [OF _ assms(1), of ?d _ t] held(3) upd by (cases r) auto
  then show ?thesis
    using assms(4) held(1,2) user_add [OF assms(4), of ?d] by (auto simp: user_there_def)
next
  case (Stopping c kc)
  let ?m = "finished c (Some (snd kc)) (Some (fst kc))"
  have held: "a_cert (abs s) = Some c"
    using assms(2) Stopping by (simp add: holds_job_def)
  then have same: "same_job ?m (abs s)"
    by (simp add: same_job_def)
  obtain r where stop: "stop_cert F ?m s = (r, t)"
    using assms(3) Stopping by (cases "stop_cert F ?m s")
      (auto simp: go_on_def with_keys_finished on_facade_def map_err_op_def split: outcome.splits)
  have "abs t = abs s \<or> abs t = snd (stop_spec ?m (abs s))"
    using stop_Ok [of ?m s _ t] stop_Err [of ?m s _ t] stop_Panic [of ?m s _ t] stop assms(1) same
    by (cases r) auto
  then show ?thesis
    using user_stop [OF assms(4) held, of ?m] assms(4) by auto
next
  case (Awaiting c d' chall)
  then show ?thesis
    using acme_piece_ok [OF assms(1), of c d' k A w k' t v] awaiting_there [of A "abs s" w c d' chall] assms by auto
next
  case (Ordering c d')
  then show ?thesis
    using acme_piece_ok [OF assms(1), of c d' k A w k' t v] assms by auto
next
  case (Confirming c d')
  then show ?thesis
    using acme_piece_ok [OF assms(1), of c d' k A w k' t v] assms by auto
next
  case (Managed r)
  then show ?thesis
    using assms(3,4) by simp
qed

lemma user_kept:
  assumes "system_ok W x" and "user_there i d (abs (sy_store x))" and "about_to_draw (sy_manager x) \<noteq> Some i"
    and "drawn_id e \<noteq> Some i"
  shows "user_there i d (abs (sy_store (happens W F e x))) \<and> about_to_draw (sy_manager (happens W F e x)) \<noteq> Some i"
proof (cases e)
  case (Tick env)
  then show ?thesis
    using assms(2-4) by (cases "sy_manager x") auto
next
  case Manage
  obtain k t v where step: "manager_step (o_acme W) F (sy_manager x) (sy_store x, sy_acme x) = (k, (t, v))"
    using prod_cases3 by blast
  have "manager_ok (o_acme W) (abs (sy_store x)) (sy_acme x) (sy_manager x)"
    using assms(1) by (simp add: system_ok_def)
  then show ?thesis
    using manager_user [OF system_ok_store [OF assms(1)] _ step assms(2,3)] draws_next [OF step] step Manage by simp
next
  case (Query j)
  show ?thesis
  proof (cases "j < length (sy_queries x)")
    case True
    obtain q t where step: "asks W F (sy_queries x ! j) (sy_store x) = (q, t)"
      by (cases "asks W F (sy_queries x ! j) (sy_store x)")
    have "pending_fits W (abs (sy_store x)) (sy_queries x ! j)"
      using assms(1) True by (simp add: system_ok_def)
    then have "abs t = abs (sy_store x)"
      using asks_fits [OF system_ok_store [OF assms(1)] _ step] by blast
    then show ?thesis
      using assms(2,3) step True Query by simp
  next
    case False
    then show ?thesis
      using assms(2,3) Query by simp
  qed
next
  case (Serve j)
  show ?thesis
  proof (cases "j < length (sy_connections x)")
    case True
    obtain l t cache where step: "task_step (o_tls W) F (sy_connections x ! j) (sy_store x, sy_cache x) = (l, t, cache)"
      using prod_cases3 by blast
    have "task_ok (o_tls W) UNIV (sy_connections x ! j)" "cache_in (o_tls W) UNIV (sy_cache x)"
      using assms(1) True by (simp_all add: system_ok_def)
    then have "abs t = abs (sy_store x)"
      using task_step_ok [OF step system_ok_store [OF assms(1)]] by blast
    then show ?thesis
      using assms(2,3) step True Serve by simp
  next
    case False
    then show ?thesis
      using assms(2,3) Serve by simp
  qed
next
  case (Request env req)
  obtain r t m where step: "routes (o_json W) F env req (sy_store x, sy_metrics x) = (r, (t, m))"
    using prod_cases3 by blast
  show ?thesis
    using routes_effect [OF system_ok_store [OF assms(1)] step] assms(2-4) step Request user_add [OF assms(2)] by auto
qed (use assms in auto)

lemma users_kept:
  "system_ok W x \<Longrightarrow> user_there i d (abs (sy_store x)) \<Longrightarrow> about_to_draw (sy_manager x) \<noteq> Some i \<Longrightarrow>
    Some i \<notin> drawn_id ` set es \<Longrightarrow> system_ok W (plays W F es x) \<and> user_there i d (abs (sy_store (plays W F es x))) \<and>
    about_to_draw (sy_manager (plays W F es x)) \<noteq> Some i"
proof (induction es arbitrary: x)
  case Nil
  then show ?case by simp
next
  case (Cons e es)
  then have "drawn_id e \<noteq> Some i" "Some i \<notin> drawn_id ` set es"
    by auto
  then show ?case
    using Cons.IH [OF happens_ok [OF Cons.prems(1)]] user_kept [OF Cons.prems(1-3)] by simp
qed

text \<open>The queries for a user without a text.\<close>

lemma queries_for_user:
  assumes "system_ok W x" and "user_there (uuid u) d (abs (sy_store x))" and "d_txt d = None"
    and "about_to_draw (sy_manager x) \<noteq> Some (uuid u)"
    and "j < length (sy_queries x)" and "sy_queries x ! j = (name, qt, k)" and "\<forall>r. k \<noteq> Replied r"
    and name: "records (o_authority W) name = None" "labels name = uuid u # rest"
      "\<not> name_is_empty (o_dns W) name" "qt \<noteq> RT_SOA"
    and "Some (uuid u) \<notin> drawn_id ` set es" and "asks_left k \<le> count_list es (Query j)"
  shows "\<exists>r. sy_queries (plays W F es x) ! j = (name, qt, Replied r) \<and> answers (o_errors W) r (Ok Lookup_Empty)"
proof (rule queries_replied [where A = "{e. drawn_id e \<noteq> Some (uuid u)}" and P = "\<lambda>y. system_ok W y \<and>
      user_there (uuid u) d (abs (sy_store y)) \<and> about_to_draw (sy_manager y) \<noteq> Some (uuid u)"])
  fix y e
  assume "system_ok W y \<and> user_there (uuid u) d (abs (sy_store y)) \<and> about_to_draw (sy_manager y) \<noteq> Some (uuid u)"
    and "e \<in> {e. drawn_id e \<noteq> Some (uuid u)}"
  then show "system_ok W (happens W F e y) \<and> user_there (uuid u) d (abs (sy_store (happens W F e y))) \<and>
      about_to_draw (sy_manager (happens W F e y)) \<noteq> Some (uuid u)"
    using happens_ok [of W y e] user_kept [of W y "uuid u" d e] by blast
next
  fix y
  assume y: "system_ok W y \<and> user_there (uuid u) d (abs (sy_store y)) \<and> about_to_draw (sy_manager y) \<noteq> Some (uuid u)"
  then have "a_domains (abs (sy_store y)) (uuid u) = Some d"
    by (simp add: user_there_def)
  then have "answer (o_dns W) (o_errors W) (o_authority W) (abs (sy_store y)) name qt = Ok Lookup_Empty"
    using name assms(3) by (simp add: answer_def lookup_pre_def domain_answer_def uuid_utf8 uuid_not_challenge)
  with y show "system_ok W y \<and>
      answer (o_dns W) (o_errors W) (o_authority W) (abs (sy_store y)) name qt = Ok Lookup_Empty"
    by blast
next
  show "set es \<subseteq> {e. drawn_id e \<noteq> Some (uuid u)}"
    using assms(12) by (auto simp: image_iff)
qed (use assms in auto)

text \<open>A registration that is answered with 201 has stored the domain.\<close>

lemma registered_now:
  assumes "system_ok W x" and "is_register req" and "a_domains (abs (sy_store x)) (dto_id (dto_default env)) = None"
    and "y = happens W F (Request env req) x" and "last (sy_replies y) = Ok (Some res)" and "rp_status res = 201"
  shows "\<exists>d. user_there (dto_id (dto_default env)) d (abs (sy_store y)) \<and> d_txt d = None \<and> sy_manager y = sy_manager x"
proof -
  have s: "ok (sy_store x)"
    by (rule system_ok_store [OF assms(1)])
  have "config_ok (sy_store x, held (sy_manager x))"
    using assms(1) by (simp add: system_ok_def job_view_def)
  then have "\<forall>c \<in> set (held (sy_manager x)). a_domains (abs (sy_store x)) (c_domain c) \<noteq> None"
    using config_ok_domain by blast
  then have free: "dto_id (dto_default env) \<notin> c_domain ` set (held (sy_manager x))"
    using assms(3) by auto
  obtain r t m where step: "routes (o_json W) F env req (sy_store x, sy_metrics x) = (r, (t, m))"
    using prod_cases3 by blast
  have y: "sy_store y = t" "sy_manager y = sy_manager x" "r = Ok (Some res)"
    using assms(4,5) step free by simp_all
  have reg: "register_handler (o_json W) F env (sy_store x) = (Ok res, t)"
    using step y(3) routes_register [OF assms(2), of "o_json W" F env "sy_store x" "sy_metrics x"]
    by (auto split: prod.splits outcome.splits)
  then obtain d where d: "domain_try_from env (dto_default env) = Ok d" "abs t = add_domain d (abs (sy_store x))"
    using register_run [OF s reg] assms(6) by auto
  have "d_id d = dto_id (dto_default env)" "d_txt d = None"
    using try_from_Ok [OF d(1)] by (simp_all add: dto_default_def)
  moreover have "c_domain c \<noteq> dto_id (dto_default env)" if "a_cert (abs (sy_store x)) = Some c" for c
    using a_wf_cert [OF wf [OF s] that] assms(3) by auto
  ultimately show ?thesis
    using d(2) y(1,2) by (auto simp: user_there_def)
qed

lemma settled:
  "system_ok W x \<Longrightarrow> sy_manager x = Managed q \<Longrightarrow> \<forall>env. Tick env \<notin> set es \<Longrightarrow>
    a_cert (abs (sy_store (plays W F es x))) = a_cert (abs (sy_store x))"
proof (induction es arbitrary: x)
  case Nil
  then show ?case by simp
next
  case (Cons e es)
  have idle: "sy_manager (happens W F e x) = Managed q"
    using Cons.prems(2,3) by (cases e) (auto split: prod.split)
  have "a_cert (abs (sy_store (happens W F e x))) = a_cert (abs (sy_store x))"
    using happens_step [of W F e x] settled_step [OF _ Cons.prems(1,2) idle] by metis
  then show ?case
    using Cons.IH [OF happens_ok [OF Cons.prems(1)] idle] Cons.prems(3) by simp
qed

text \<open>A connection that reads the store after a job and before the next tick is served the job's certificate.\<close>

lemma job_ends:
  assumes "system_ok W x" and "sy_manager x = Stopping c kc" and "sy_manager (happens W F Manage x) = Managed (Ok ())"
  shows "a_cert (abs (sy_store (happens W F Manage x))) = Some ((with_keys c kc)\<lparr>c_state := State_Ok\<rparr>)"
proof -
  obtain k t v where step: "manager_step (o_acme W) F (sy_manager x) (sy_store x, sy_acme x) = (k, (t, v))"
    using prod_cases3 by blast
  have "holds_job (abs (sy_store x)) c"
    using assms(1,2) by (simp add: system_ok_def)
  then show ?thesis
    using stop_piece [OF system_ok_store [OF assms(1)] _ step [unfolded assms(2)]] assms(3) step by simp
qed

lemma connection_reads:
  assumes "system_ok W x" and "i < length (sy_connections x)" and "sy_connections x ! i = Asking"
    and "fst (first_cert F (sy_store x)) = Ok q" and "a_cert (abs (sy_store x)) = Some c"
    and "create_server_config (o_tls W) c = Ok config"
  shows "i < length (sy_connections (happens W F (Serve i) x)) \<and>
    serving (o_tls W) config (sy_connections (happens W F (Serve i) x) ! i) \<and>
    pieces_left (sy_connections (happens W F (Serve i) x) ! i) = 3"
proof -
  obtain t where first: "first_cert F (sy_store x) = (Ok q, t)"
    using assms(4) by (cases "first_cert F (sy_store x)") simp
  have "q = Some c"
    using first_Ok [OF first system_ok_store [OF assms(1)]] assms(5) by simp
  then show ?thesis
    using first assms(2,3,6) by simp
qed

lemma job_served:
  assumes x: "system_ok W x" "sy_manager x = Stopping c kc" "sy_manager (happens W F Manage x) = Managed (Ok ())"
    and z: "z = plays W F fs (happens W F Manage x)" "\<forall>env. Tick env \<notin> set fs"
    and i: "i < length (sy_connections z)" "sy_connections z ! i = Asking" "fst (first_cert F (sy_store z)) = Ok q"
    and made: "create_server_config (o_tls W) (with_keys c kc) = Ok config" and gs: "3 \<le> count_list gs (Serve i)"
  shows "sy_connections (plays W F gs (happens W F (Serve i) z)) ! i = Answered config"
proof -
  have ok: "system_ok W (happens W F Manage x)"
    by (rule happens_ok [OF x(1)])
  have okz: "system_ok W z"
    unfolding z(1) by (rule system_reaches_ok [OF _ ok]) (use reaches_plays in blast)
  have "a_cert (abs (sy_store z)) = Some ((with_keys c kc)\<lparr>c_state := State_Ok\<rparr>)"
    using settled [OF ok x(3) z(2)] job_ends [OF x] z(1) by simp
  moreover have "create_server_config (o_tls W) ((with_keys c kc)\<lparr>c_state := State_Ok\<rparr>) = Ok config"
    by (rule create_server_config_eq [OF _ made]) (simp add: cert_eq_def)
  ultimately have reads: "i < length (sy_connections (happens W F (Serve i) z))"
      "serving (o_tls W) config (sy_connections (happens W F (Serve i) z) ! i)"
      "pieces_left (sy_connections (happens W F (Serve i) z) ! i) = 3"
    using connection_reads [OF okz i] by blast+
  show ?thesis
    using served [OF happens_ok [OF okz] reads(1,2), of gs] reads(3) gs by (intro serving_answered) auto
qed

end

section \<open>Properties\<close>

text \<open>Where the manager is, without the time it started at.\<close>

fun awaited :: "manager_task \<Rightarrow> (cert \<times> domain \<times> string) option" where
  "awaited (Awaiting c d chall) = Some (c, d, chall)"
| "awaited _ = None"

lemma awaited_eq [simp]: "awaited k = Some (c, d, chall) \<longleftrightarrow> k = Awaiting c d chall"
  by (cases k) auto

fun to_stop :: "manager_task \<Rightarrow> (cert \<times> string \<times> string) option" where
  "to_stop (Stopping c kc) = Some (c, kc)"
| "to_stop _ = None"

lemma to_stop_eq [simp]: "to_stop k = Some (c, kc) \<longleftrightarrow> k = Stopping c kc"
  by (cases k) auto

fun managed :: "manager_task \<Rightarrow> (any_err, unit) outcome option" where
  "managed (Managed r) = Some r"
| "managed _ = None"

lemma managed_eq [simp]: "managed k = Some r \<longleftrightarrow> k = Managed r"
  by (cases k) auto

text \<open>Any key file holds one key.\<close>

definition any_key_tls :: tls_lib where
  "any_key_tls = example_tls\<lparr>rsa_private_keys := (\<lambda>p. Some [p])\<rparr>"

definition example_outside :: "(nat, io_error) outside" where
  "example_outside = \<lparr>o_dns = example_lib, o_errors = io_errors, o_authority = example_authority,
     o_tls = any_key_tls, o_acme = example_acme,
     o_json = (\<lambda>_. Some ''json'')\<rparr>"

text \<open>
  C6: The challenge is served while the server looks. In any run of the program on the database, while
  the manager waits for the ACME server to validate a challenge, every query for the challenge name that is
  not answered yet, also one that has read the certificate before the job began, is answered after at most
  three of its pieces, whatever queries, connections and HTTP requests come between, and the answer is
  exactly the proof of that challenge or an error of the store, unless a preconfigured record exists for
  the name.
\<close>

theorem challenge_served:
  fixes s :: db
  assumes "tables_ok s" and "sy_manager (plays W database_facade es (booted s w)) = Awaiting c d chall"
    and "i < length (sy_queries (plays W database_facade es (booted s w)))"
    and "sy_queries (plays W database_facade es (booted s w)) ! i = (name, qt, k)" and "\<forall>r. k \<noteq> Replied r"
    and "records (o_authority W) name = None" and "labels name = ''_acme-challenge'' # rest"
    and "\<not> name_is_empty (o_dns W) name" and "qt \<noteq> RT_SOA"
    and "Manage \<notin> set fs" and "3 \<le> count_list fs (Query i)"
  shows "\<exists>r. sy_queries (plays W database_facade (es @ fs) (booted s w)) ! i = (name, qt, Replied r) \<and>
    (r = Ok (Lookup (from_rdata name 100
        (RD_TXT [dns_proof (o_acme W) (sy_acme (plays W database_facade es (booted s w))) chall]))) \<or>
     (\<exists>e. r = Err (io_err (o_errors W) (sqlx_text (o_errors W) e))))"
proof -
  have "asks_left k \<le> 3"
    by (cases k) simp_all
  then show ?thesis
    using database.queries_while_waiting [OF database.plays_ok [OF assms(1)] assms(2-10)] assms(11)
    by (simp add: answers_def)
qed

definition example_registration :: event where
  "example_registration = Request (db_env 0 9000) \<lparr>rq_method = ''POST'', rq_path = ''/register'', rq_headers = []\<rparr>"

definition challenge_start :: "event list" where
  "challenge_start = [Tick (db_env 0 9000), Manage, Manage, Manage, Ask (example_name ''_acme-challenge'') RT_TXT,
     Query 0, Query 0, Manage, Manage]"

theorem challenge_served_witness:
  "sy_manager (plays example_outside database_facade challenge_start (booted (example_db (renewed_cert State_Ok) []) 0))
      = Awaiting (renewed_cert Updating) \<lparr>d_id = ''d'', d_username = ''u'', d_password = ''p'', d_txt = None\<rparr> ''chal'' \<and>
   (\<exists>r. sy_queries (plays example_outside database_facade (challenge_start @ [Query 0, example_registration, Query 0, Query 0])
        (booted (example_db (renewed_cert State_Ok) []) 0)) ! 0 = (example_name ''_acme-challenge'', RT_TXT, Replied r) \<and>
      r \<in> {Ok (Lookup (from_rdata (example_name ''_acme-challenge'') 100 (RD_TXT [''proof'']))), Err (IoCustom Other ''sqlx'')})"
proof -
  let ?s = "example_db (renewed_cert State_Ok) []" and ?name = "example_name ''_acme-challenge''"
  let ?x = "plays example_outside database_facade challenge_start (booted ?s 0)"
  let ?fs = "[Query 0, example_registration, Query 0, Query 0]"
  have ok: "tables_ok ?s"
    by (rule example_db_ok) (simp add: renewed_cert_def)
  have "awaited (sy_manager ?x) = Some (renewed_cert Updating,
      \<lparr>d_id = ''d'', d_username = ''u'', d_password = ''p'', d_txt = None\<rparr>, ''chal'')"
    by code_simp
  then have manager: "sy_manager ?x = Awaiting (renewed_cert Updating)
      \<lparr>d_id = ''d'', d_username = ''u'', d_password = ''p'', d_txt = None\<rparr> ''chal''"
    by simp
  have query: "map fst (sy_queries ?x) = [?name]" "map (fst \<circ> snd) (sy_queries ?x) = [RT_TXT]"
      "map (\<lambda>(_, _, k). asks_left k) (sy_queries ?x) = [1]"
    by code_simp+
  then obtain k where k: "sy_queries ?x = [(?name, RT_TXT, k)]" "asks_left k = 1"
    by (cases "sy_queries ?x") auto
  have "sy_queries ?x ! 0 = (?name, RT_TXT, k)" "0 < length (sy_queries ?x)" "\<forall>r. k \<noteq> Replied r"
    using k by auto
  note open_query = this
  have names: "records (o_authority example_outside) ?name = None"
      "labels ?name = ''_acme-challenge'' # [''acme'', ''example'', ''com'']" "\<not> name_is_empty (o_dns example_outside) ?name"
      "RT_TXT \<noteq> RT_SOA"
    by (simp_all add: example_outside_def example_authority_def example_name_def example_lib_def example_dns_def)
  have fs: "Manage \<notin> set ?fs" "3 \<le> count_list ?fs (Query 0)"
    by (simp_all add: example_registration_def)
  have proof_text: "dns_proof (o_acme example_outside) v ''chal'' = ''proof''" for v
    by (simp add: example_outside_def example_acme_def)
  have failure: "io_err (o_errors example_outside) (sqlx_text (o_errors example_outside) e) = IoCustom Other ''sqlx''" for e
    by (simp add: example_outside_def io_errors_def io_err_def)
  show ?thesis
    using challenge_served [OF ok manager open_query(2,1,3) names fs] manager
    unfolding proof_text failure by blast
qed

text \<open>
  How a renewed certificate would reach the clients. In any run of the program on the database, when the
  manager finishes its job, and if the PEM reader and rustls accept the downloaded key and certificate, then
  every connection that reads the store successfully after that and before the next tick ends, after at
  most three more of its pieces, with the chain of the downloaded certificate and the last of the downloaded
  keys: whatever was cached, and whatever other connections, queries, HTTP requests and jobs come between.
  The keys that the program asks for are not accepted (\<open>managed_cert_never_offered\<close> in \<open>System_Tls\<close>), so
  this is about the cache and the order of events alone.
\<close>

theorem renewal_served:
  fixes s :: db
  assumes "tables_ok s" and "x = plays W database_facade es (booted s w)"
    and "sy_manager x = Stopping c (key, crt)" and "sy_manager (happens W database_facade Manage x) = Managed (Ok ())"
    and "z = plays W database_facade fs (happens W database_facade Manage x)" and "\<forall>env. Tick env \<notin> set fs"
    and "i < length (sy_connections z)" and "sy_connections z ! i = Asking"
    and "fst (first_cert database_facade (sy_store z)) = Ok q"
    and "create_server_config (o_tls W) (c\<lparr>c_private := Some key, c_cert := Some crt\<rparr>) = Ok config"
    and "3 \<le> count_list gs (Serve i)"
  shows "sy_connections (plays W database_facade gs (happens W database_facade (Serve i) z)) ! i = Answered config \<and>
    (\<exists>w1 v. download_and_save_cert (o_acme W) w1 = (Ok (key, crt), v)) \<and>
    (\<exists>keys chain. rsa_private_keys (o_tls W) key = Some keys \<and> pem_certs (o_tls W) crt = Some chain \<and>
       sc_cert config = Some (chain, last keys) \<and> sc_alpn config = [''h2'', ''http/1.1''])"
proof -
  have ok: "database.system_ok W x"
    unfolding assms(2) by (rule database.plays_ok [OF assms(1)])
  have "\<exists>w1 v. download_and_save_cert (o_acme W) w1 = (Ok (key, crt), v)"
    using ok assms(3) unfolding database.system_ok_def by auto
  moreover have "sy_connections (plays W database_facade gs (happens W database_facade (Serve i) z)) ! i = Answered config"
    by (rule database.job_served [OF ok assms(3-9) _ assms(11)]) (use assms(10) in \<open>simp add: with_keys_def\<close>)
  ultimately show ?thesis
    using create_server_config_fields [OF assms(10)] by auto
qed

definition renewal_run :: "event list" where
  "renewal_run = Connect # Connect # challenge_start @ [Manage, Serve 1]"

theorem renewal_served_witness:
  "sy_connections (plays example_outside database_facade ((renewal_run @ [Manage, Manage, example_registration]) @
        Serve 0 # [Serve 1, Serve 0, Serve 1, Serve 0, Serve 1, Serve 0])
      (booted (example_db (renewed_cert State_Ok) []) 0)) ! 0
    = Answered \<lparr>sc_cert = Some ([''crt2''], ''key2''), sc_alpn = [''h2'', ''http/1.1'']\<rparr>"
proof -
  let ?s = "example_db (renewed_cert State_Ok) []" and ?c = "renewed_cert Updating"
  let ?x = "plays example_outside database_facade (renewal_run @ [Manage]) (booted ?s 0)"
  let ?y = "happens example_outside database_facade Manage ?x"
  let ?z = "plays example_outside database_facade [example_registration] ?y"
  let ?cs = "[Serve 1, Serve 0, Serve 1, Serve 0, Serve 1, Serve 0]"
  have ok: "tables_ok ?s"
    by (rule example_db_ok) (simp add: renewed_cert_def)
  have "to_stop (sy_manager ?x) = Some (?c, ''key2'', ''crt2'')"
    by code_simp
  then have stop: "sy_manager ?x = Stopping ?c (''key2'', ''crt2'')"
    by simp
  have "managed (sy_manager ?y) = Some (Ok ())"
    by code_simp
  then have idle: "sy_manager ?y = Managed (Ok ())"
    by simp
  have conn: "0 < length (sy_connections ?z)" "sy_connections ?z ! 0 = Asking"
    by code_simp+
  have first: "fst (first_cert database_facade (sy_store ?z)) =
      Ok (Some (?c\<lparr>c_private := Some ''key2'', c_cert := Some ''crt2'', c_state := State_Ok\<rparr>))"
    by code_simp
  have made: "create_server_config (o_tls example_outside) (?c\<lparr>c_private := Some ''key2'', c_cert := Some ''crt2''\<rparr>)
      = Ok \<lparr>sc_cert = Some ([''crt2''], ''key2''), sc_alpn = [''h2'', ''http/1.1'']\<rparr>"
    by code_simp
  have "\<forall>env. Tick env \<notin> set [example_registration]" and "3 \<le> count_list ?cs (Serve 0)"
    by (simp_all add: example_registration_def)
  from renewal_served [OF ok refl stop idle refl this(1) conn first made this(2), THEN conjunct1]
  show ?thesis
    by (simp only: plays_append plays.simps append.simps)
qed

text \<open>
  C9: A registered domain is served. In any run of the program on the database, after a registration with a
  new identity that is answered with 201, every query whose first label is this identity, if it is not
  answered yet at some later time, is answered after at most three more of its pieces with no records and no
  error (the domain has no text yet), or with an error of the store, whatever the manager, other queries,
  connections and requests do in between, as long as the identity is not drawn again and no preconfigured
  record exists for the name.
\<close>

theorem registration_served:
  fixes s :: db
  assumes "tables_ok s" and "x = plays W database_facade es (booted s w)"
    and "is_register req" and "i = dto_id (dto_default env)" and "a_domains (tables_abs (sy_store x)) i = None"
    and "about_to_draw (sy_manager x) \<noteq> Some i"
    and "y = happens W database_facade (Request env req) x"
    and "last (sy_replies y) = Ok (Some res)" and "rp_status res = 201"
    and "z = plays W database_facade fs y"
    and "j < length (sy_queries z)" and "sy_queries z ! j = (name, qt, k)" and "\<forall>r. k \<noteq> Replied r"
    and "records (o_authority W) name = None" and "labels name = i # rest"
    and "\<not> name_is_empty (o_dns W) name" and "qt \<noteq> RT_SOA"
    and "Some i \<notin> drawn_id ` set (fs @ gs)" and "3 \<le> count_list gs (Query j)"
  shows "\<exists>r. sy_queries (plays W database_facade gs z) ! j = (name, qt, Replied r) \<and>
    (r = Ok Lookup_Empty \<or> (\<exists>e. r = Err (io_err (o_errors W) (sqlx_text (o_errors W) e))))"
proof -
  have i: "i = uuid (drawn env 0)"
    using assms(4) by (simp add: dto_default_def)
  have x: "database.system_ok W x"
    unfolding assms(2) by (rule database.plays_ok [OF assms(1)])
  obtain d where d: "user_there i d (tables_abs (sy_store y))" "d_txt d = None" "sy_manager y = sy_manager x"
    using database.registered_now [OF x assms(3) _ assms(7-9)] assms(4,5) by auto
  have y: "database.system_ok W y"
    unfolding assms(7) by (rule database.happens_ok [OF x])
  have z: "database.system_ok W z" "user_there i d (tables_abs (sy_store z))" "about_to_draw (sy_manager z) \<noteq> Some i"
    using database.users_kept [OF y d(1), of fs] d(3) assms(6,10,18) by auto
  have "asks_left k \<le> 3"
    by (cases k) simp_all
  then show ?thesis
    using database.queries_for_user [OF z(1) z(2) [unfolded i] d(2) z(3) [unfolded i] assms(11-14) _ assms(16,17), of rest gs]
      assms(15,18,19) i by (auto simp: answers_def)
qed

theorem registration_served_witness:
  "\<exists>r. sy_queries (plays example_outside database_facade [Query 0, Manage, Query 0, Query 0]
        (plays example_outside database_facade [Tick (db_env 5 9000), Ask (example_name (uuid 0)) RT_TXT]
          (happens example_outside database_facade example_registration
            (booted (example_db (renewed_cert State_Ok) []) 0)))) ! 0
      = (example_name (uuid 0), RT_TXT, Replied r) \<and>
    r \<in> {Ok Lookup_Empty, Err (IoCustom Other ''sqlx'')}"
proof -
  let ?s = "example_db (renewed_cert State_Ok) []" and ?name = "example_name (uuid 0)"
  let ?req = "\<lparr>rq_method = ''POST'', rq_path = ''/register'', rq_headers = []\<rparr>"
  let ?x = "booted ?s 0"
  let ?y = "happens example_outside database_facade example_registration ?x"
  let ?z = "plays example_outside database_facade [Tick (db_env 5 9000), Ask ?name RT_TXT] ?y"
  have ok: "tables_ok ?s"
    by (rule example_db_ok) (simp add: renewed_cert_def)
  have id: "uuid 0 = dto_id (dto_default (db_env 0 9000))"
    by (simp add: dto_default_def db_env_def)
  have x: "?x = plays example_outside database_facade [] ?x"
    by simp
  have new: "a_domains (tables_abs (sy_store ?x)) (uuid 0) = None"
    by code_simp
  have idle: "about_to_draw (sy_manager ?x) \<noteq> Some (uuid 0)"
    by (simp add: booted_def)
  have y: "?y = happens example_outside database_facade (Request (db_env 0 9000) ?req) ?x"
    by (simp only: example_registration_def)
  have reply: "last (sy_replies ?y) = Ok (Some \<lparr>rp_status = 201, rp_body = ''json''\<rparr>)"
    by code_simp
  have "map fst (sy_queries ?z) = [?name]" "map (fst \<circ> snd) (sy_queries ?z) = [RT_TXT]"
      "map (\<lambda>(_, _, k). asks_left k) (sy_queries ?z) = [3]"
    by code_simp+
  then obtain k where k: "sy_queries ?z = [(?name, RT_TXT, k)]" "asks_left k = 3"
    by (cases "sy_queries ?z") auto
  have open_query: "0 < length (sy_queries ?z)" "sy_queries ?z ! 0 = (?name, RT_TXT, k)" "\<forall>r. k \<noteq> Replied r"
    using k by auto
  have unknown: "records (o_authority example_outside) ?name = None"
    by code_simp
  have names: "labels ?name = uuid 0 # [''acme'', ''example'', ''com'']"
      "\<not> name_is_empty (o_dns example_outside) ?name" "RT_TXT \<noteq> RT_SOA"
    by (simp_all add: example_outside_def example_name_def example_lib_def example_dns_def)
  have "uuid 6 \<noteq> uuid 0"
    using uuid_inj [of 6 0] by auto
  then have fresh: "Some (uuid 0) \<notin> drawn_id ` set ([Tick (db_env 5 9000), Ask ?name RT_TXT] @ [Query 0, Manage, Query 0, Query 0])"
    by (auto simp: db_env_def)
  have three: "3 \<le> count_list [Query 0, Manage, Query 0, Query 0] (Query 0)"
    by simp
  have failure: "io_err (o_errors example_outside) (sqlx_text (o_errors example_outside) e) = IoCustom Other ''sqlx''" for e
    by (simp add: example_outside_def io_errors_def io_err_def)
  have req: "is_register ?req"
    by code_simp
  show ?thesis
    using registration_served [OF ok x req id new idle y reply _ refl open_query unknown names fresh three]
    unfolding failure by (simp only: insert_iff empty_iff) auto
qed

end
