(* ===== verification/Manager_Completes.thy ===== *)
theory Manager_Completes
  imports Cert_Manager
begin

text \<open>
  A renewal that nothing stands in the way of is carried out: over the database without faults, and with an
  ACME server that does what it is asked, \<^verbatim>\<open>manage\<close> of \<^verbatim>\<open>src/cert.rs\<close> ends with the new certificate stored.
\<close>

section \<open>The database without faults\<close>

lemma exec_stmt_network_kept [simp]: "network (snd (exec_stmt q s)) = network s"
  by (cases q) (auto simp: exec_stmt.simps split: option.split)

text \<open>The start of a renewal: it writes at most the certificate.\<close>

lemma db_start_delivered:
  assumes "tables_ok s" and "network s = []" and "a_cert (tables_abs s) = Some k" and "length (c_domain k) \<le> 32"
    and "start_spec env (tables_abs s) = (Ok (Some c), a)"
  shows "\<exists>t. db_start_cert env s = (Ok (Some c), t) \<and> network t = [] \<and> domains t = domains s"
proof -
  have k: "first_value (certs s) = Some k"
    using assms(3) by (simp add: tables_abs_def)
  have run: "\<exists>t. (case exec_stmt (Update_cert c') s of (r, t) \<Rightarrow> (r, t)) = (Ok (), t) \<and> network t = [] \<and> domains t = domains s"
    if "c_id c' = c_id k" "c_domain c' = c_domain k" for c'
  proof -
    have "fst (exec_stmt (Update_cert c') s) = Ok ()"
      by (rule exec_update_cert_Ok [OF assms(1) k that]) (rule assms(4))
    moreover have "domains (snd (exec_stmt (Update_cert c') s)) = domains s"
      by (simp add: exec_stmt.simps split: option.split)
    moreover have "network (snd (exec_stmt (Update_cert c') s)) = []"
      using assms(2) by simp
    ultimately show ?thesis
      by (metis case_prod_conv prod.collapse)
  qed
  show ?thesis
    using assms(5) assms(2,3) k run [of "k\<lparr>c_state := Updating\<rparr>"]
      run [of "k\<lparr>c_update := word_of_int (clock env), c_state := Updating\<rparr>"]
    by (auto simp: start_spec_def db_start_cert_def db_start_body_def select_cert_def bind_op_def map_err_op_def
        ret_def lift_outcome_def now_def delivered_runs view_def lease_expired_def one_hour_ago_def Let_def
        split: if_splits)
qed

lemma db_find_delivered:
  "network s = [] \<Longrightarrow> db_find_domain_by_id i s = (Ok (lookup (domains s) i), s)"
  by (simp add: db_find_domain_by_id_def pool_query_def request_def)

lemma db_update_delivered:
  assumes "network s = []" and "lookup (domains s) (d_id d) \<noteq> None" and "check_domain d s = None"
  shows "\<exists>t. db_update_domain (d\<lparr>d_txt := txt\<rparr>) s = (Ok (), t) \<and> network t = []"
proof -
  have "check_domain (d\<lparr>d_txt := txt\<rparr>) s = None"
    using assms(3) by (simp add: check_domain_def split: if_splits)
  then show ?thesis
    using assms(1,2) by (simp add: db_update_domain_def delivered_runs exec_stmt.simps)
qed

text \<open>The end of the job that is stored.\<close>

lemma db_stop_delivered:
  assumes "tables_ok s" and "network s = []" and "a_cert (tables_abs s) = Some c" and "c_state c = Updating"
    and "length (c_domain c) \<le> 32" and "c_id m = c_id c" and "c_domain m = c_domain c" and "c_update m = c_update c"
  shows "\<exists>m' t. db_stop_cert m s = (Ok m', t)"
proof -
  have "first_value (certs s) = Some c"
    using assms(3) by (simp add: tables_abs_def)
  then have "fst (exec_stmt (Update_cert (m\<lparr>c_state := State_Ok\<rparr>)) s) = Ok ()"
    using exec_update_cert_Ok [OF assms(1), of c "m\<lparr>c_state := State_Ok\<rparr>"] assms(5-7) by simp
  then obtain t where upd: "exec_stmt (Update_cert (m\<lparr>c_state := State_Ok\<rparr>)) s = (Ok (), t)"
    by (metis prod.collapse)
  then have "network t = []"
    using exec_stmt_network_kept [of "Update_cert (m\<lparr>c_state := State_Ok\<rparr>)" s] assms(2) by simp
  then show ?thesis
    using upd assms(2-4,8)
    by (simp add: db_stop_cert_def db_stop_body_def select_cert_def tables_abs_def bind_op_def ret_def
        delivered_runs view_def Let_def)
qed

section \<open>The server that obliges\<close>

text \<open>Every call of the ACME client succeeds, the order has an authorization, and the server decides.\<close>

definition obliging :: "'w acme \<Rightarrow> bool" where
  "obliging A \<longleftrightarrow> decides A \<and>
     (\<forall>mail w. fst (account A mail w) = Ok ()) \<and> (\<forall>name alts w. fst (new_order A name alts w) = Ok ()) \<and>
     (\<forall>w. \<exists>chall auths. fst (authorizations A w) = Ok (chall # auths)) \<and>
     (\<forall>chall w. fst (chall_validate A chall 5000 w) = Ok ()) \<and> (\<forall>w. fst (refresh A w) = Ok ()) \<and>
     (\<forall>w. fst (finalize_pkey A 5000 w) = Ok ()) \<and> (\<forall>w. \<exists>kc. fst (download_and_save_cert A w) = Ok kc)"

lemma on_acme_Ok:
  assumes "fst (m w) = Ok a"
  shows "\<exists>v. on_acme m (s, w) = (Ok a, (s, v))"
  using assms by (cases "m w") (simp add: on_acme_def)

lemma obliging_runs:
  assumes "obliging A"
  shows "\<exists>v. on_acme (account A mail) (s, w) = (Ok (), (s, v))"
    and "\<exists>v. on_acme (new_order A name alts) (s, w) = (Ok (), (s, v))"
    and "\<exists>v. on_acme (chall_validate A chall 5000) (s, w) = (Ok (), (s, v))"
    and "\<exists>v. on_acme (refresh A) (s, w) = (Ok (), (s, v))"
    and "\<exists>v. on_acme (finalize_pkey A 5000) (s, w) = (Ok (), (s, v))"
  by (rule on_acme_Ok; use assms in \<open>simp add: obliging_def\<close>)+

lemma round_delivered:
  assumes "obliging A" and "network s = []" and "lookup (domains s) (d_id d) \<noteq> None" and "check_domain d s = None"
  shows "\<exists>t v. challenge_round A database_facade d (s, w) = (Ok (), (t, v)) \<and> network t = []"
proof -
  obtain chall auths where "fst (authorizations A w) = Ok (chall # auths)"
    using assms(1) unfolding obliging_def by blast
  then obtain w1 where auth: "on_acme (authorizations A) (s, w) = (Ok (chall # auths), (s, w1))"
    by (metis on_acme_Ok)
  obtain t where upd: "db_update_domain (d\<lparr>d_txt := Some (dns_proof A w1 chall)\<rparr>) s = (Ok (), t)" "network t = []"
    using db_update_delivered [OF assms(2-4)] by blast
  obtain w2 where val: "on_acme (chall_validate A chall 5000) (t, w1) = (Ok (), (t, w2))"
    by (metis obliging_runs [OF assms(1)])
  obtain w3 where "on_acme (refresh A) (t, w2) = (Ok (), (t, w3))"
    by (metis obliging_runs [OF assms(1)])
  then have "challenge_round A database_facade d (s, w) = (Ok (), (t, w3))"
    using auth upd val
    by (simp add: challenge_round_def bind_op_def lift_outcome_def ok_or_def on_facade_def map_err_op_def)
  then show ?thesis
    using upd(2) by blast
qed

lemma loop_delivered:
  assumes "obliging A" and "network s = []" and "lookup (domains s) (d_id d) \<noteq> None" and "check_domain d s = None"
  shows "\<exists>t v. validate_loop A database_facade d (s, w) = Some (Ok (), (t, v)) \<and> network t = []"
proof (cases "confirm_validations A w")
  case True
  then show ?thesis
    using assms(2) by (simp add: validate_loop.simps)
next
  case False
  obtain t v where round: "challenge_round A database_facade d (s, w) = (Ok (), (t, v))" "network t = []"
    using round_delivered [OF assms] by blast
  have "confirm_validations A v"
    using challenge_round_confirms [OF _ round(1)] assms(1) by (simp add: obliging_def)
  then have "validate_loop A database_facade d (t, v) = Some (Ok (), (t, v))"
    by (simp add: validate_loop.simps)
  then show ?thesis
    using False round by (simp add: validate_loop.simps [of A database_facade d "(s, w)"])
qed

lemma issue_delivered:
  assumes "obliging A" and "network s = []" and "lookup (domains s) (d_id d) \<noteq> None" and "check_domain d s = None"
  shows "\<exists>c' t v. issue A database_facade c d (s, w) = Some (Ok c', (t, v)) \<and> network t = []"
proof -
  obtain w1 where acc: "on_acme (account A ''acme-dns-rust@byom.de'') (s, w) = (Ok (), (s, w1))"
    by (metis obliging_runs [OF assms(1)])
  obtain w2 where ord: "on_acme (new_order A ''acme.conblem.me'' []) (s, w1) = (Ok (), (s, w2))"
    by (metis obliging_runs [OF assms(1)])
  obtain t w3 where loop: "validate_loop A database_facade d (s, w2) = Some (Ok (), (t, w3))" "network t = []"
    using loop_delivered [OF assms] by blast
  obtain w4 where fin: "on_acme (finalize_pkey A 5000) (t, w3) = (Ok (), (t, w4))"
    by (metis obliging_runs [OF assms(1)])
  obtain kc where "fst (download_and_save_cert A w4) = Ok kc"
    using assms(1) unfolding obliging_def by blast
  then obtain w5 where "on_acme (download_and_save_cert A) (t, w4) = (Ok kc, (t, w5))"
    by (metis on_acme_Ok)
  then show ?thesis
    using acc ord loop fin
    by (cases kc) (simp add: issue_def validate_def bind_dop_def returns_def ret_def)
qed

section \<open>The property\<close>

text \<open>
  C8: A renewal is carried out. On a consistent database without faults that holds a certificate, when the
  protocol hands a job out (the certificate is idle, or its lease has run out), the columns hold the domain of
  the certificate, and every call to the ACME server succeeds with a server that decides its challenges, then
  \<^verbatim>\<open>manage\<close> returns with success, and the stored certificate is the job's in state \<open>Ok\<close> with a key and a
  certificate that have been downloaded.
\<close>

theorem manage_completes:
  assumes "tables_ok (s :: db)" and "network s = []"
    and "a_cert (tables_abs s) = Some k" and "start_spec env (tables_abs s) = (Ok (Some c), a)"
    and "lookup (domains s) (c_domain k) = Some d" and "length (c_domain k) \<le> 32" and "check_domain d s = None"
    and "obliging A"
  shows "\<exists>t v key crt w1. manage A database_facade env (s, w) = Some (Ok (), (t, v)) \<and>
    download_and_save_cert A w1 = (Ok (key, crt), v) \<and>
    a_cert (tables_abs t) = Some (c\<lparr>c_private := Some key, c_cert := Some crt, c_state := State_Ok\<rparr>)"
proof -
  have c: "c_domain c = c_domain k" "c_state c = Updating"
    using assms(3,4) start_spec_Some(2) [OF assms(4)] by (auto simp: start_spec_def Let_def split: if_splits outcome.splits)
  obtain s1 where start: "db_start_cert env s = (Ok (Some c), s1)" "network s1 = []" "domains s1 = domains s"
    using db_start_delivered [OF assms(1-3,6,4)] by blast
  have ok1: "tables_ok s1"
    using database.start_frame [of env s "Ok (Some c)" s1] start(1) assms(1) by simp
  have id: "d_id d = c_domain k"
    using a_wf_key [OF tables_okD(5) [OF assms(1)]] assms(5) by (simp add: tables_abs_def)
  have find: "find_domain_by_id database_facade (c_domain c) s1 = (Ok (Some d), s1)"
    using db_find_delivered [OF start(2)] start(3) assms(5) c(1) by simp
  have check: "check_domain d s1 = None"
    using assms(7) start(3) by (simp add: check_domain_def split: if_splits)
  obtain c' t v where iss: "issue A database_facade c d (s1, w) = Some (Ok c', (t, v))" "network t = []"
    using issue_delivered [OF assms(8) start(2) _ check, of c w] start(3) assms(5) id by auto
  obtain key crt where c': "c' = c\<lparr>c_private := Some key, c_cert := Some crt\<rparr>"
    using database.issue_Ok [OF iss(1)] by blast
  have "database.kept d s1 s1"
    using ok1 start(3) assms(5) id by (simp add: database.kept_def tables_abs_def)
  then have kept: "database.kept d s1 t"
    using database.keepsD [OF database.keeps_issue iss(1)] by blast
  have spec: "start_spec env (tables_abs s) = (Ok (Some c), tables_abs s1)"
    using database.start_Ok [of env s "Some c" s1] start(1) assms(1) by simp
  have t: "tables_ok t" "a_cert (tables_abs t) = Some c"
    using kept proof_of_cert [of d "tables_abs s1" "tables_abs t"] start_spec_Some(1) [OF spec]
    by (simp_all add: database.kept_def)
  obtain m' u where "db_stop_cert c' t = (Ok m', u)"
    using db_stop_delivered [OF t(1) iss(2) t(2) c(2), of c'] assms(6) c(1) c' by auto
  then have run: "manage A database_facade env (s, w) = Some (Ok (), (u, v))"
    using database.manage_some [of env s c s1 d s1 A w] start(1) find iss(1)
    by (simp add: bind_dop_def spawn_blocking_def joined_def returns_def on_facade_def map_err_op_def ret_def)
  then show ?thesis
    using database.manage_Ok [OF assms(1) run] assms(4) by auto
qed

text \<open>A server that accepts everything.\<close>

definition obliging_acme :: "nat acme" where
  "obliging_acme = example_acme\<lparr>refresh := (\<lambda>w. (Ok (), 2))\<rparr>"

theorem manage_completes_witness:
  "\<exists>t v. manage obliging_acme database_facade (db_env 0 9000) (example_db (renewed_cert State_Ok) [], 0)
      = Some (Ok (), (t, v)) \<and>
    a_cert (tables_abs t) = Some ((renewed_cert Updating)\<lparr>c_private := Some ''key2'', c_cert := Some ''crt2'',
      c_state := State_Ok\<rparr>)"
proof -
  let ?s = "example_db (renewed_cert State_Ok) []" and ?d = "\<lparr>d_id = ''d'', d_username = ''u'', d_password = ''p'', d_txt = None\<rparr>"
  have ok: "tables_ok ?s"
    by (rule example_db_ok) (simp add: renewed_cert_def)
  have net: "network ?s = []"
    by (simp add: example_db_def)
  have cert: "a_cert (tables_abs ?s) = Some (renewed_cert State_Ok)"
    by code_simp
  have start: "start_spec (db_env 0 9000) (tables_abs ?s) = (Ok (Some (renewed_cert Updating)),
      (tables_abs ?s)\<lparr>a_cert := Some (renewed_cert Updating)\<rparr>)"
    by (simp add: start_spec_def tables_abs_def example_db_def first_value_def renewed_cert_def Let_def)
  have fits: "lookup (domains ?s) (c_domain (renewed_cert State_Ok)) = Some ?d" "length (c_domain (renewed_cert State_Ok)) \<le> 32"
      "check_domain ?d ?s = None"
    by code_simp+
  have "obliging obliging_acme"
    by (simp add: obliging_def decides_def obliging_acme_def example_acme_def ret_def)
  from manage_completes [OF ok net cert start fits this, of 0] show ?thesis
    by (auto simp: obliging_acme_def example_acme_def ret_def)
qed

end
