(* ===== verification/Acme_Persist.thy ===== *)
theory Acme_Persist
  imports Facade_Database
begin

text \<open>
  \<^verbatim>\<open>DatabasePersist\<close> of \<^verbatim>\<open>src/acme.rs\<close>: the ACME library's account and certificate store, kept in the
  table \<^verbatim>\<open>acme\<close>. The table has no key of its own, so that there is one row for each
  (key, realm, kind) is an invariant of \<^verbatim>\<open>put\<close>, not of the schema. The library's error type \<open>'e\<close>
  with its \<^verbatim>\<open>From<IoError>\<close> and the texts of the SQL errors are parameters.
\<close>

datatype persist_kind = Certificate | PrivateKey | AccountPrivateKey

record persist_key =
  p_key :: string
  p_realm :: u64
  p_kind :: persist_kind

fun persist_kind_text :: "persist_kind \<Rightarrow> string" where
  "persist_kind_text Certificate = ''crt''"
| "persist_kind_text PrivateKey = ''priv_key''"
| "persist_kind_text AccountPrivateKey = ''acc_priv_key''"

lemma persist_kind_text_inj [simp]: "persist_kind_text a = persist_kind_text b \<longleftrightarrow> a = b"
  by (cases a; cases b) simp_all

definition row_of :: "endian \<Rightarrow> persist_key \<Rightarrow> bytes \<Rightarrow> acme_row" where
  "row_of e k v = \<lparr>r_key = p_key k, r_realm = to_i64 e (p_realm k),
     r_kind = persist_kind_text (p_kind k), r_value = v\<rparr>"

text \<open>The SELECT EXISTS and the SELECT of the value, on the rows.\<close>

definition select_exists :: "acme_row \<Rightarrow> db \<Rightarrow> bool" where
  "select_exists r s = list_ex (same_acme_key r) (acme_rows s)"

definition select_value :: "acme_row \<Rightarrow> db \<Rightarrow> bytes option" where
  "select_value r s = map_option r_value (find (same_acme_key r) (acme_rows s))"

definition persist_put :: "(sqlx_error \<Rightarrow> 'e) \<Rightarrow> endian \<Rightarrow> persist_key \<Rightarrow> bytes \<Rightarrow> (db, 'e, unit) op" where
  "persist_put conv e k v = map_err_op conv (
     let row = row_of e k v in
     bind_op pool_begin (\<lambda>tx.
     bind_op (tx_query (select_exists row) tx) (\<lambda>found.
     bind_op (tx_execute (if found then Update_acme row else Insert_acme row) tx) (\<lambda>tx.
     tx_commit tx))))"

definition persist_get :: "(sqlx_error \<Rightarrow> 'e) \<Rightarrow> endian \<Rightarrow> persist_key \<Rightarrow> (db, 'e, bytes option) op" where
  "persist_get conv e k = map_err_op conv (pool_query (select_value (row_of e k [])))"

text \<open>
  \<^verbatim>\<open>put\<close> cut at its requests, so that two of them can be interleaved: it begins a transaction, looks for the
  key, writes, and commits. Run alone the four pieces are \<open>persist_put\<close> (lemma \<open>put_alone\<close>).
\<close>

datatype put_task = Put_begin | Put_look "stmt list" | Put_write "stmt list" bool | Put_commit "stmt list"
  | Put_done "(sqlx_error, unit) outcome"

definition put_on :: "('a \<Rightarrow> put_task) \<Rightarrow> (sqlx_error, 'a) outcome \<times> db \<Rightarrow> put_task \<times> db" where
  "put_on f = (\<lambda>(r, t). (case r of Ok a \<Rightarrow> f a | Err x \<Rightarrow> Put_done (Err x) | Panic p \<Rightarrow> Put_done (Panic p), t))"

fun put_step :: "acme_row \<Rightarrow> put_task \<Rightarrow> db \<Rightarrow> put_task \<times> db" where
  "put_step row Put_begin s = put_on Put_look (pool_begin s)"
| "put_step row (Put_look tx) s = put_on (Put_write tx) (tx_query (select_exists row) tx s)"
| "put_step row (Put_write tx found) s =
     put_on Put_commit (tx_execute (if found then Update_acme row else Insert_acme row) tx s)"
| "put_step row (Put_commit tx) s = put_on (\<lambda>u. Put_done (Ok u)) (tx_commit tx s)"
| "put_step row (Put_done r) s = (Put_done r, s)"

fun put_result :: "put_task \<Rightarrow> (sqlx_error, unit) outcome option" where
  "put_result (Put_done r) = Some r"
| "put_result _ = None"

primrec put_run :: "nat \<Rightarrow> acme_row \<Rightarrow> put_task \<times> db \<Rightarrow> put_task \<times> db" where
  "put_run 0 row x = x"
| "put_run (Suc n) row x = put_run n row (put_step row (fst x) (snd x))"

lemma put_alone:
  "persist_put conv e k v s =
    (case put_run 4 (row_of e k v) (Put_begin, s) of (Put_done r, t) \<Rightarrow> (map_err conv r, t))"
  by (auto simp: numeral_eq_Suc persist_put_def map_err_op_def bind_op_def put_on_def Let_def
      split: prod.splits outcome.splits)

text \<open>Two \<^verbatim>\<open>put\<close>s at once: in the schedule, \<^const>\<open>True\<close> lets the first proceed and \<^const>\<open>False\<close> the second.\<close>

primrec puts_run :: "acme_row \<Rightarrow> acme_row \<Rightarrow> bool list \<Rightarrow> put_task \<times> put_task \<Rightarrow> db \<Rightarrow> (put_task \<times> put_task) \<times> db" where
  "puts_run rowA rowB [] ks s = (ks, s)"
| "puts_run rowA rowB (a # sched) ks s =
     (if a then (case put_step rowA (fst ks) s of (k, t) \<Rightarrow> puts_run rowA rowB sched (k, snd ks) t)
      else (case put_step rowB (snd ks) s of (k, t) \<Rightarrow> puts_run rowA rowB sched (fst ks, k) t))"

text \<open>Each piece brings a \<^verbatim>\<open>put\<close> nearer to its end, so four pieces of each end both.\<close>

fun put_left :: "put_task \<Rightarrow> nat" where
  "put_left Put_begin = 4"
| "put_left (Put_look tx) = 3"
| "put_left (Put_write tx found) = 2"
| "put_left (Put_commit tx) = 1"
| "put_left (Put_done r) = 0"

lemma put_left_done: "put_left k = 0 \<longleftrightarrow> (\<exists>r. k = Put_done r)"
  by (cases k) simp_all

lemma put_step_left: "put_left (fst (put_step row k s)) \<le> put_left k - 1"
  by (cases k) (auto simp: put_on_def split: prod.splits outcome.splits)

lemma puts_run_left:
  "put_left (fst (fst (puts_run rowA rowB sched ks s))) \<le> put_left (fst ks) - count_list sched True \<and>
   put_left (snd (fst (puts_run rowA rowB sched ks s))) \<le> put_left (snd ks) - count_list sched False"
proof (induction sched arbitrary: ks s)
  case (Cons a sched)
  obtain k t where step: "put_step (if a then rowA else rowB) (if a then fst ks else snd ks) s = (k, t)"
    by fastforce
  then have "put_left k \<le> put_left (if a then fst ks else snd ks) - 1"
    using put_step_left [of "if a then rowA else rowB" "if a then fst ks else snd ks" s] by simp
  then show ?case
    using Cons.IH [of "(k, snd ks)" t] Cons.IH [of "(fst ks, k)" t] step by (cases a) auto
qed simp

lemma puts_run_done:
  assumes "count_list sched True = 4" and "count_list sched False = 4"
  shows "\<exists>rA rB t. puts_run rowA rowB sched (Put_begin, Put_begin) s = ((Put_done rA, Put_done rB), t)"
proof -
  obtain kA kB t where run: "puts_run rowA rowB sched (Put_begin, Put_begin) s = ((kA, kB), t)"
    by (metis prod.collapse)
  then show ?thesis
    using puts_run_left [of rowA rowB sched "(Put_begin, Put_begin)" s] assms put_left_done by auto
qed

text \<open>
  The schedule in which both transactions look for the key before either writes, with the result of both:
  that of the first, if it fails, and otherwise that of the second.
\<close>

definition interleaved_puts :: "(sqlx_error \<Rightarrow> 'e) \<Rightarrow> endian \<Rightarrow> persist_key \<times> bytes \<Rightarrow> persist_key \<times> bytes \<Rightarrow> (db, 'e, unit) op" where
  "interleaved_puts conv e = (\<lambda>(kA, vA) (kB, vB) s.
     (case puts_run (row_of e kA vA) (row_of e kB vB) [True, False, True, False, True, False, True, False]
         (Put_begin, Put_begin) s of
        ((Put_done rA, Put_done rB), t) \<Rightarrow> (map_err conv (and_then rA (\<lambda>_. rB)), t)))"

text \<open>The conversion both use: \<^verbatim>\<open>map_err(error)\<close> from an SQL error.\<close>

definition persist_error :: "('e \<Rightarrow> string) \<Rightarrow> (io_error \<Rightarrow> 'e) \<Rightarrow> (sqlx_error \<Rightarrow> string) \<Rightarrow> sqlx_error \<Rightarrow> 'e" where
  "persist_error text from_io sqlx_text err = error text from_io (InOther (sqlx_text err))"

section \<open>The contract of a persist store\<close>

text \<open>
  \<open>content\<close> reads a store as a map from keys to values. A \<^verbatim>\<open>put\<close> that fails may or may not have
  taken effect, never partly and never on another key.
\<close>

locale persist_store =
  fixes put :: "persist_key \<Rightarrow> bytes \<Rightarrow> ('s, 'e, unit) op"
    and get :: "persist_key \<Rightarrow> ('s, 'e, bytes option) op"
    and content :: "'s \<Rightarrow> persist_key \<rightharpoonup> bytes"
    and inv :: "'s \<Rightarrow> bool"
  assumes put_inv: "put k v s = (r, t) \<Longrightarrow> inv s \<Longrightarrow> inv t"
    and put_Ok: "put k v s = (Ok u, t) \<Longrightarrow> inv s \<Longrightarrow> content t = (content s)(k \<mapsto> v)"
    and put_Err: "put k v s = (Err e, t) \<Longrightarrow> inv s \<Longrightarrow>
      content t = content s \<or> content t = (content s)(k \<mapsto> v)"
    and get_frame: "get k s = (q, t) \<Longrightarrow> inv s \<Longrightarrow> inv t \<and> content t = content s"
    and get_Ok: "get k s = (Ok x, t) \<Longrightarrow> inv s \<Longrightarrow> x = content s k"
begin

lemma put_get:
  assumes "inv s" and "put k v s = (Ok u, t)" and "get k' t = (Ok x, t')"
  shows "x = (if k' = k then Some v else content s k')"
  using get_Ok [OF assms(3) put_inv [OF assms(2,1)]] put_Ok [OF assms(2,1)] by simp

lemma put_put:
  assumes "inv s" and "put k v s = (Ok u, t)" and "put k w t = (Ok u', t')"
  shows "content t' = (content s)(k \<mapsto> w)"
  using put_Ok [OF assms(3) put_inv [OF assms(2,1)]] put_Ok [OF assms(2,1)] by simp

end

section \<open>The database keeps the contract\<close>

definition acme_ok :: "db \<Rightarrow> bool" where
  "acme_ok s \<longleftrightarrow> distinct (map (\<lambda>r. (r_key r, r_realm r, r_kind r)) (acme_rows s))"

definition acme_content :: "endian \<Rightarrow> db \<Rightarrow> persist_key \<Rightarrow> bytes option" where
  "acme_content e s k = select_value (row_of e k []) s"

lemma same_acme_key_row_of [simp]:
  "same_acme_key (row_of e k v) (row_of e k' v') \<longleftrightarrow> p_key k = p_key k' \<and> p_realm k = p_realm k' \<and> p_kind k = p_kind k'"
  by (simp add: same_acme_key_def row_of_def)

lemma same_acme_key_value: "same_acme_key (row_of e k v) = same_acme_key (row_of e k [])"
  by (simp add: fun_eq_iff same_acme_key_def row_of_def)

lemma persist_key_eqI:
  "p_key k = p_key k' \<Longrightarrow> p_realm k = p_realm k' \<Longrightarrow> p_kind k = p_kind k' \<Longrightarrow> k = (k' :: persist_key)"
  by simp

lemma find_None_update:
  "find P (map (\<lambda>q. if R q then f q else q) xs) = map_option (\<lambda>q. if R q then f q else q) (find P xs)"
  if "\<And>q. R q \<Longrightarrow> P (f q) = P q"
  by (induction xs) (auto simp: that)

lemma acme_content_update:
  assumes "select_exists (row_of e k v) s"
  shows "acme_content e (snd (exec_stmt (Update_acme (row_of e k v)) s)) = (acme_content e s)(k \<mapsto> v)"
proof
  fix k'
  let ?R = "same_acme_key (row_of e k [])" and ?P = "same_acme_key (row_of e k' [])"
  have upd: "find (same_acme_key (row_of e i [])) (map (\<lambda>q. if ?R q then q\<lparr>r_value := r_value (row_of e k v)\<rparr> else q) (acme_rows s))
      = map_option (\<lambda>q. if ?R q then q\<lparr>r_value := r_value (row_of e k v)\<rparr> else q)
          (find (same_acme_key (row_of e i [])) (acme_rows s))" for i
    by (rule find_None_update) (simp add: same_acme_key_def)
  have found: "find ?R (acme_rows s) \<noteq> None"
    using assms by (auto simp: select_exists_def list_ex_iff find_None_iff same_acme_key_value [of e k v])
  have R: "k' = k" if "find ?P (acme_rows s) = Some q" "?R q" for q
  proof (rule persist_key_eqI)
    have "?P q" using that(1) by (auto simp: find_Some_iff)
    with that(2) have "same_acme_key (row_of e k' []) (row_of e k [])"
      by (auto simp: same_acme_key_def)
    then show "p_key k' = p_key k" "p_realm k' = p_realm k" "p_kind k' = p_kind k"
      by simp_all
  qed
  have Rk: "?R q" if "find ?R (acme_rows s) = Some q" for q
    using that by (auto simp: find_Some_iff)
  have "(row_of e k v) = (row_of e k [])\<lparr>r_value := v\<rparr>"
    by (simp add: row_of_def)
  then have val: "r_value (row_of e k v) = v" by simp
  show "acme_content e (snd (exec_stmt (Update_acme (row_of e k v)) s)) k' = ((acme_content e s)(k \<mapsto> v)) k'"
    using found R Rk
    by (cases "k' = k"; cases "find ?P (acme_rows s)")
      (auto simp: acme_content_def select_value_def exec_stmt.simps same_acme_key_value [of e k v] val upd)
qed

lemma acme_content_insert:
  assumes "\<not> select_exists (row_of e k v) s"
  shows "acme_content e (snd (exec_stmt (Insert_acme (row_of e k v)) s)) = (acme_content e s)(k \<mapsto> v)"
proof
  fix k'
  have app: "find P (xs @ ys) = (case find P xs of None \<Rightarrow> find P ys | Some x \<Rightarrow> Some x)" for P and xs ys :: "acme_row list"
    by (induction xs) auto
  have none: "find (same_acme_key (row_of e k [])) (acme_rows s) = None"
    using assms by (auto simp: select_exists_def list_ex_iff find_None_iff same_acme_key_value [of e k v])
  have val: "r_value (row_of e k v) = v"
    by (simp add: row_of_def)
  show "acme_content e (snd (exec_stmt (Insert_acme (row_of e k v)) s)) k' = ((acme_content e s)(k \<mapsto> v)) k'"
    using none persist_key_eqI [of k' k]
    by (auto simp: acme_content_def select_value_def exec_stmt.simps app val split: option.split)
qed

lemma acme_ok_put:
  assumes "acme_ok s"
  shows "acme_ok (snd (exec_stmt (if select_exists r s then Update_acme r else Insert_acme r) s))"
proof (cases "select_exists r s")
  case True
  have "map (\<lambda>r. (r_key r, r_realm r, r_kind r))
      (map (\<lambda>q. if same_acme_key r q then q\<lparr>r_value := r_value r\<rparr> else q) xs)
    = map (\<lambda>r. (r_key r, r_realm r, r_kind r)) xs" for xs
    by (induction xs) auto
  then show ?thesis
    using True assms by (simp add: acme_ok_def exec_stmt.simps del: map_map)
next
  case False
  then show ?thesis
    using assms by (auto simp: acme_ok_def exec_stmt.simps select_exists_def list_ex_iff same_acme_key_def)
qed

lemma same_data_acme:
  assumes "same_data s t"
  shows "acme_ok t = acme_ok s" and "acme_content e t = acme_content e s"
  using same_data_sel(3) [OF assms] by (simp_all add: acme_ok_def acme_content_def select_value_def fun_eq_iff)

lemma persist_put_run:
  assumes "acme_ok s" and "persist_put conv e k v s = (r, t)"
  shows "acme_ok t \<and>
    (r = Ok () \<and> acme_content e t = (acme_content e s)(k \<mapsto> v) \<or>
     (\<exists>x. r = Err x \<and> (acme_content e t = acme_content e s \<or>
        acme_content e t = (acme_content e s)(k \<mapsto> v))))"
proof -
  let ?row = "row_of e k v"
  let ?q = "if select_exists ?row s then Update_acme ?row else Insert_acme ?row"
  obtain q1 s1 where q1: "pool_begin s = (q1, s1)" by fastforce
  note run1 = pool_begin_run [OF q1]
  obtain q2 s2 where q2: "tx_query (select_exists ?row) [] s1 = (q2, s2)" by fastforce
  have net: "select_exists ?row (u\<lparr>network := n\<rparr>) = select_exists ?row u" for u n
    by (simp add: select_exists_def)
  have s1: "same_data s s1" using run1 by blast
  have run2: "same_data s1 s2 \<and> (q2 = Ok (select_exists ?row s) \<or> q2 = Err Connection_lost)"
    using q2 same_data_sel(3) [OF s1] unfolding tx_query_def
    by (elim request_cases) (auto simp: net, auto simp: select_exists_def)
  obtain q3 s3 where q3: "tx_execute ?q [] s2 = (q3, s3)" by fastforce
  note run3 = tx_execute_run [OF q3]
  obtain q4 s4 where q4: "tx_commit [?q] s3 = (q4, s4)" by fastforce
  note run4 = tx_commit_run [OF q4]
  have keep: "acme_ok u \<and> acme_content e u = acme_content e s" if "same_data s u" for u
    using assms(1) same_data_acme [OF that] by simp
  have s3: "same_data s s3"
    using run1 run2 run3 same_data_trans by blast
  have new: "acme_ok u \<and> acme_content e u = (acme_content e s)(k \<mapsto> v)" if "same_data (view [?q] s3) u" for u
  proof -
    have "same_data (view [?q] s) u"
      using same_data_trans [OF same_data_view [OF s3] that] .
    then have "same_data (snd (exec_stmt ?q s)) u"
      by (simp add: view_def)
    then show ?thesis
      using acme_ok_put [OF assms(1), of ?row] acme_content_update [of e k v s]
        acme_content_insert [of e k v s] same_data_acme
      by (auto split: if_splits)
  qed
  consider (c_begin) "q1 = Err Connection_lost" | (c_query) "q1 = Ok []" "q2 = Err Connection_lost"
    | (c_exec) x where "q1 = Ok []" "q2 = Ok (select_exists ?row s)" "q3 = Err x"
    | (c_commit) "q1 = Ok []" "q2 = Ok (select_exists ?row s)" "q3 = Ok [?q]"
    using run1 run2 run3 by auto
  then show ?thesis
  proof cases
    case c_begin
    then have "r = Err (conv Connection_lost) \<and> t = s1"
      using assms(2) q1 by (auto simp: persist_put_def bind_op_def map_err_op_def Let_def)
    then show ?thesis using keep [OF s1] by simp
  next
    case c_query
    then have "r = Err (conv Connection_lost) \<and> t = s2"
      using assms(2) q1 q2 by (auto simp: persist_put_def bind_op_def map_err_op_def Let_def)
    then show ?thesis using keep [OF same_data_trans [OF s1]] run2 by simp
  next
    case c_exec
    then have "r = Err (conv x) \<and> t = s3"
      using assms(2) q1 q2 q3 by (simp add: persist_put_def bind_op_def map_err_op_def Let_def)
    then show ?thesis using keep [OF s3] by simp
  next
    case c_commit
    then have "r = map_err conv q4 \<and> t = s4"
      using assms(2) q1 q2 q3 q4 by (simp add: persist_put_def bind_op_def map_err_op_def Let_def)
    then show ?thesis
      using run4 keep [OF same_data_trans [OF s3]] new by auto
  qed
qed

lemma persist_get_run:
  assumes "persist_get conv e k s = (r, t)"
  shows "same_data s t \<and> (r = Ok (acme_content e s k) \<or> (\<exists>x. r = Err x))"
proof -
  obtain q u where q: "pool_query (select_value (row_of e k [])) s = (q, u)" by fastforce
  have "same_data s u \<and> (q = Ok (acme_content e s k) \<or> q = Err Connection_lost)"
    using pool_query_run [OF q] by (simp add: select_value_def acme_content_def)
  then show ?thesis
    using assms q by (auto simp: persist_get_def map_err_op_def)
qed

interpretation persist: persist_store "persist_put conv e" "persist_get conv e" "acme_content e" acme_ok
  for conv :: "sqlx_error \<Rightarrow> 'e" and e
proof unfold_locales
  fix k x s t
  assume "persist_get conv e k s = (Ok x, t)"
  then show "x = acme_content e s k"
    using persist_get_run [of conv e k s "Ok x" t] by simp
next
  fix k s q t
  assume "persist_get conv e k s = (q, t)" and "acme_ok s"
  then show "acme_ok t \<and> acme_content e t = acme_content e s"
    using persist_get_run [of conv e k s q t] same_data_acme [of s t] by simp
qed (auto dest: persist_put_run)

section \<open>Properties\<close>

definition persist_example :: "fault list \<Rightarrow> db" where
  "persist_example net = \<lparr>certs = empty_store (\<lambda>_ _. 0), domains = empty_store (\<lambda>_ _. 0),
     acme_rows = [\<lparr>r_key = ''a'', r_realm = 7, r_kind = ''crt'', r_value = ''old''\<rparr>], network = net\<rparr>"

text \<open>
  C17: What \<^verbatim>\<open>put\<close> has stored, \<^verbatim>\<open>get\<close> returns, for the key that was put, the same realm and the same
  kind; every other key still has the value it had before. The number of rows for each key stays at
  most one.
\<close>

theorem persist_roundtrip:
  assumes "acme_ok s" and "persist_put conv e k v s = (Ok (), t)" and "persist_get conv e k' t = (Ok x, u)"
  shows "x = (if k' = k then Some v else acme_content e s k') \<and> acme_ok u"
proof
  show "x = (if k' = k then Some v else acme_content e s k')"
    by (rule persist.put_get [OF assms])
  show "acme_ok u"
    using persist.get_frame [OF assms(3) persist.put_inv [OF assms(2,1)]] by blast
qed

theorem persist_roundtrip_witness:
  "let k = \<lparr>p_key = ''a'', p_realm = 7, p_kind = Certificate\<rparr>;
       t = snd (persist_put id Little k ''new'' (persist_example [])) in
   fst (persist_get id Little k t) = Ok (Some ''new'')"
proof -
  let ?k = "\<lparr>p_key = ''a'', p_realm = 7, p_kind = Certificate\<rparr>"
  let ?put = "persist_put id Little ?k ''new'' (persist_example [])"
  obtain r t where t: "?put = (r, t)" by fastforce
  have ok: "acme_ok (persist_example [])"
    by (simp add: acme_ok_def persist_example_def)
  have r: "r = Ok ()" and net: "network t = []"
    using t by (auto simp: persist_put_def persist_example_def bind_op_def map_err_op_def
        delivered_runs exec_stmt.simps select_exists_def row_of_def same_acme_key_def view_def Let_def)
  obtain q u where q: "persist_get id Little ?k t = (q, u)" by fastforce
  obtain x where x: "q = Ok x"
    using q net by (auto simp: persist_get_def pool_query_def request_def map_err_op_def)
  have "x = Some ''new''"
    using persist_roundtrip [OF ok t [unfolded r] q [unfolded x]] by simp
  then show ?thesis
    using t q x by (simp add: Let_def)
qed

text \<open>
  A \<^verbatim>\<open>put\<close> that fails is all or nothing: the table reads as before, or as after a success; no
  other key changes and no key gets a second row.
\<close>

theorem persist_put_atomic:
  assumes "acme_ok s" and "persist_put conv e k v s = (Err x, t)"
  shows "acme_ok t \<and> (acme_content e t = acme_content e s \<or> acme_content e t = (acme_content e s)(k \<mapsto> v))"
  using persist.put_Err [OF assms(2,1)] persist.put_inv [OF assms(2,1)] by blast

theorem persist_put_atomic_witness:
  "let k = \<lparr>p_key = ''b'', p_realm = 7, p_kind = Certificate\<rparr>;
       s = persist_example [Delivered, Delivered, Delivered, Lost_request];
       t = snd (persist_put id Little k ''new'' s) in
   acme_ok t \<and> (acme_content Little t = acme_content Little s \<or>
     acme_content Little t = (acme_content Little s)(k \<mapsto> ''new''))"
proof -
  let ?k = "\<lparr>p_key = ''b'', p_realm = 7, p_kind = Certificate\<rparr>"
  let ?s = "persist_example [Delivered, Delivered, Delivered, Lost_request]"
  have ok: "acme_ok ?s"
    by (simp add: acme_ok_def persist_example_def)
  have "persist_put id Little ?k ''new'' ?s
    = (Err Connection_lost, snd (persist_put id Little ?k ''new'' ?s))"
    by (simp add: persist_put_def persist_example_def bind_op_def map_err_op_def Let_def
        pool_begin_def tx_query_def tx_execute_def tx_commit_def request_def
        exec_stmt.simps select_exists_def row_of_def same_acme_key_def)
  from persist_put_atomic [OF ok this] show ?thesis
    by (simp add: Let_def)
qed

text \<open>
  C18: Two \<^verbatim>\<open>put\<close>s of the same new key at the same time both succeed and leave two rows for the key, with
  both values: no unique index forbids the second. From then on a \<^verbatim>\<open>get\<close> that takes the first row returns
  the value of the one that committed first, although the other has been told that its value is stored.
\<close>

theorem concurrent_puts_duplicate:
  assumes "network s = []" and "acme_content e s k = None" and "acme_ok s"
  shows "fst (interleaved_puts conv e (k, v) (k, w) s) = Ok () \<and>
    acme_rows (snd (interleaved_puts conv e (k, v) (k, w) s)) = acme_rows s @ [row_of e k v, row_of e k w] \<and>
    \<not> acme_ok (snd (interleaved_puts conv e (k, v) (k, w) s)) \<and>
    acme_content e (snd (interleaved_puts conv e (k, v) (k, w) s)) k = Some v"
proof -
  have none: "find (same_acme_key (row_of e k [])) (acme_rows s) = None"
    using assms(2) by (simp add: acme_content_def select_value_def)
  then have new: "\<not> select_exists (row_of e k x) s" for x
    by (auto simp: select_exists_def list_ex_iff find_None_iff same_acme_key_value [of e k x])
  let ?sA = "s\<lparr>acme_rows := acme_rows s @ [row_of e k v]\<rparr>"
  let ?sB = "s\<lparr>acme_rows := acme_rows s @ [row_of e k v, row_of e k w]\<rparr>"
  have run: "interleaved_puts conv e (k, v) (k, w) s = (Ok (), ?sB)"
    using assms(1) new
    by (simp add: interleaved_puts_def put_on_def delivered_runs exec_stmt.simps view_def)
  have app: "find P (xs @ ys) = (case find P xs of None \<Rightarrow> find P ys | Some x \<Rightarrow> Some x)" for P and xs ys :: "acme_row list"
    by (induction xs) auto
  have "acme_content e ?sB k = Some v"
    using none by (simp add: acme_content_def select_value_def app) (simp add: row_of_def)
  moreover have "\<not> acme_ok ?sB"
    by (simp add: acme_ok_def row_of_def)
  ultimately show ?thesis
    using run by simp
qed

theorem concurrent_puts_duplicate_witness:
  "length (acme_rows (snd (interleaved_puts id Little (\<lparr>p_key = ''b'', p_realm = 7, p_kind = Certificate\<rparr>, ''one'')
     (\<lparr>p_key = ''b'', p_realm = 7, p_kind = Certificate\<rparr>, ''two'') (persist_example [])))) = 3"
proof -
  let ?k = "\<lparr>p_key = ''b'', p_realm = 7, p_kind = Certificate\<rparr>"
  have "network (persist_example []) = []" "acme_content Little (persist_example []) ?k = None" "acme_ok (persist_example [])"
    by (simp_all add: persist_example_def acme_content_def select_value_def row_of_def same_acme_key_def acme_ok_def)
  from concurrent_puts_duplicate [OF this, of id "''one''" "''two''"] show ?thesis
    by (simp add: persist_example_def)
qed

end
