(* ===== verification/Unit_Tests.thy ===== *)
theory Unit_Tests
  imports Config Api_Metrics
begin

text \<open>
  The repository's unit tests of \<^verbatim>\<open>util.rs\<close>, \<^verbatim>\<open>config\<close> and \<^verbatim>\<open>api/metrics.rs\<close>, run on the model. Each test
  is a definition that ends as the test does: \<open>Ok\<close> when it passes, a panic when an assertion or an
  \<^verbatim>\<open>unwrap\<close> fails. The lemmas say which tests the model passes, and under which assumptions on what a
  test takes from outside.
\<close>

section \<open>Assertions\<close>

type_synonym test = "(unit, unit) outcome"

definition assert_that :: "bool \<Rightarrow> test" where
  "assert_that b = (if b then Ok () else Panic ''assertion failed'')"

definition assert_eq :: "'a \<Rightarrow> 'a \<Rightarrow> test" where
  "assert_eq expected actual = assert_that (expected = actual)"

definition assert_ne :: "'a \<Rightarrow> 'a \<Rightarrow> test" where
  "assert_ne expected actual = assert_that (expected \<noteq> actual)"

fun unwrap_result :: "('e, 'a) outcome \<Rightarrow> (unit, 'a) outcome" where
  "unwrap_result (Ok a) = Ok a"
| "unwrap_result (Err e) = Panic ''called `Result::unwrap()` on an `Err` value''"
| "unwrap_result (Panic p) = Panic p"

fun unwrap_err :: "('e, 'a) outcome \<Rightarrow> (unit, 'e) outcome" where
  "unwrap_err (Ok a) = Panic ''called `Result::unwrap_err()` on an `Ok` value''"
| "unwrap_err (Err e) = Ok e"
| "unwrap_err (Panic p) = Panic p"

definition also_test :: "test \<Rightarrow> test \<Rightarrow> test" where
  "also_test a b = and_then a (\<lambda>_. b)"

primrec all_tests :: "test list \<Rightarrow> test" where
  "all_tests [] = Ok ()"
| "all_tests (t # ts) = also_test t (all_tests ts)"

text \<open>A test marked \<^verbatim>\<open>should_panic\<close> passes when it panics.\<close>

definition should_panic :: "test \<Rightarrow> test" where
  "should_panic t = (if is_panic t then Ok () else Panic ''test did not panic as expected'')"

lemma assert_Ok [simp]:
  "assert_that b = Ok () \<longleftrightarrow> b" "assert_eq x y = Ok () \<longleftrightarrow> x = y" "assert_ne x y = Ok () \<longleftrightarrow> x \<noteq> y"
  by (auto simp: assert_that_def assert_eq_def assert_ne_def)

lemma also_test_Ok [simp]: "also_test a b = Ok () \<longleftrightarrow> a = Ok () \<and> b = Ok ()"
  by (cases a) (auto simp: also_test_def)

lemma should_panic_Ok [simp]: "should_panic t = Ok () \<longleftrightarrow> is_panic t"
  by (simp add: should_panic_def)

section \<open>Helpers\<close>

definition NUMBER_1 :: u64 where
  "NUMBER_1 = 2323"

definition NUMBER_2 :: u64 where
  "NUMBER_2 = 940329402394"

definition test_to_i64 :: "endian \<Rightarrow> u64 \<Rightarrow> test" where
  "test_to_i64 order expected =
     (let res = to_i64 order expected; actual = to_u64 order res in assert_eq expected actual)"

definition to_i64_works :: "endian \<Rightarrow> test" where
  "to_i64_works order = all_tests [test_to_i64 order NUMBER_1, test_to_i64 order NUMBER_2,
     test_to_i64 order (- 1), test_to_i64 order 0]"

lemma to_i64_works_passes: "to_i64_works order = Ok ()"
  by (simp add: to_i64_works_def test_to_i64_def Let_def)

text \<open>The three identifiers are made of three draws; the test passes unless the first two collide.\<close>

definition uuid_test :: "128 word \<Rightarrow> 128 word \<Rightarrow> 128 word \<Rightarrow> test" where
  "uuid_test a b c = also_test (assert_ne (uuid a) (uuid b)) (assert_eq 32 (length (uuid c)))"

lemma uuid_test_passes: "uuid_test a b c = Ok () \<longleftrightarrow> a \<noteq> b"
  by (auto simp: uuid_test_def dest: uuid_inj)

text \<open>The clock is read twice; a second and a half lie between the readings.\<close>

definition now_works :: "int \<Rightarrow> int \<Rightarrow> test" where
  "now_works clock later =
     and_then (now clock) (\<lambda>actual. and_then (now later) (\<lambda>then_now.
     assert_that (uint actual < uint then_now)))"

lemma now_works_passes:
  assumes "0 \<le> clock" and "clock + 1 \<le> later" and "later < 2 ^ 64"
  shows "now_works clock later = Ok ()"
  using assms by (simp add: now_works_def uint_word_of_int_eq take_bit_int_eq_self)

section \<open>Errors\<close>

text \<open>The error type of the ACME client, as far as the tests make and match its values.\<close>

datatype acme_error = Acme_Io io_error | Acme_Other string

fun acme_text :: "acme_error \<Rightarrow> string" where
  "acme_text (Acme_Io e) = io_text e"
| "acme_text (Acme_Other t) = t"

fun extract_error :: "acme_error \<Rightarrow> (unit, io_error) outcome" where
  "extract_error (Acme_Io err) = Ok err"
| "extract_error _ = Panic ''Cannot match err''"

text \<open>Two values are compared by what they print; \<open>debug\<close> and \<open>display\<close> are the two formats.\<close>

definition prints_same :: "('e \<Rightarrow> string) \<Rightarrow> ('e \<Rightarrow> string) \<Rightarrow> 'e \<Rightarrow> 'e \<Rightarrow> test" where
  "prints_same debug display expected actual =
     also_test (assert_eq (debug expected) (debug actual)) (assert_eq (display expected) (display actual))"

lemma prints_same_refl [simp]: "prints_same debug display e e = Ok ()"
  by (simp add: prints_same_def)

definition should_panic_extract_error :: test where
  "should_panic_extract_error = should_panic (and_then (extract_error (Acme_Other ''Test'')) (\<lambda>_. Ok ()))"

definition self_error_works :: "(acme_error \<Rightarrow> string) \<Rightarrow> test" where
  "self_error_works debug =
     (let expected = Acme_Other ''Test''; actual = error acme_text Acme_Io (InSelf (Acme_Other ''Test''))
      in prints_same debug acme_text expected actual)"

definition io_error_works :: "(io_error \<Rightarrow> string) \<Rightarrow> test" where
  "io_error_works debug =
     (let expected = IoCustom InvalidData ''Hallo''; actual = IoCustom InvalidData ''Hallo''
      in and_then (extract_error (error acme_text Acme_Io (InIo actual))) (prints_same debug io_text expected))"

definition anyhow_works :: "(acme_error \<Rightarrow> string) \<Rightarrow> test" where
  "anyhow_works debug =
     (let expected = Acme_Other ''Test''; actual = AnySelf (Acme_Other ''Test'')
      in prints_same debug acme_text expected (error acme_text Acme_Io (InAnyhow actual)))"

definition anyhow_io_works :: "(io_error \<Rightarrow> string) \<Rightarrow> test" where
  "anyhow_io_works debug =
     (let expected = IoSimple Other; actual = AnyIo (IoSimple Other)
      in and_then (extract_error (error acme_text Acme_Io (InAnyhow actual))) (prints_same debug io_text expected))"

definition anyhow_error_works :: "(io_error \<Rightarrow> string) \<Rightarrow> test" where
  "anyhow_error_works debug =
     (let expected = IoCustom Other ''Test''
      in and_then (extract_error (error acme_text Acme_Io (InAnyhow (AnyOther ''Test''))))
           (prints_same debug io_text expected))"

definition error_works :: "(io_error \<Rightarrow> string) \<Rightarrow> test" where
  "error_works debug =
     (let expected = IoCustom Other ''Test''
      in and_then (extract_error (error acme_text Acme_Io (InOther ''Test''))) (prints_same debug io_text expected))"

lemma error_tests_pass:
  "should_panic_extract_error = Ok ()" "self_error_works debug = Ok ()" "io_error_works debug' = Ok ()"
  "anyhow_works debug = Ok ()" "anyhow_io_works debug' = Ok ()" "anyhow_error_works debug' = Ok ()"
  "error_works debug' = Ok ()"
  by (simp_all add: should_panic_extract_error_def self_error_works_def io_error_works_def anyhow_works_def
      anyhow_io_works_def anyhow_error_works_def error_works_def)

section \<open>Configuration\<close>

text \<open>
  The tests of the listeners present a value token by token: a string that cannot be lent, a sequence.
  All tokens have to be read.
\<close>

definition all_read :: "toml list \<Rightarrow> (de_error, unit) outcome" where
  "all_read rest = (if rest = [] then Ok () else Err (Custom ''tokens remaining''))"

definition assert_de_tokens :: "listener \<Rightarrow> toml \<Rightarrow> test" where
  "assert_de_tokens value tokens = and_then (unwrap_result (de_listener all_read tokens)) (assert_eq value)"

definition listener_default_test :: test where
  "listener_default_test = assert_eq Disabled proxy_default"

definition deserialize_str_test :: test where
  "deserialize_str_test = (let listener = (Some ''test'', Disabled) in assert_de_tokens listener (T_Owned ''test''))"

definition deserialize_str_and_bool :: test where
  "deserialize_str_and_bool =
     also_test
       (let listener = (Some ''ip'', Enabled) in assert_de_tokens listener (T_Seq [T_Owned ''ip'', T_Bool True]))
       (let listener = (Some ''name'', Disabled) in assert_de_tokens listener (T_Seq [T_Owned ''name'', T_Bool False]))"

definition test_default_acme :: test where
  "test_default_acme = assert_eq DEFAULT_ACME default_acme"

lemma config_tests_pass:
  "listener_default_test = Ok ()" "deserialize_str_test = Ok ()" "deserialize_str_and_bool = Ok ()"
  "test_default_acme = Ok ()"
  by code_simp+

text \<open>
  The test of the preconfigured records builds a table of these three entries and then compares nothing.
  Each entry alone is read as the record it stands for; together, under one name, the last one remains.
\<close>

definition a_record_tokens :: "string \<times> toml" where
  "a_record_tokens = (''acme.example.com'', T_Map [(''A'', T_Seq [T_Int 100, T_Str ''1.1.1.1''])])"

definition cname_record_tokens :: "string \<times> toml" where
  "cname_record_tokens = (''acme.example.com'', T_Map [(''CNAME'', T_Seq [T_Int 1000, T_Str ''google.com''])])"

definition txt_record_tokens :: "string \<times> toml" where
  "txt_record_tokens = (''acme.example.com'', T_Map [(''TXT'', T_Seq [T_Int 200, T_Str ''Hallo Welt''])])"

definition records_token :: toml where
  "records_token = T_Map [a_record_tokens, cname_record_tokens, txt_record_tokens]"

lemma records_token_read:
  assumes "plain_add L" and "parse_name L ''acme.example.com'' = Ok n" and "parse_name L ''google.com'' = Ok g"
    and "\<And>rs d. rs_type rs = RT_CNAME \<Longrightarrow> add_rdata L rs d = (rs\<lparr>rs_data := [d]\<rparr>, True)"
  shows "de_records L (T_Map [a_record_tokens])
      = Ok [n\<lparr>fqdn := True\<rparr> \<mapsto> [RT_A \<mapsto> from_rdata (n\<lparr>fqdn := True\<rparr>) 100 (RD_A 0x01010101)]]"
    and "de_records L (T_Map [cname_record_tokens])
      = Ok [n\<lparr>fqdn := True\<rparr> \<mapsto> [RT_CNAME \<mapsto> from_rdata (n\<lparr>fqdn := True\<rparr>) 1000 (RD_CNAME g)]]"
    and "de_records L (T_Map [txt_record_tokens])
      = Ok [n\<lparr>fqdn := True\<rparr> \<mapsto> [RT_TXT \<mapsto> from_rdata (n\<lparr>fqdn := True\<rparr>) 200 (RD_TXT [''Hallo Welt''])]]"
    and "de_records L records_token = de_records L (T_Map [txt_record_tokens])"
proof -
  let ?n = "n\<lparr>fqdn := True\<rparr>"
  have one: "digit 1 = CHR ''1''" by code_simp
  have "octets 0x01010101 = [1, 1, 1, 1]" by (simp add: octets_def)
  then have "show_ipv4 0x01010101 = ''1.1.1.1''" by (simp add: show_ipv4_def show_octet_def one [simplified])
  then have ip: "parse_ipv4 ''1.1.1.1'' = Ok 0x01010101"
    using parse_show_ipv4 [of "0x01010101"] by simp
  have a: "visit_record_data L ?n [(''A'', T_Seq [T_Int 100, T_Str ''1.1.1.1''])] Map.empty
      = Ok [RT_A \<mapsto> from_rdata ?n 100 (RD_A 0x01010101)]"
    by (simp add: record_type_of_def parse_rdata_def empty_set_def from_rdata_def ip plain_addD [OF assms(1)])
  have c: "visit_record_data L ?n [(''CNAME'', T_Seq [T_Int 1000, T_Str ''google.com''])] Map.empty
      = Ok [RT_CNAME \<mapsto> from_rdata ?n 1000 (RD_CNAME g)]"
    by (simp add: record_type_of_def parse_rdata_def empty_set_def from_rdata_def assms(3,4))
  have t: "visit_record_data L ?n [(''TXT'', T_Seq [T_Int 200, T_Str ''Hallo Welt''])] Map.empty
      = Ok [RT_TXT \<mapsto> from_rdata ?n 200 (RD_TXT [''Hallo Welt''])]"
    by (simp add: record_type_of_def parse_rdata_def empty_set_def from_rdata_def plain_addD [OF assms(1)])
  show "de_records L (T_Map [a_record_tokens]) = Ok [?n \<mapsto> [RT_A \<mapsto> from_rdata ?n 100 (RD_A 0x01010101)]]"
    and "de_records L (T_Map [cname_record_tokens]) = Ok [?n \<mapsto> [RT_CNAME \<mapsto> from_rdata ?n 1000 (RD_CNAME g)]]"
    and "de_records L (T_Map [txt_record_tokens]) = Ok [?n \<mapsto> [RT_TXT \<mapsto> from_rdata ?n 200 (RD_TXT [''Hallo Welt''])]]"
    and "de_records L records_token = de_records L (T_Map [txt_record_tokens])"
    by (simp_all only: records_token_def a_record_tokens_def cname_record_tokens_def txt_record_tokens_def
        de_records.simps visit_records.simps de_record_data.simps a c t assms(2) map_err.simps and_then.simps
        prod.case fun_upd_upd)
qed

section \<open>Metrics\<close>

definition zero_metrics_page :: bytes where
  "zero_metrics_page =
     ''tcp_closed_connection_counter{endpoint=\"PROM\"} 0'' @ [lf] @
     ''http_status_counter{method=\"GET\",path=\"/metrics\",status=\"200\"} 4'' @ [lf] @
     ''tcp_open_connection_counter{endpoint=\"PROM\"} 0''"

definition test_remove_zero_metrics :: test where
  "test_remove_zero_metrics =
     (let expected = ''http_status_counter{method=\"GET\",path=\"/metrics\",status=\"200\"} 4'' @ [lf]
      in case remove_zero_metrics zero_metrics_page of
           Inr actual \<Rightarrow> assert_eq expected actual
         | Inl e \<Rightarrow> Panic ''called `Result::unwrap()` on an `Err` value'')"

text \<open>The trace of the error is left out; its text is the body of the answer.\<close>

definition test_internal_server_error_and_trace :: test where
  "test_internal_server_error_and_trace =
     (let error = ''This is a error''; actual = internal_server_error_and_trace error
      in assert_eq ''This is a error'' (rp_body actual))"

definition metrics_config_path_test :: test where
  "metrics_config_path_test =
     (let request = \<lparr>rq_method = ''GET'', rq_path = ''/test'', rq_headers = []\<rparr>;
          actual = config_as_str (metrics_config_path request)
      in assert_eq ''/test'' actual)"

definition metrics_config_new_test :: test where
  "metrics_config_new_test =
     (let request = \<lparr>rq_method = ''GET'', rq_path = ''/test'', rq_headers = []\<rparr>;
          actual = config_as_str (metrics_config_new ''404'' request)
      in assert_eq ''404'' actual)"

lemma metrics_tests_pass:
  "test_remove_zero_metrics = Ok ()" "test_internal_server_error_and_trace = Ok ()"
  "metrics_config_path_test = Ok ()" "metrics_config_new_test = Ok ()"
  by code_simp+

end
