(* ===== verification/Api_Proxy.thy ===== *)
theory Api_Proxy
  imports Config_Listener
begin

text \<open>
  \<^verbatim>\<open>src/api/proxy.rs\<close>: a connection that may begin with a PROXY protocol header. \<^verbatim>\<open>real_addr\<close> is a
  future that reads until the header is complete, and \<^verbatim>\<open>poll_read\<close> first hands out what was read
  beyond the header. The header parser (crate \<^verbatim>\<open>ppp\<close>) is a parameter.
\<close>

section \<open>Polling\<close>

datatype 'a poll = Ready 'a | Pending

text \<open>
  The connection underneath, \<^verbatim>\<open>T: AsyncRead\<close>, is the script of what its polls find: bytes that have
  arrived, nothing yet, or an error; after the script the stream has ended (a read of no bytes). A
  poll that finds nothing yet registers the caller's waker: the caller is polled again.
\<close>

datatype io_event = Chunk bytes | Not_ready | Io_failure io_error

fun stream_read :: "nat \<Rightarrow> io_event list \<Rightarrow> (io_error, bytes) outcome poll \<times> io_event list" where
  "stream_read n [] = (Ready (Ok []), [])"
| "stream_read n (Not_ready # es) = (Pending, es)"
| "stream_read n (Io_failure e # es) = (Ready (Err e), es)"
| "stream_read n (Chunk bs # es) =
     (if length bs \<le> n then (Ready (Ok bs), es)
      else (Ready (Ok (take n bs)), Chunk (drop n bs) # es))"

record proxy_stream =
  ps_stream :: "io_event list"
  ps_data :: "bytes option"
  ps_start :: nat

definition source :: "proxy_protocol \<Rightarrow> io_event list \<Rightarrow> proxy_stream" where
  "source proxy stream = \<lparr>ps_stream = stream,
     ps_data = (case proxy of Enabled \<Rightarrow> Some [] | Disabled \<Rightarrow> None), ps_start = 0\<rparr>"

section \<open>The header\<close>

type_synonym u16 = "16 word"

text \<open>
  The addresses a header carries, as \<^verbatim>\<open>format_header\<close> reads them: the source address and port of the
  two internet families; any other kind is only printed, and is given by its \<^verbatim>\<open>Debug\<close> text.
\<close>

datatype addresses =
    Addr_IPv4 "32 word" "u16 option"
  | Addr_IPv6 "128 word" "u16 option"
  | Addr_Other string

datatype socket_addr = V4 "32 word" u16 | V6 "128 word" u16 "32 word" "32 word"

datatype parsed = Header bytes addresses | Incomplete | Failure

definition unwrap_or_default :: "u16 option \<Rightarrow> u16" where
  "unwrap_or_default p = (case p of Some x \<Rightarrow> x | None \<Rightarrow> 0)"

definition format_header :: "addresses \<Rightarrow> (io_error, socket_addr) outcome" where
  "format_header a =
     (case a of
        Addr_IPv4 src port \<Rightarrow> Ok (V4 src (unwrap_or_default port))
      | Addr_IPv6 src port \<Rightarrow> Ok (V6 src (unwrap_or_default port) 0 0)
      | Addr_Other address \<Rightarrow> Err (IoCustom Other (''Cannot convert '' @ address @ '' to a SocketAddr'')))"

text \<open>
  A parser that returned more than it was given would overflow the subtraction; that is the panic of
  a checked build, and no property below lets it happen.
\<close>

definition get_header :: "(bytes \<Rightarrow> parsed) \<Rightarrow> proxy_stream \<Rightarrow>
    (io_error, socket_addr option) outcome poll \<times> proxy_stream" where
  "get_header parse ps =
     (case ps_data ps of
        None \<Rightarrow> (Ready (Panic ''Future cannot be pulled anymore''), ps)
      | Some data \<Rightarrow>
          (case parse data of
             Incomplete \<Rightarrow> (Pending, ps)
           | Failure \<Rightarrow> (Ready (Err (IoCustom InvalidData ''Proxy Parser Error'')), ps)
           | Header remaining res \<Rightarrow>
               if length data < length remaining
               then (Ready (Panic ''attempt to subtract with overflow''), ps)
               else (Ready (and_then (format_header res) (\<lambda>a. Ok (Some a))),
                     ps\<lparr>ps_start := length data - length remaining\<rparr>)))"

text \<open>
  \<^verbatim>\<open>poll_read_buf\<close> reads into the spare capacity of the buffer, growing it when it is full; the spare
  capacity of a buffer of a given length is the parameter \<open>room\<close>. One poll of the future returns,
  with the result, whether a waker was registered.
\<close>

definition real_addr_poll :: "(bytes \<Rightarrow> parsed) \<Rightarrow> (nat \<Rightarrow> nat) \<Rightarrow> proxy_stream \<Rightarrow>
    (io_error, socket_addr option) outcome poll \<times> proxy_stream \<times> bool" where
  "real_addr_poll parse room ps =
     (case ps_data ps of
        None \<Rightarrow> (Ready (Ok None), ps, False)
      | Some data \<Rightarrow>
          (case stream_read (room (length data)) (ps_stream ps) of
             (Pending, st) \<Rightarrow> (Pending, ps\<lparr>ps_stream := st\<rparr>, True)
           | (Ready (Ok bs), st) \<Rightarrow>
               let ps' = ps\<lparr>ps_stream := st, ps_data := Some (data @ bs)\<rparr> in
               if bs = [] then
                 (Ready (Err (IoCustom UnexpectedEof
                    ''Stream finished before end of proxy protocol header'')), ps', False)
               else (case get_header parse ps' of (r, ps'') \<Rightarrow> (r, ps'', False))
           | (Ready (Err e), st) \<Rightarrow> (Ready (Err e), ps\<lparr>ps_stream := st\<rparr>, False)
           | (Ready (Panic p), st) \<Rightarrow> (Ready (Panic p), ps\<lparr>ps_stream := st\<rparr>, False)))"

text \<open>
  The task that awaits the future is polled again after a registered waker has fired, or when another
  future of the same task has been woken: the HTTPS listener joins the header with the request for the
  certificate (\<^verbatim>\<open>try_join!\<close> polls both at every wake-up), the other listeners await the header alone. A
  task whose poll returned pending without registering a waker, and which nothing else wakes any more, is
  never polled again. \<open>wakes\<close> is the number of wake-ups by the other future that find the header future
  without a waker; it is 0 on a listener without TLS.
\<close>

datatype 'a task = Finished 'a | Stuck

lemma stream_read_pending: "stream_read n st = (Pending, st') \<Longrightarrow> st = Not_ready # st'"
  by (cases "(n, st)" rule: stream_read.cases) (auto split: if_splits)

lemma real_addr_poll_woken:
  assumes "real_addr_poll parse room ps = (r, ps', True)"
  shows "r = Pending \<and> ps_stream ps = Not_ready # ps_stream ps' \<and>
    ps' = ps\<lparr>ps_stream := ps_stream ps'\<rparr>"
  using assms
  by (auto simp: real_addr_poll_def Let_def dest: stream_read_pending
      split: option.splits prod.splits poll.splits outcome.splits if_splits)

function await_real_addr :: "(bytes \<Rightarrow> parsed) \<Rightarrow> (nat \<Rightarrow> nat) \<Rightarrow> nat \<Rightarrow> proxy_stream \<Rightarrow>
    (io_error, socket_addr option) outcome task \<times> proxy_stream" where
  "await_real_addr parse room wakes ps =
     (case real_addr_poll parse room ps of
        (Ready r, ps', _) \<Rightarrow> (Finished r, ps')
      | (Pending, ps', True) \<Rightarrow> await_real_addr parse room wakes ps'
      | (Pending, ps', False) \<Rightarrow>
          (case wakes of 0 \<Rightarrow> (Stuck, ps') | Suc n \<Rightarrow> await_real_addr parse room n ps'))"
  by pat_completeness auto
termination
  by (relation "measures [\<lambda>(parse, room, wakes, ps). wakes, \<lambda>(parse, room, wakes, ps). length (ps_stream ps)]")
    (auto dest: real_addr_poll_woken [OF sym])

declare await_real_addr.simps [simp del]

section \<open>Reading and writing\<close>

text \<open>
  \<^verbatim>\<open>ReadBuf\<close>: the bytes filled in so far and the capacity. \<^verbatim>\<open>put_slice\<close> panics when the bytes do not
  fit, slicing panics when the start is out of range.
\<close>

record read_buf =
  rb_filled :: bytes
  rb_capacity :: nat

definition put_slice :: "bytes \<Rightarrow> read_buf \<Rightarrow> (io_error, read_buf) outcome" where
  "put_slice bs b =
     (if length (rb_filled b) + length bs \<le> rb_capacity b then Ok (b\<lparr>rb_filled := rb_filled b @ bs\<rparr>)
      else Panic ''buf.len() must fit in remaining()'')"

definition inner_poll_read :: "io_event list \<Rightarrow> read_buf \<Rightarrow>
    (io_error, unit) outcome poll \<times> io_event list \<times> read_buf" where
  "inner_poll_read st b =
     (case stream_read (rb_capacity b - length (rb_filled b)) st of
        (Ready (Ok bs), st') \<Rightarrow> (Ready (Ok ()), st', b\<lparr>rb_filled := rb_filled b @ bs\<rparr>)
      | (Ready (Err e), st') \<Rightarrow> (Ready (Err e), st', b)
      | (Ready (Panic p), st') \<Rightarrow> (Ready (Panic p), st', b)
      | (Pending, st') \<Rightarrow> (Pending, st', b))"

definition proxy_poll_read :: "proxy_stream \<Rightarrow> read_buf \<Rightarrow>
    (io_error, unit) outcome poll \<times> proxy_stream \<times> read_buf" where
  "proxy_poll_read ps b =
     (let taken = ps\<lparr>ps_data := None\<rparr>;
          put = (case ps_data ps of
             None \<Rightarrow> Ok b
           | Some data \<Rightarrow>
               if length data < ps_start ps then Panic ''range start index out of range''
               else put_slice (drop (ps_start ps) data) b)
      in case put of
           Ok b' \<Rightarrow> (case inner_poll_read (ps_stream ps) b' of
             (r, st, b'') \<Rightarrow> (r, taken\<lparr>ps_stream := st\<rparr>, b''))
         | Err e \<Rightarrow> (Ready (Err e), taken, b)
         | Panic p \<Rightarrow> (Ready (Panic p), taken, b))"

text \<open>
  Writing, flushing and shutting down are handed to the connection
  underneath; \<open>act\<close> is what that connection does.
\<close>

definition proxy_delegate :: "(io_event list \<Rightarrow> 'r \<times> io_event list) \<Rightarrow> proxy_stream \<Rightarrow> 'r \<times> proxy_stream" where
  "proxy_delegate act ps = (case act (ps_stream ps) of (r, st) \<Rightarrow> (r, ps\<lparr>ps_stream := st\<rparr>))"

text \<open>Asking for the peer's address only reads; \<open>peer_addr\<close> is the answer of the connection underneath.\<close>

definition proxy_remote_addr :: "(io_event list \<Rightarrow> (io_error, socket_addr) outcome) \<Rightarrow> proxy_stream \<Rightarrow>
    (io_error, socket_addr) outcome" where
  "proxy_remote_addr peer_addr ps = peer_addr (ps_stream ps)"

text \<open>
  \<^verbatim>\<open>wrap\<close>: what becomes of an accepted connection. The client's address, when it is known, is only
  recorded; a failed header is logged, and the connection is served all the same.
\<close>

definition wrap_conn :: "(bytes \<Rightarrow> parsed) \<Rightarrow> (nat \<Rightarrow> nat) \<Rightarrow> nat \<Rightarrow> proxy_protocol \<Rightarrow>
    io_event list \<Rightarrow> (io_error, proxy_stream \<times> socket_addr option) outcome task" where
  "wrap_conn parse room wakes proxy stream =
     (case await_real_addr parse room wakes (source proxy stream) of
        (Finished (Ok (Some addr)), conn) \<Rightarrow> Finished (Ok (conn, Some addr))
      | (Finished (Ok None), conn) \<Rightarrow> Finished (Ok (conn, None))
      | (Finished (Err e), conn) \<Rightarrow> Finished (Ok (conn, None))
      | (Finished (Panic p), conn) \<Rightarrow> Finished (Panic p)
      | (Stuck, conn) \<Rightarrow> Stuck)"

text \<open>
  A reader as the callers of \<^verbatim>\<open>AsyncRead\<close> are: each attempt offers an empty buffer and takes what was
  filled in only when the poll is ready (pending means that no data was read); it stops at the end of
  the stream or at an error. The number of polls is bounded by \<open>fuel\<close>.
\<close>

fun read_to_end :: "nat \<Rightarrow> nat \<Rightarrow> proxy_stream \<Rightarrow> bytes" where
  "read_to_end 0 cap ps = []"
| "read_to_end (Suc fuel) cap ps =
     (case proxy_poll_read ps \<lparr>rb_filled = [], rb_capacity = cap\<rparr> of
        (Ready (Ok _), ps', b) \<Rightarrow>
          if rb_filled b = [] then [] else rb_filled b @ read_to_end fuel cap ps'
      | (Pending, ps', b) \<Rightarrow> read_to_end fuel cap ps'
      | (Ready _, ps', b) \<Rightarrow> [])"

section \<open>Facts\<close>

text \<open>The parser hands back the bytes after the header it has read.\<close>

definition suffix_parser :: "(bytes \<Rightarrow> parsed) \<Rightarrow> bool" where
  "suffix_parser parse \<longleftrightarrow> (\<forall>d rest a. parse d = Header rest a \<longrightarrow> ends_with rest d)"

lemma suffix_parserD:
  assumes "suffix_parser parse" and "parse d = Header rest a"
  shows "length rest \<le> length d" and "drop (length d - length rest) d = rest"
proof -
  obtain zs where "d = zs @ rest"
    using assms by (auto simp: suffix_parser_def ends_with_iff)
  then show "length rest \<le> length d" and "drop (length d - length rest) d = rest"
    by simp_all
qed

definition ps_ok :: "proxy_stream \<Rightarrow> bool" where
  "ps_ok ps \<longleftrightarrow> (case ps_data ps of None \<Rightarrow> True | Some d \<Rightarrow> ps_start ps \<le> length d)"

lemma ps_ok_source [simp]: "ps_ok (source proxy st)"
  by (simp add: ps_ok_def source_def split: proxy_protocol.split)

lemma format_header_no_panic [simp]: "format_header a \<noteq> Panic p"
  by (simp add: format_header_def split: addresses.split)

lemma stream_read_no_panic [simp]: "stream_read n st \<noteq> (Ready (Panic p), st')"
  by (cases "(n, st)" rule: stream_read.cases) auto

lemma get_header_ok:
  assumes "suffix_parser parse" and "ps_data ps \<noteq> None" and "ps_ok ps" and "get_header parse ps = (r, ps')"
  shows "ps_ok ps' \<and> r \<noteq> Ready (Panic p)"
proof -
  have "and_then (format_header a) (\<lambda>a. Ok (Some a)) \<noteq> Panic p" for a
    by (cases "format_header a") auto
  then show ?thesis
    using assms(2-4)
    by (auto simp: get_header_def ps_ok_def split: option.splits parsed.splits if_splits
        dest: suffix_parserD(1) [OF assms(1)])
qed

lemma real_addr_poll_ok:
  assumes "suffix_parser parse" and "ps_ok ps" and "real_addr_poll parse room ps = (r, ps', w)"
  shows "ps_ok ps' \<and> r \<noteq> Ready (Panic p)"
proof (cases "ps_data ps")
  case None
  with assms(2,3) show ?thesis by (auto simp: real_addr_poll_def)
next
  case (Some data)
  obtain q st where q: "stream_read (room (length data)) (ps_stream ps) = (q, st)" by fastforce
  let ?ps = "\<lambda>bs. ps\<lparr>ps_stream := st, ps_data := Some (data @ bs)\<rparr>"
  have ok: "ps_ok (?ps bs)" "ps_ok (ps\<lparr>ps_stream := st\<rparr>)" for bs
    using assms(2) Some by (auto simp: ps_ok_def)
  have hdr: "ps_ok x \<and> r' \<noteq> Ready (Panic p)" if "get_header parse (?ps bs) = (r', x)" for bs r' x
    by (rule get_header_ok [OF assms(1) _ ok(1) that]) simp
  show ?thesis
    using assms(3) Some q ok ok(1) [of "[]", simplified] hdr
    by (auto simp: real_addr_poll_def Let_def split: poll.splits outcome.splits if_splits prod.splits)
qed

lemma await_real_addr_ok:
  assumes "suffix_parser parse" and "ps_ok ps" and "await_real_addr parse room wakes ps = (r, ps')"
  shows "ps_ok ps' \<and> r \<noteq> Finished (Panic p)"
  using assms
proof (induction parse room wakes ps rule: await_real_addr.induct)
  case (1 parse room wakes ps)
  obtain q x w where q: "real_addr_poll parse room ps = (q, x, w)"
    using prod_cases3 by blast
  have x: "ps_ok x \<and> q \<noteq> Ready (Panic p)"
    using real_addr_poll_ok [OF 1(3,4) q] .
  note run = 1(5) [unfolded await_real_addr.simps [of parse room wakes ps] q]
  consider a where "q = Ready a" | "q = Pending" "w" | "q = Pending" "\<not> w" "wakes = 0"
    | n where "q = Pending" "\<not> w" "wakes = Suc n"
    by (cases q; cases w; cases wakes) auto
  then show ?case
  proof cases
    case 1
    then show ?thesis
      using run x by auto
  next
    case 2
    then show ?thesis
      using 1(1) [of q "(x, w)" x w] 1(3) run q x by simp
  next
    case 3
    then show ?thesis
      using run x by auto
  next
    case (4 n)
    then show ?thesis
      using 1(2) [of q "(x, w)" x w n] 1(3) run q x by simp
  qed
qed

lemma await_not_ready:
  assumes "ps_data ps = Some d" and "ps_stream ps = replicate n Not_ready @ st"
  shows "await_real_addr parse room wakes ps = await_real_addr parse room wakes (ps\<lparr>ps_stream := st\<rparr>)"
  using assms
proof (induction n arbitrary: ps)
  case 0
  then have "ps\<lparr>ps_stream := st\<rparr> = ps" by simp
  then show ?case by simp
next
  case (Suc n)
  then show ?case
    using Suc.IH [of "ps\<lparr>ps_stream := replicate n Not_ready @ st\<rparr>"]
    by (simp add: await_real_addr.simps [of parse room wakes ps] real_addr_poll_def)
qed

lemma await_chunk:
  assumes "d \<noteq> []" and "length d \<le> room (length acc)"
  shows "await_real_addr parse room wakes
      \<lparr>ps_stream = replicate n Not_ready @ Chunk d # es, ps_data = Some acc, ps_start = 0\<rparr>
    = (case get_header parse \<lparr>ps_stream = es, ps_data = Some (acc @ d), ps_start = 0\<rparr> of
         (Ready r, ps') \<Rightarrow> (Finished r, ps')
       | (Pending, ps') \<Rightarrow> (case wakes of 0 \<Rightarrow> (Stuck, ps') | Suc k \<Rightarrow> await_real_addr parse room k ps'))"
proof -
  let ?ps = "\<lparr>ps_stream = Chunk d # es, ps_data = Some acc, ps_start = 0\<rparr>"
  have "await_real_addr parse room wakes
      \<lparr>ps_stream = replicate n Not_ready @ Chunk d # es, ps_data = Some acc, ps_start = 0\<rparr>
    = await_real_addr parse room wakes ?ps"
    by (subst await_not_ready) auto
  then show ?thesis
    using assms
    by (cases "get_header parse \<lparr>ps_stream = es, ps_data = Some (acc @ d), ps_start = 0\<rparr>")
      (simp add: await_real_addr.simps [of parse room wakes ?ps] real_addr_poll_def Let_def split: poll.split)
qed

lemma wrap_enabled_chunk:
  assumes "d \<noteq> []" and "length d \<le> room 0"
    and "get_header parse \<lparr>ps_stream = es, ps_data = Some d, ps_start = 0\<rparr> = (Ready r, ps')"
  shows "await_real_addr parse room wakes (source Enabled (replicate n Not_ready @ Chunk d # es)) = (Finished r, ps')"
  using await_chunk [of d room "[]" parse wakes n es] assms by (simp add: source_def)

text \<open>
  A header that comes in pieces: each piece, after any number of polls that find nothing, fits into the
  spare capacity, and with it the header is still incomplete.
\<close>

fun in_pieces :: "(nat \<times> bytes) list \<Rightarrow> io_event list" where
  "in_pieces [] = []"
| "in_pieces ((n, d) # ds) = replicate n Not_ready @ Chunk d # in_pieces ds"

fun incomplete_pieces :: "(bytes \<Rightarrow> parsed) \<Rightarrow> (nat \<Rightarrow> nat) \<Rightarrow> bytes \<Rightarrow> (nat \<times> bytes) list \<Rightarrow> bool" where
  "incomplete_pieces parse room acc [] \<longleftrightarrow> True"
| "incomplete_pieces parse room acc ((n, d) # ds) \<longleftrightarrow> d \<noteq> [] \<and> length d \<le> room (length acc) \<and>
     parse (acc @ d) = Incomplete \<and> incomplete_pieces parse room (acc @ d) ds"

lemma incomplete_header:
  "parse acc = Incomplete \<Longrightarrow> ps_data ps = Some acc \<Longrightarrow> get_header parse ps = (Pending, ps)"
  by (simp add: get_header_def)

lemma pieces_stuck:
  assumes "incomplete_pieces parse room acc ds" and "length ds = Suc wakes"
  shows "fst (await_real_addr parse room wakes \<lparr>ps_stream = in_pieces ds @ es, ps_data = Some acc, ps_start = 0\<rparr>) = Stuck"
  using assms
proof (induction ds arbitrary: acc wakes)
  case Nil
  then show ?case by simp
next
  case (Cons nd ds)
  obtain n d where nd: "nd = (n, d)"
    by (cases nd)
  have d: "d \<noteq> []" "length d \<le> room (length acc)" "parse (acc @ d) = Incomplete" "incomplete_pieces parse room (acc @ d) ds"
    using Cons.prems(1) nd by simp_all
  show ?case
  proof (cases wakes)
    case 0
    then show ?thesis
      using Cons.prems(2) nd await_chunk [of d room acc, OF d(1,2), of parse wakes n es] d(3) by (simp add: incomplete_header)
  next
    case (Suc k)
    then have "fst (await_real_addr parse room k \<lparr>ps_stream = in_pieces ds @ es, ps_data = Some (acc @ d), ps_start = 0\<rparr>) = Stuck"
      using Cons.IH [OF d(4), of k] Cons.prems(2) by simp
    then show ?thesis
      using Suc nd await_chunk [of d room acc, OF d(1,2), of parse wakes n "in_pieces ds @ es"] d(3) by (simp add: incomplete_header)
  qed
qed

subsection \<open>What a reader gets\<close>

text \<open>The bytes a stream carries to a reader that waits out the pauses, until it ends or fails.\<close>

fun stream_bytes :: "io_event list \<Rightarrow> bytes" where
  "stream_bytes [] = []"
| "stream_bytes (Not_ready # es) = stream_bytes es"
| "stream_bytes (Io_failure e # es) = []"
| "stream_bytes (Chunk bs # es) = (if bs = [] then [] else bs @ stream_bytes es)"

fun polls_needed :: "io_event list \<Rightarrow> nat" where
  "polls_needed [] = 1"
| "polls_needed (Chunk bs # es) = Suc (length bs + polls_needed es)"
| "polls_needed (e # es) = Suc (polls_needed es)"

lemma polls_needed_pos: "0 < polls_needed es"
  by (induction es rule: polls_needed.induct) simp_all

lemma read_plain:
  assumes "polls_needed st \<le> fuel" and "0 < cap"
  shows "read_to_end fuel cap \<lparr>ps_stream = st, ps_data = None, ps_start = k\<rparr> = stream_bytes st"
  using assms
proof (induction fuel arbitrary: st)
  case 0
  then show ?case using polls_needed_pos [of st] by simp
next
  case (Suc fuel)
  show ?case
  proof (cases "(cap, st)" rule: stream_read.cases)
    case (4 n bs es)
    show ?thesis
    proof (cases "length bs \<le> cap")
      case True
      with 4 Suc show ?thesis
        by (auto simp: proxy_poll_read_def inner_poll_read_def)
    next
      case False
      then have "drop cap bs \<noteq> []" "take cap bs \<noteq> []"
        using Suc.prems by auto
      moreover have "read_to_end fuel cap \<lparr>ps_stream = Chunk (drop cap bs) # es, ps_data = None, ps_start = k\<rparr>
          = drop cap bs @ stream_bytes es"
        using Suc False 4 by (subst Suc.IH) auto
      ultimately show ?thesis
        using 4 False by (auto simp: proxy_poll_read_def inner_poll_read_def)
    qed
  qed (use Suc in \<open>auto simp: proxy_poll_read_def inner_poll_read_def\<close>)
qed

text \<open>The first poll after the header, on a stream that has something to say or has ended.\<close>

lemma read_leftover:
  assumes "k \<le> length d" and "rest = drop k d" and "length rest < cap"
    and "st = [] \<or> (\<exists>bs es. bs \<noteq> [] \<and> st = Chunk bs # es)" and "polls_needed st < fuel"
  shows "read_to_end fuel cap \<lparr>ps_stream = st, ps_data = Some d, ps_start = k\<rparr> = rest @ stream_bytes st"
proof -
  obtain f where f: "fuel = Suc f" "polls_needed st \<le> f"
    using assms(5) by (cases fuel) auto
  have cap: "0 < cap - length rest" using assms(3) by simp
  consider "st = []" | bs es where "bs \<noteq> []" "st = Chunk bs # es" using assms(4) by blast
  then show ?thesis
  proof cases
    case 1
    then show ?thesis
      using assms(1,2,3) f read_plain [of "[]" f cap k]
      by (auto simp: proxy_poll_read_def inner_poll_read_def put_slice_def)
  next
    case (2 bs es)
    let ?n = "cap - length rest"
    have rd: "read_to_end f cap \<lparr>ps_stream = if length bs \<le> ?n then es else Chunk (drop ?n bs) # es,
        ps_data = None, ps_start = k\<rparr>
      = (if length bs \<le> ?n then stream_bytes es else drop ?n bs @ stream_bytes es)"
      using f 2 cap by (subst read_plain) auto
    have "take ?n bs \<noteq> []" using cap 2 by simp
    then show ?thesis
      using assms(1,2,3) f 2 rd
      by (auto simp: proxy_poll_read_def inner_poll_read_def put_slice_def split: if_splits)
  qed
qed


lemma proxy_poll_read_panic:
  assumes "ps_ok ps"
  shows "(\<exists>p. fst (proxy_poll_read ps b) = Ready (Panic p)) \<longleftrightarrow>
    (\<exists>d. ps_data ps = Some d \<and> rb_capacity b < length (rb_filled b) + (length d - ps_start ps))"
  using assms
  by (auto simp: proxy_poll_read_def Let_def inner_poll_read_def put_slice_def ps_ok_def
      split: option.splits prod.splits poll.splits outcome.splits)

lemma proxy_delegate_ok: "ps_ok (snd (proxy_delegate act ps)) \<longleftrightarrow> ps_ok ps"
  by (cases "act (ps_stream ps)") (simp add: proxy_delegate_def ps_ok_def split: option.split)

section \<open>Properties\<close>

text \<open>An example parser: a header is the letters PROXY, an address byte and a dot.\<close>

definition example_parser :: "bytes \<Rightarrow> parsed" where
  "example_parser d =
     (if starts_with ''PROXY'' d then
        (if length d < 7 then Incomplete
         else if d ! 6 = CHR ''.'' then Header (drop 7 d) (Addr_IPv4 (of_char (d ! 5)) (Some 443))
         else Failure)
      else if length d < 5 then Incomplete else Failure)"

lemma suffix_example_parser: "suffix_parser example_parser"
  by (auto simp: suffix_parser_def example_parser_def ends_with_iff split: if_splits)
    (metis append_take_drop_id)

text \<open>
  C25: With a parser that returns a suffix of its input as the unread rest, waiting for the proxy
  header never panics and never refuses a connection: the task either never finishes, or hands over
  the connection, on which the next read panics exactly if the bytes read beyond the header do not
  fit into the reader's buffer.
\<close>

theorem proxy_wrap_safe:
  assumes "suffix_parser parse"
  shows "wrap_conn parse room wakes proxy stream = Stuck \<or>
    (\<exists>conn addr. wrap_conn parse room wakes proxy stream = Finished (Ok (conn, addr)) \<and>
      (\<forall>b. (\<exists>p. fst (proxy_poll_read conn b) = Ready (Panic p)) \<longleftrightarrow>
        (\<exists>d. ps_data conn = Some d \<and>
           rb_capacity b < length (rb_filled b) + (length d - ps_start conn))))"
proof -
  obtain r conn where r: "await_real_addr parse room wakes (source proxy stream) = (r, conn)" by fastforce
  have ok: "ps_ok conn" "\<And>p. r \<noteq> Finished (Panic p)"
    using await_real_addr_ok [OF assms ps_ok_source r] by blast+
  have "wrap_conn parse room wakes proxy stream = Stuck \<or>
      (\<exists>addr. wrap_conn parse room wakes proxy stream = Finished (Ok (conn, addr)))"
    using r ok(2)
    by (cases r) (auto simp: wrap_conn_def split: outcome.split option.split)
  then show ?thesis
    using proxy_poll_read_panic [OF ok(1)] by blast
qed

theorem proxy_wrap_safe_witness:
  "wrap_conn example_parser (\<lambda>_. 256) 0 Enabled [Chunk ''PROXY1''] = Stuck \<or>
    (\<exists>conn addr. wrap_conn example_parser (\<lambda>_. 256) 0 Enabled [Chunk ''PROXY1''] = Finished (Ok (conn, addr)))"
  using proxy_wrap_safe [OF suffix_example_parser, of "\<lambda>_. 256" 0 Enabled "[Chunk ''PROXY1'']"] by blast

text \<open>
  C22: When the header arrives complete in the first bytes of the connection, however late, and the
  stream then has more to say or has ended, a reader gets exactly the bytes after the header followed
  by the rest of the stream, and the client's address is the header's.
\<close>

theorem proxy_delivers:
  assumes "suffix_parser parse" and "d \<noteq> []" and "length d \<le> room 0" and "parse d = Header rest a"
    and "es = [] \<or> (\<exists>bs es'. bs \<noteq> [] \<and> es = Chunk bs # es')"
    and "length rest < cap" and "polls_needed es < fuel"
  shows "\<exists>conn. wrap_conn parse room wakes Enabled (replicate n Not_ready @ Chunk d # es)
      = Finished (Ok (conn, case format_header a of Ok addr \<Rightarrow> Some addr | _ \<Rightarrow> None))
    \<and> read_to_end fuel cap conn = rest @ stream_bytes es"
proof -
  let ?k = "length d - length rest"
  let ?conn = "\<lparr>ps_stream = es, ps_data = Some d, ps_start = ?k\<rparr>"
  note len = suffix_parserD [OF assms(1,4)]
  have "wrap_conn parse room wakes Enabled (replicate n Not_ready @ Chunk d # es)
      = Finished (Ok (?conn, case format_header a of Ok addr \<Rightarrow> Some addr | _ \<Rightarrow> None))"
    using assms(4) len(1) format_header_no_panic [of a]
    using wrap_enabled_chunk [of d room parse es, OF assms(2,3), of _ ?conn wakes n]
    by (cases "format_header a") (simp_all add: wrap_conn_def get_header_def)
  moreover have "read_to_end fuel cap ?conn = rest @ stream_bytes es"
    using assms(5,6,7) len by (intro read_leftover) auto
  ultimately show ?thesis by blast
qed

theorem proxy_delivers_witness:
  "\<exists>conn. wrap_conn example_parser (\<lambda>_. 256) 0 Enabled [Not_ready, Chunk ''PROXY1.Te'', Chunk ''st'']
      = Finished (Ok (conn, Some (V4 49 443))) \<and> read_to_end 9 16 conn = ''Test''"
  using proxy_delivers [OF suffix_example_parser, of "''PROXY1.Te''" "\<lambda>_. 256" "''Te''"
      "Addr_IPv4 49 (Some 443)" "[Chunk ''st'']" 16 9 0 1]
  by (simp add: example_parser_def format_header_def unwrap_or_default_def numeral_eq_Suc)

text \<open>
  C23: The task that waits for the header loses its wake-up. When the header comes in pieces and is still
  incomplete after one read more than there are wake-ups by the other future of the task, the task never
  finishes, whatever the client sends afterwards, even if it closes the connection: the header future
  returns pending without having registered a waker. On a listener without TLS there are no such
  wake-ups, and one incomplete read is enough; on the HTTPS listener they are those of the request for the
  certificate, which ends with its answer.
\<close>

theorem proxy_lost_wakeup:
  assumes "incomplete_pieces parse room [] ds" and "length ds = Suc wakes"
  shows "wrap_conn parse room wakes Enabled (in_pieces ds @ es) = Stuck"
proof -
  obtain conn where "await_real_addr parse room wakes (source Enabled (in_pieces ds @ es)) = (Stuck, conn)"
    using pieces_stuck [OF assms, of es]
    by (cases "await_real_addr parse room wakes (source Enabled (in_pieces ds @ es))") (simp add: source_def)
  then show ?thesis
    by (simp add: wrap_conn_def)
qed

theorem proxy_lost_wakeup_witness:
  "wrap_conn example_parser (\<lambda>_. 256) 0 Enabled [Chunk ''PROX'', Chunk ''Y1.Test''] = Stuck \<and>
   wrap_conn example_parser (\<lambda>_. 256) 1 Enabled [Chunk ''PRO'', Not_ready, Chunk ''X'', Chunk ''Y1.Test''] = Stuck"
  using proxy_lost_wakeup [of example_parser "\<lambda>_. 256" "[(0, ''PROX'')]" 0 "[Chunk ''Y1.Test'']"]
    proxy_lost_wakeup [of example_parser "\<lambda>_. 256" "[(0, ''PRO''), (1, ''X'')]" 1 "[Chunk ''Y1.Test'']"]
  by (simp add: example_parser_def)

text \<open>With one wake-up to spare, as on the HTTPS listener, the header is read to its end.\<close>

lemma proxy_woken:
  "wrap_conn example_parser (\<lambda>_. 256) 1 Enabled [Chunk ''PROX'', Chunk ''Y1.Test''] =
    Finished (Ok (\<lparr>ps_stream = [], ps_data = Some ''PROXY1.Test'', ps_start = 7\<rparr>, Some (V4 49 443)))"
  by (simp add: wrap_conn_def source_def await_real_addr.simps real_addr_poll_def get_header_def example_parser_def
      format_header_def unwrap_or_default_def Let_def)

text \<open>
  C24: When the header arrives complete and the stream is then silent for a moment, the bytes that came
  in with the header are lost: the first read puts them into the buffer of a poll that returns
  pending, and a reader gets only what the client sends later.
\<close>

theorem proxy_lost_data:
  assumes "suffix_parser parse" and "d \<noteq> []" and "length d \<le> room 0" and "parse d = Header rest a"
    and "length rest < cap" and "polls_needed es < fuel"
  shows "\<exists>conn addr. wrap_conn parse room wakes Enabled (Chunk d # Not_ready # es) = Finished (Ok (conn, addr))
    \<and> read_to_end fuel cap conn = stream_bytes es"
proof -
  let ?conn = "\<lparr>ps_stream = Not_ready # es, ps_data = Some d, ps_start = length d - length rest\<rparr>"
  note len = suffix_parserD [OF assms(1,4)]
  have "\<exists>addr. wrap_conn parse room wakes Enabled (Chunk d # Not_ready # es) = Finished (Ok (?conn, addr))"
    using assms(4) len(1) format_header_no_panic [of a]
      wrap_enabled_chunk [of d room parse "Not_ready # es", OF assms(2,3), of _ ?conn wakes 0]
    by (cases "format_header a") (simp_all add: wrap_conn_def get_header_def)
  moreover have "\<not> length d < length d - length rest"
    by simp
  then have "read_to_end fuel cap ?conn = stream_bytes es"
    using assms(5,6) len read_plain [of es "fuel - 1" cap "length d - length rest"]
    by (cases fuel) (simp_all add: proxy_poll_read_def inner_poll_read_def put_slice_def)
  ultimately show ?thesis by blast
qed

theorem proxy_lost_data_witness:
  "\<exists>conn addr. wrap_conn example_parser (\<lambda>_. 256) 0 Enabled [Chunk ''PROXY1.Te'', Not_ready, Chunk ''st'']
      = Finished (Ok (conn, addr)) \<and> read_to_end 9 16 conn = ''st''"
  using proxy_lost_data [OF suffix_example_parser, of "''PROXY1.Te''" "\<lambda>_. 256" "''Te''"
      "Addr_IPv4 49 (Some 443)" 16 "[Chunk ''st'']" 9 0]
  by (simp add: example_parser_def)

text \<open>
  With the proxy protocol disabled the connection is handed over at once, without an address,
  and a reader gets every byte of the stream, whatever its pauses.
\<close>

theorem proxy_disabled_transparent:
  assumes "0 < cap" and "polls_needed es \<le> fuel"
  shows "\<exists>conn. wrap_conn parse room wakes Disabled es = Finished (Ok (conn, None))
    \<and> read_to_end fuel cap conn = stream_bytes es"
proof -
  have "wrap_conn parse room wakes Disabled es = Finished (Ok (source Disabled es, None))"
    by (simp add: wrap_conn_def source_def await_real_addr.simps real_addr_poll_def)
  then show ?thesis
    using read_plain [OF assms(2,1), of 0] by (simp add: source_def)
qed

theorem proxy_disabled_transparent_witness:
  "\<exists>conn. wrap_conn example_parser (\<lambda>_. 256) 0 Disabled [Chunk ''GET /'', Not_ready, Chunk ''x'']
      = Finished (Ok (conn, None)) \<and> read_to_end 20 3 conn = ''GET /x''"
  using proxy_disabled_transparent [of 3 "[Chunk ''GET /'', Not_ready, Chunk ''x'']" 20] by simp

end
