(* ===== verification/Unit_Tests_Proxy.thy ===== *)
theory Unit_Tests_Proxy
  imports Unit_Tests Api_Proxy
begin

text \<open>
  The unit tests of \<^verbatim>\<open>src/api/proxy.rs\<close> on the model. The two that the repository ignores are the two
  the model does not finish: after an incomplete header the future is never woken again.
\<close>

section \<open>Tests that wait\<close>

definition then_test :: "'a task \<Rightarrow> ('a \<Rightarrow> test) \<Rightarrow> test task" where
  "then_test t f = (case t of Finished a \<Rightarrow> Finished (f a) | Stuck \<Rightarrow> Stuck)"

definition real_addr :: "(bytes \<Rightarrow> parsed) \<Rightarrow> (nat \<Rightarrow> nat) \<Rightarrow> proxy_stream \<Rightarrow>
    (io_error, socket_addr option) outcome task" where
  "real_addr parse room ps = fst (await_real_addr parse room 0 ps)"

text \<open>
  \<open>to_bytes\<close> is the library's printer of headers, of which the model sees the addresses. The tests rely
  on the printer and the parser as follows (documented: version 2 headers with IPv4 addresses have 28
  bytes, and fewer bytes are incomplete).
\<close>

definition generate_ipv4 :: addresses where
  "generate_ipv4 = Addr_IPv4 0x01010101 (Some 24034)"

definition header_format :: "(bytes \<Rightarrow> parsed) \<Rightarrow> (addresses \<Rightarrow> bytes) \<Rightarrow> bool" where
  "header_format parse to_bytes \<longleftrightarrow>
     (\<forall>rest. parse (to_bytes generate_ipv4 @ rest) = Header rest generate_ipv4) \<and>
     length (to_bytes generate_ipv4) = 28 \<and>
     parse (take 10 (to_bytes generate_ipv4)) = Incomplete \<and> parse ''invalid header'' = Failure"

section \<open>The tests\<close>

definition test_disabled :: "(bytes \<Rightarrow> parsed) \<Rightarrow> (nat \<Rightarrow> nat) \<Rightarrow> test task" where
  "test_disabled parse room =
     then_test (real_addr parse room (source Disabled []))
       (\<lambda>r. and_then (unwrap_result r) (\<lambda>addr. assert_that (addr = None)))"

definition test_header_parsing :: "(bytes \<Rightarrow> parsed) \<Rightarrow> (addresses \<Rightarrow> bytes) \<Rightarrow> (nat \<Rightarrow> nat) \<Rightarrow> nat \<Rightarrow> nat \<Rightarrow> test task" where
  "test_header_parsing parse to_bytes room fuel cap =
     (let header = to_bytes generate_ipv4 @ ''Test'';
          (address, proxy_stream) = await_real_addr parse room 0 (source Enabled [Chunk header])
      in then_test address (\<lambda>r.
           and_then (unwrap_result r) (\<lambda>addr. and_then (unwrap addr) (\<lambda>actual.
           also_test (assert_eq (V4 0x01010101 24034) actual)
             (let actual = read_to_end fuel cap proxy_stream in
              also_test (assert_eq 4 (length actual)) (assert_eq ''Test'' actual))))))"

definition test_incomplete :: "(bytes \<Rightarrow> parsed) \<Rightarrow> (addresses \<Rightarrow> bytes) \<Rightarrow> (nat \<Rightarrow> nat) \<Rightarrow> test task" where
  "test_incomplete parse to_bytes room =
     (let header = to_bytes generate_ipv4 in
      then_test (real_addr parse room (source Enabled [Chunk (take 10 header)])) (\<lambda>r.
        and_then (unwrap_err r) (\<lambda>actual.
        assert_eq (io_text actual) ''Stream finished before end of proxy protocol header'')))"

definition test_failure :: "(bytes \<Rightarrow> parsed) \<Rightarrow> (nat \<Rightarrow> nat) \<Rightarrow> test task" where
  "test_failure parse room =
     then_test (real_addr parse room (source Enabled [Chunk ''invalid header''])) (\<lambda>r.
       and_then (unwrap_err r) (\<lambda>actual. assert_eq (io_text actual) ''Proxy Parser Error''))"

definition test_io_error :: "(bytes \<Rightarrow> parsed) \<Rightarrow> (addresses \<Rightarrow> bytes) \<Rightarrow> (nat \<Rightarrow> nat) \<Rightarrow> test task" where
  "test_io_error parse to_bytes room =
     (let header = to_bytes generate_ipv4;
          proxy_stream = source Enabled [Chunk (take 10 header), Io_failure (IoCustom Other ''Error on IO'')]
      in then_test (real_addr parse room proxy_stream) (\<lambda>r.
           and_then (unwrap_err r) (\<lambda>error. assert_eq ''Error on IO'' (io_text error))))"

text \<open>Eight groups of sixteen bits, each one, make the address; the address of a local socket is only printed.\<close>

definition test_addresses :: "string \<Rightarrow> test" where
  "test_addresses unix =
     (let address = 0x00010001000100010001000100010001;
          addresses = Addr_IPv6 address (Some 24034)
      in and_then (unwrap_result (format_header addresses)) (\<lambda>actual.
         also_test (assert_eq (V6 address 24034 0 0) actual)
           (assert_that (case format_header (Addr_Other unix) of Err e \<Rightarrow> True | _ \<Rightarrow> False))))"

definition test_remote_addr_delegation :: test where
  "test_remote_addr_delegation =
     (let remote_addr = (\<lambda>_. Ok (V4 0x01010101 443));
          proxy_stream = source Enabled []
      in and_then (unwrap_result (proxy_remote_addr remote_addr proxy_stream)) (\<lambda>actual.
         assert_eq (V4 0x01010101 443) actual))"

text \<open>
  The connection of the last test checks what is written to it; what it does with a write, a flush and a
  shutdown are parameters.
\<close>

definition test_async_write_delegation :: "(io_event list \<Rightarrow> bool \<times> io_event list) \<Rightarrow>
    (bytes \<Rightarrow> io_event list \<Rightarrow> (io_error, unit) outcome \<times> io_event list) \<Rightarrow>
    (bytes list \<Rightarrow> io_event list \<Rightarrow> (io_error, nat) outcome \<times> io_event list) \<Rightarrow>
    (io_event list \<Rightarrow> (io_error, unit) outcome \<times> io_event list) \<Rightarrow>
    (io_event list \<Rightarrow> (io_error, unit) outcome \<times> io_event list) \<Rightarrow> test" where
  "test_async_write_delegation is_write_vectored write_all write_vectored flush shutdown =
     (let proxy_stream = source Disabled [] in
      also_test (assert_eq False (fst (proxy_delegate is_write_vectored proxy_stream)))
        (case proxy_delegate (write_all ''Test1'') proxy_stream of
           (r, proxy_stream) \<Rightarrow> and_then (unwrap_result r) (\<lambda>_.
             (case proxy_delegate (write_vectored [''Test2'']) proxy_stream of
                (r, _) \<Rightarrow> and_then (unwrap_result r) (\<lambda>size.
                  also_test (assert_eq 5 size)
                    (case proxy_delegate flush (source Disabled []) of
                       (r, proxy_stream) \<Rightarrow> and_then (unwrap_result r) (\<lambda>_.
                         unwrap_result (fst (proxy_delegate shutdown proxy_stream)))))))))"

section \<open>What the model says of them\<close>

lemma test_disabled_passes: "test_disabled parse room = Finished (Ok ())"
  by (simp add: test_disabled_def real_addr_def then_test_def source_def await_real_addr.simps real_addr_poll_def)

lemma test_failure_passes:
  assumes "header_format parse to_bytes" and "14 \<le> room 0"
  shows "test_failure parse room = Finished (Ok ())"
proof -
  have d: "''invalid header'' \<noteq> []" "length ''invalid header'' \<le> room 0" "parse ''invalid header'' = Failure"
    using assms by (simp_all add: header_format_def)
  have "await_real_addr parse room 0 (source Enabled [Chunk ''invalid header''])
    = (Finished (Err (IoCustom InvalidData ''Proxy Parser Error'')), \<lparr>ps_stream = [], ps_data = Some ''invalid header'', ps_start = 0\<rparr>)"
    using wrap_enabled_chunk [of _ room parse "[]", OF d(1,2), of _ _ 0 0] d(3) by (simp add: get_header_def)
  then show ?thesis
    by (simp add: test_failure_def real_addr_def then_test_def)
qed

lemma test_header_parsing_passes:
  assumes "header_format parse to_bytes" and "32 \<le> room 0" and "4 < cap" and "1 < fuel"
  shows "test_header_parsing parse to_bytes room fuel cap = Finished (Ok ())"
proof -
  let ?d = "to_bytes generate_ipv4 @ ''Test''"
  have d: "?d \<noteq> []" "length ?d \<le> room 0" "length (to_bytes generate_ipv4) = 28"
    and parse: "parse ?d = Header ''Test'' generate_ipv4"
    using assms(1,2) by (simp_all add: header_format_def)
  let ?ps = "\<lparr>ps_stream = [], ps_data = Some ?d, ps_start = 28\<rparr>"
  have run: "await_real_addr parse room 0 (source Enabled [Chunk ?d])
      = (Finished (Ok (Some (V4 0x01010101 24034))), ?ps)"
    using wrap_enabled_chunk [of _ room parse "[]", OF d(1,2), of _ _ 0 0] parse d(3)
    by (simp add: get_header_def generate_ipv4_def format_header_def unwrap_or_default_def)
  have "read_to_end fuel cap ?ps = ''Test'' @ stream_bytes []"
    using d(3) assms(3,4) by (intro read_leftover) simp_all
  then show ?thesis
    using run by (simp add: test_header_parsing_def then_test_def Let_def)
qed

text \<open>The two ignored tests.\<close>

lemma incomplete_header_stuck:
  assumes "header_format parse to_bytes" and "10 \<le> room 0"
  shows "test_incomplete parse to_bytes room = Stuck" and "test_io_error parse to_bytes room = Stuck"
proof -
  let ?d = "take 10 (to_bytes generate_ipv4)"
  have d: "?d \<noteq> []" "length ?d \<le> room 0" "parse ?d = Incomplete"
    using assms by (auto simp: header_format_def)
  have "fst (await_real_addr parse room 0 (source Enabled (Chunk ?d # es))) = Stuck" for es
    using pieces_stuck [of parse room "[]" "[(0, ?d)]" 0 es] d by (simp add: source_def)
  then show "test_incomplete parse to_bytes room = Stuck" and "test_io_error parse to_bytes room = Stuck"
    by (simp_all add: test_incomplete_def test_io_error_def real_addr_def then_test_def Let_def)
qed

lemma other_proxy_tests_pass: "test_addresses unix = Ok ()" "test_remote_addr_delegation = Ok ()"
  by (simp_all add: test_addresses_def test_remote_addr_delegation_def format_header_def unwrap_or_default_def
      proxy_remote_addr_def Let_def)

lemma test_async_write_delegation_passes:
  assumes "\<And>st. fst (vectored st) = False" and "\<And>st. write_all ''Test1'' st = (Ok (), st)"
    and "\<And>st. write_vectored [''Test2''] st = (Ok (length ''Test2''), st)"
    and "\<And>st. flush st = (Ok (), st)" and "\<And>st. shutdown st = (Ok (), st)"
  shows "test_async_write_delegation vectored write_all write_vectored flush shutdown = Ok ()"
  using assms(1) [of "[]"] assms(2-5)
  by (cases "vectored []") (simp add: test_async_write_delegation_def proxy_delegate_def source_def Let_def)

text \<open>A format of headers as the tests need it.\<close>

lemma header_format_example:
  "header_format
     (\<lambda>d. if starts_with (replicate 28 CHR ''H'') d then Header (drop 28 d) generate_ipv4
          else if length d < 14 then Incomplete else Failure)
     (\<lambda>_. replicate 28 CHR ''H'')"
  by (simp add: header_format_def numeral_eq_Suc)

end
