(* ===== verification/Unit_Tests_Store.thy ===== *)
theory Unit_Tests_Store
  imports Unit_Tests Api_Tls Dns_Authority
begin

text \<open>
  The unit tests of the facade on PostgreSQL, of \<^verbatim>\<open>src/api/tls.rs\<close> and of \<^verbatim>\<open>src/dns/authority.rs\<close> on the
  model. The tests of the facade are switched off in the repository; that of the certificates could not
  pass, because it stores a certificate without its domain.
\<close>

section \<open>The facade on PostgreSQL\<close>

definition unwrap_op :: "('s, 'e, 'a) op \<Rightarrow> ('s, unit, 'a) op" where
  "unwrap_op m = (\<lambda>s. case m s of (r, t) \<Rightarrow> (unwrap_result r, t))"

text \<open>A database after the migrations, on a network that delivers.\<close>

definition migrated_db :: "(nat \<Rightarrow> string \<Rightarrow> nat) \<Rightarrow> db" where
  "migrated_db ranks = \<lparr>certs = empty_store ranks, domains = empty_store ranks, acme_rows = [], network = []\<rparr>"

text \<open>The certificate of the tests; \<open>crt\<close> and \<open>key\<close> are the contents of two files.\<close>

definition tests_create_cert :: "env \<Rightarrow> string \<Rightarrow> string \<Rightarrow> (unit, cert) outcome" where
  "tests_create_cert env crt key =
     and_then (now (clock env)) (\<lambda>t.
     Ok \<lparr>c_id = ''1'', c_update = to_i64 (byte_order env) t, c_state = State_Ok, c_cert = Some crt,
         c_private = Some key, c_domain = ''acme-dns-rust.com''\<rparr>)"

definition assert_cert_eq :: "cert \<Rightarrow> cert \<Rightarrow> test" where
  "assert_cert_eq expected actual = assert_that (cert_eq expected actual)"

definition test_postgres_cert_facade :: "env \<Rightarrow> string \<Rightarrow> string \<Rightarrow> (db, unit, unit) op" where
  "test_postgres_cert_facade env crt key =
     bind_op (lift_outcome (tests_create_cert env crt key)) (\<lambda>cert.
     bind_op (unwrap_op (create_cert database_facade cert)) (\<lambda>_.
     bind_op (unwrap_op (first_cert database_facade)) (\<lambda>found.
     bind_op (lift_outcome (unwrap found)) (\<lambda>actual.
     bind_op (lift_outcome (assert_cert_eq cert actual)) (\<lambda>_.
     let cert = cert\<lparr>c_state := Updating\<rparr> in
     bind_op (unwrap_op (update_cert database_facade cert)) (\<lambda>_.
     bind_op (unwrap_op (first_cert database_facade)) (\<lambda>found.
     bind_op (lift_outcome (unwrap found)) (\<lambda>actual.
     lift_outcome (assert_cert_eq cert actual)))))))))"

definition test_postgres_domain_facade :: "(db, unit, unit) op" where
  "test_postgres_domain_facade =
     (let id = ''0e1f8297564a420eb260749d9f5ddd45'';
          domain = \<lparr>d_id = id, d_username = ''6f791bc4494846ba997562c85d03b940'',
            d_password = ''$2b$12$zTUOFwfVurULlALrEHdn7OK0it3BRNy43FOb2Qos1PGOPd/YCPVg.'',
            d_txt = Some ''TXT Content''\<rparr> in
     bind_op (unwrap_op (create_domain database_facade domain)) (\<lambda>_.
     bind_op (unwrap_op (find_domain_by_id database_facade id)) (\<lambda>found.
     bind_op (lift_outcome (unwrap found)) (\<lambda>actual.
     bind_op (lift_outcome (assert_eq domain actual)) (\<lambda>_.
     let domain = domain\<lparr>d_txt := Some ''Another TXT Content''\<rparr> in
     bind_op (unwrap_op (update_domain database_facade domain)) (\<lambda>_.
     bind_op (unwrap_op (find_domain_by_id database_facade id)) (\<lambda>found.
     bind_op (lift_outcome (unwrap found)) (\<lambda>actual.
     lift_outcome (assert_eq domain actual)))))))))"

lemma postgres_domain_facade_passes: "fst (test_postgres_domain_facade (migrated_db (\<lambda>_ _. 0))) = Ok ()"
  by code_simp

lemma postgres_cert_facade_fails:
  assumes "0 \<le> clock env"
  shows "is_panic (fst (test_postgres_cert_facade env crt key (migrated_db ranks)))"
proof -
  have "fst (db_create_cert c (migrated_db ranks)) = Err (Foreign_key_violation ''domain'')"
    if "c_id c = ''1''" "c_domain c = ''acme-dns-rust.com''" for c
    using that by (simp add: db_create_cert_def pool_execute_def request_def migrated_db_def exec_stmt.simps
        check_cert_def other_value_def empty_store_def lookup_def)
  then have "\<exists>t. db_create_cert c (migrated_db ranks) = (Err (Foreign_key_violation ''domain''), t)"
    if "c_id c = ''1''" "c_domain c = ''acme-dns-rust.com''" for c
    using that by (metis prod.collapse)
  then obtain t where "db_create_cert \<lparr>c_id = ''1'', c_update = word_of_int (clock env), c_state = State_Ok,
      c_cert = Some crt, c_private = Some key, c_domain = ''acme-dns-rust.com''\<rparr> (migrated_db ranks)
      = (Err (Foreign_key_violation ''domain''), t)"
    by fastforce
  then show ?thesis
    using assms by (simp add: test_postgres_cert_facade_def tests_create_cert_def bind_op_def lift_outcome_def
        unwrap_op_def)
qed

text \<open>With the domain stored before, the same requests pass.\<close>

lemma postgres_cert_facade_with_domain:
  "fst (test_postgres_cert_facade (db_env 0 9000) ''crt'' ''key''
     (snd (create_domain database_facade
        \<lparr>d_id = ''acme-dns-rust.com'', d_username = ''u'', d_password = ''p'', d_txt = None\<rparr>
        (migrated_db (\<lambda>_ _. 0))))) = Ok ()"
  by code_simp

section \<open>TLS\<close>

fun contains :: "string \<Rightarrow> string \<Rightarrow> bool" where
  "contains p [] = (p = [])"
| "contains p (c # cs) = (starts_with p (c # cs) \<or> contains p cs)"

lemma contains_append: "contains p (a @ p @ b)"
proof (induction a)
  case Nil
  show ?case
    by (cases p; cases b) (auto simp: starts_with_iff)
qed (simp_all)

definition test_create_server_config_alpn :: "tls_lib \<Rightarrow> cert \<Rightarrow> test" where
  "test_create_server_config_alpn T cert =
     and_then (unwrap_result (create_server_config T cert)) (\<lambda>config.
     (case sc_alpn config of
        a # b # _ \<Rightarrow> also_test (assert_eq ''h2'' a) (assert_eq ''http/1.1'' b)
      | _ \<Rightarrow> Panic ''index out of bounds''))"

definition unwrap_err_create_server_config :: "tls_lib \<Rightarrow> cert \<Rightarrow> (unit, string) outcome" where
  "unwrap_err_create_server_config T cert =
     (case create_server_config T cert of
        Err e \<Rightarrow> Ok e
      | Panic p \<Rightarrow> Panic p
      | Ok _ \<Rightarrow> Panic ''internal error: entered unreachable code'')"

definition panic_unwrap_create_server_config_error :: "tls_lib \<Rightarrow> cert \<Rightarrow> test" where
  "panic_unwrap_create_server_config_error T cert =
     should_panic (and_then (unwrap_err_create_server_config T cert) (\<lambda>_. Ok ()))"

definition test_empty_cert :: "tls_lib \<Rightarrow> cert \<Rightarrow> test" where
  "test_empty_cert T cert =
     (let cert = cert\<lparr>c_cert := None, c_private := None\<rparr> in
      and_then (unwrap_err_create_server_config T cert) (\<lambda>error.
      also_test (assert_that (contains (debug_cert T cert) error))
        (assert_that (contains ''has no Cert or Private'' error))))"

definition test_invalid_private :: "tls_lib \<Rightarrow> cert \<Rightarrow> test" where
  "test_invalid_private T cert =
     (let cert = cert\<lparr>c_private := Some ''WRONG''\<rparr> in
      and_then (unwrap_err_create_server_config T cert) (\<lambda>error.
      assert_that (contains ''Private Vec is empty'' error)))"

definition test_invalid_cert :: "tls_lib \<Rightarrow> cert \<Rightarrow> test" where
  "test_invalid_cert T cert =
     should_panic
       (let cert = cert\<lparr>c_cert := Some ''WRONG''\<rparr> in
        and_then (unwrap_err_create_server_config T cert) (\<lambda>error.
        assert_that (contains ''Cert is invalid'' error)))"

text \<open>
  What the tests rely on: the PEM reader finds a key and a chain in the two files and nothing in other
  text, and rustls checks neither.
\<close>

definition pem_files :: "tls_lib \<Rightarrow> string \<Rightarrow> string \<Rightarrow> bool" where
  "pem_files T crt key \<longleftrightarrow> (\<exists>keys. rsa_private_keys T key = Some keys \<and> keys \<noteq> []) \<and>
     pem_certs T crt \<noteq> None \<and> rsa_private_keys T ''WRONG'' = Some [] \<and> pem_certs T ''WRONG'' = Some [] \<and>
     (\<forall>chain k. check_single_cert T chain k = Ok ())"

lemma tls_tests_pass:
  assumes "pem_files T crt key" and "tests_create_cert env crt key = Ok cert"
  shows "test_create_server_config_alpn T cert = Ok ()"
    and "panic_unwrap_create_server_config_error T cert = Ok ()"
    and "test_empty_cert T cert = Ok ()" and "test_invalid_private T cert = Ok ()"
    and "test_invalid_cert T cert = Ok ()"
proof -
  have cert: "c_cert cert = Some crt" "c_private cert = Some key"
    using assms(2) by (auto simp: tests_create_cert_def elim!: and_then_OkE)
  obtain keys chain where T: "rsa_private_keys T key = Some keys" "keys \<noteq> []" "pem_certs T crt = Some chain"
      "rsa_private_keys T ''WRONG'' = Some []" "pem_certs T ''WRONG'' = Some []"
      "\<And>chain k. check_single_cert T chain k = Ok ()"
    using assms(1) unfolding pem_files_def by blast
  note defs = create_server_config_def unwrap_err_create_server_config_def pop_def
  show "test_create_server_config_alpn T cert = Ok ()"
    by (simp add: test_create_server_config_alpn_def defs cert T)
  show "panic_unwrap_create_server_config_error T cert = Ok ()"
    by (simp add: panic_unwrap_create_server_config_error_def defs cert T)
  show "test_empty_cert T cert = Ok ()"
    using contains_append [of "debug_cert T (cert\<lparr>c_cert := None, c_private := None\<rparr>)" "[]" "'' has no Cert or Private''"]
      contains_append [of "''has no Cert or Private''" "debug_cert T (cert\<lparr>c_cert := None, c_private := None\<rparr>) @ '' ''" "[]"]
    by (simp add: test_empty_cert_def defs Let_def)
  show "test_invalid_private T cert = Ok ()"
    by (simp add: test_invalid_private_def defs cert T Let_def)
  show "test_invalid_cert T cert = Ok ()"
    by (simp add: test_invalid_cert_def defs cert T Let_def)
qed

section \<open>Aliases\<close>

text \<open>The test asks the system resolver for \<^verbatim>\<open>example.com\<close>.\<close>

definition lookup_cname_works :: "dns_lib \<Rightarrow> test" where
  "lookup_cname_works L =
     and_then (unwrap_result (parse_name L ''test.domain.com'')) (\<lambda>name.
     and_then (unwrap_result (parse_name L ''example.com'')) (\<lambda>lookup.
     let record_set = from_rdata name 100 (RD_CNAME lookup) in
     (case lookup_cname L record_set of
        Ok (Some actual) \<Rightarrow>
          (case rs_data actual of
             record # _ \<Rightarrow>
               also_test (assert_eq RT_A (rdata_type record))
                 (case record of
                    RD_A ip \<Rightarrow>
                      and_then (unwrap_result (parse_ipv4 ''93.184.216.34'')) (\<lambda>expected. assert_eq expected ip)
                  | _ \<Rightarrow> Panic ''Resolved record is not of a type'')
           | [] \<Rightarrow> Panic ''no records in recordset'')
      | Panic p \<Rightarrow> Panic p
      | _ \<Rightarrow> Panic ''Could not resolve cname'')))"

lemma lookup_cname_works_passes:
  assumes "plain_add L" and "parse_name L ''test.domain.com'' = Ok n" and "parse_name L ''example.com'' = Ok g"
    and "lookup_host L (display_name L g @ '':80'') = Ok [IP4 0x5DB8D822]"
  shows "lookup_cname_works L = Ok ()"
proof -
  have digits: "digit 9 = CHR ''9''" "digit 3 = CHR ''3''" "digit 1 = CHR ''1''" "digit 8 = CHR ''8''"
    "digit 4 = CHR ''4''" "digit 2 = CHR ''2''" "digit 6 = CHR ''6''"
    by code_simp+
  have "octets 0x5DB8D822 = [93, 184, 216, 34]" by (simp add: octets_def)
  then have "show_ipv4 0x5DB8D822 = ''93.184.216.34''"
    by (simp add: show_ipv4_def show_octet_def digits digits(3) [simplified])
  then have ip: "parse_ipv4 ''93.184.216.34'' = Ok 0x5DB8D822"
    using parse_show_ipv4 [of "0x5DB8D822"] by simp
  show ?thesis
    by (simp add: lookup_cname_works_def assms lookup_cname_def from_rdata_def empty_set_def ip
        plain_addD [OF assms(1)] Let_def)
qed

end
