(* ===== verification/Spec2Isabelle.thy ===== *)
theory Spec2Isabelle
  imports Run Db_Requests System_Tls Manager_Completes Acme_Persist Metrics_Registry Unit_Tests_Proxy Unit_Tests_Store
begin

text \<open>
  A model of acme-dns-rust, an ACME DNS server in Rust, and what is proved about it.

  \<^bold>\<open>The program.\<close> One process runs an HTTP interface with up to three listeners (\<^verbatim>\<open>src/api\<close>), a DNS server
  (\<^verbatim>\<open>src/dns\<close>) and a certificate manager (\<^verbatim>\<open>src/cert.rs\<close>). They share one store of certificates and
  user domains, behind the traits \<^verbatim>\<open>CertFacade\<close> and \<^verbatim>\<open>DomainFacade\<close> (\<^verbatim>\<open>src/facade\<close>), which have an
  implementation on PostgreSQL and one in memory. The certificate manager starts a job on the
  certificate, puts the proof of the ACME challenge into the certificate's domain, and finishes the job;
  the DNS authority answers challenge queries with that proof and users' queries with their domains'
  records; the HTTPS listener is to offer the stored certificate (it cannot read its key, see below); the
  register route creates domains.

  \<^bold>\<open>Conventions.\<close> A function that returns \<^verbatim>\<open>Result\<close> yields an \<open>outcome\<close>: \<open>Ok\<close>, \<open>Err\<close>, or \<open>Panic\<close> with the
  message of a panic. An operation on a state is a function from the state to an outcome and the state
  it leaves (\<open>op\<close>); one that may run forever (\<open>dop\<close>) yields \<^const>\<open>None\<close> then. Structures are records,
  enumerations are datatypes, machine integers are words, strings are their UTF-8 bytes. An \<^verbatim>\<open>async\<close>
  function is modelled by the steps between which other tasks can run, where the order matters:
  requests to the database, polls of a stream, the awaits and locks of a connection that loads the
  certificate, the requests of a query and of the manager, whole facade operations elsewhere.

  \<^bold>\<open>Theories.\<close>
  \<open>Prelude\<close> holds outcomes and operations with their simplification rules, and facts on lists.
  \<open>Utf8\<close> and \<open>Ipv4\<close> are the standard library's decisions on texts and addresses, each with its inverse.
  \<open>Util\<close> is \<^verbatim>\<open>util.rs\<close>: the 64-bit reinterpretation, the clock, identifiers, and error conversion.
  \<open>Store\<close> is the hash map of the in-memory facade and, with its order of rows, a table of the database.
  \<open>Facade\<close> is the data of \<^verbatim>\<open>src/facade\<close>, the two traits as records of operations, the job protocol as a
  specification (\<open>start_spec\<close>, \<open>stop_spec\<close>) on an abstract state, and the locales \<open>domain_provider\<close>,
  \<open>cert_provider\<close> and \<open>facade_provider\<close> that say what an implementation promises.
  \<open>Cert_Jobs\<close> is the use of a facade as a step relation, with the invariant of its reachable states and the
  runs during which a job is held.
  \<open>Facade_Tables\<close>, \<open>Facade_Memory\<close> and \<open>Facade_Database\<close> are the two implementations, each an
  interpretation of the locales. The database has transactions, the constraints of the migrations and a
  network that may lose a request or its reply; two transactions can interleave. \<open>Db_Requests\<close> writes
  \<^verbatim>\<open>start_cert\<close> and \<^verbatim>\<open>stop_cert\<close> on the database as scripts of their requests, with any requests of other
  tasks in between.
  \<open>Acme_Persist\<close> is \<^verbatim>\<open>acme.rs\<close>, the key value store of the ACME client in the same database, with \<^verbatim>\<open>put\<close> also
  request by request.
  \<open>Cert_Manager\<close> is \<^verbatim>\<open>cert.rs\<close>, over any facade and any ACME client, with the relation of the states in which
  the server validates; \<open>Manager_Tasks\<close> cuts \<^verbatim>\<open>manage\<close> where it uses the facade or waits for the server.
  \<open>Manager_Completes\<close> shows that it carries a renewal out when nothing fails.
  \<open>Dns_Records\<close>, \<open>Dns_Authority\<close> and \<open>Dns_Handler\<close> are \<^verbatim>\<open>src/dns\<close>; \<open>Dns_Tasks\<close> cuts a query into its
  requests and interleaves it with the certificate jobs.
  \<open>Config_Listener\<close>, \<open>Config_Records\<close> and \<open>Config\<close> are \<^verbatim>\<open>src/config\<close>: the visitors over a tree of TOML values,
  the parser of IPv6 addresses, the defaults and the redacted log line.
  (In \<open>Api_Proxy\<close> the future that waits for the proxy header has a number of wake-ups by the other future
  of its task: none on a plain listener, those of the certificate request on HTTPS, where \<^verbatim>\<open>try_join!\<close> polls
  both.) \<open>Api_Proxy\<close>, \<open>Api_Tls\<close>, \<open>Api_Metrics\<close>, \<open>Api_Routes\<close> and \<open>Api_Serve\<close> are \<^verbatim>\<open>src/api\<close>;
  \<open>Api_Tls_Tasks\<close> cuts \<^verbatim>\<open>load_cert\<close> of \<^verbatim>\<open>tls.rs\<close> into its steps and interleaves many connections with the
  certificate jobs; a connection that fails drops its request for the certificate where it is.
  \<open>Metrics_Registry\<close> holds the lazy statics of \<^verbatim>\<open>handler.rs\<close>, \<^verbatim>\<open>metrics.rs\<close> and
  \<^verbatim>\<open>api/mod.rs\<close> and the registry they enter.
  \<open>System\<close> puts the pieces of the manager, of the queries and of the connections together with the
  HTTP requests, on one store, in any order, as a step relation and as a function of the events; its
  invariant rests on those of \<open>Cert_Jobs\<close>, \<open>Dns_Tasks\<close> and \<open>Api_Tls_Tasks\<close>. \<open>System_Served\<close> holds what the
  clients get from it, and \<open>System_Tls\<close> why they get no certificate. There is one process there, so one
  manager at a time, and it runs at every tick; as the program is written its loop skips every interval
  (\<open>spawn_never_manages\<close>).
  \<open>Run\<close> is \<^verbatim>\<open>lib.rs\<close> and \<^verbatim>\<open>main.rs\<close>: the setup, the race of the program's futures and the exit code.
  \<open>Unit_Tests\<close>, \<open>Unit_Tests_Proxy\<close> and \<open>Unit_Tests_Store\<close> hold the repository's own unit tests, as definitions
  that are run on the model: all pass except the two the repository ignores, which do not end, and the
  disabled one of the certificate table, which the foreign key refuses.

  \<^bold>\<open>What is shown.\<close> Both facades refine the job protocol: a job stays with its
  holder while its lease runs, over any interleaving of the other uses of the facade; an expired job is
  taken over and its first holder's late end changes nothing; in no reachable state of the facade in memory
  does a lookup that is unwrapped fail; the bound of a lease is exact at every 64-bit clock. Every state of the database that
  whole operations reach has at most one certificate, with its domain. Request by request, and with
  registrations, DNS answers and TLS connections in between, a start and an end of a job on the database each
  take effect at one moment between call and return, so the model of whole operations is faithful
  for a single manager; a start is all or nothing whatever is lost, an end that reports an error may have been
  stored, and two overlapping managers can both start a job or both create a certificate. The ACME store
  returns what was put, but two first puts of a key leave two rows. The manager's success means that the job is finished with the downloaded
  key and certificate, it returns if the server decides its challenges, a renewal without faults is carried
  out when the server does what it is asked, and on the database a job that fails anywhere stays \<open>Updating\<close> and blocks the next ones until its lease has run out. Every DNS query leaves the
  data as they are and is answered as \<open>answer\<close> says; what it asks of the facade depends on its first label
  only (a challenge: the certificate and its domain; a text: one domain; otherwise nothing); interleaved with
  jobs and registrations, a query is answered as the data are when its answer is complete. Whenever the
  manager asks the ACME server to validate, the DNS server answers with the proof. In any run of the manager,
  queries, connections and HTTP requests together, a query for the challenge is answered with the proof
  while the server looks, and a registered user is known to the DNS, within three pieces each. A connection
  is offered the configuration of the stored certificate or the last good one, and with any interleaving of
  connections and jobs one made of a certificate that was stored. But the manager's own certificates have
  P-384 keys, which the listener's reader of RSA keys does not find: in any run no configuration is ever
  made of them, and every connection is offered the empty one. A registration stores exactly the
  credentials it answers, and the DNS server then knows the domain; no HTTP request publishes a text; every
  answer is counted exactly once under its labels, and no metric is refused by the registry. The address
  records that are accepted are exactly the canonical ones; well-formed records and defaults come out of
  the configuration, and its log line hides the database address unless escapes change it. Several theorems
  show defects: skipped intervals, the lease of a renewal, jobs that are not given back, keys that are
  not read, the proxy header in pieces, bytes lost after the header, panics on a missing text record, on a
  message without queries and on two resolver settings, the update request without effect, and an escaped
  database address in the log.

  \<^bold>\<open>Parameters.\<close> What the program takes from libraries and from outside is an argument of the definitions:
  the clock, random values and bcrypt (\<open>env\<close>), the ACME client (\<open>acme\<close>), the DNS library and the system
  resolver (\<open>dns_lib\<close>), the proxy header parser, the PEM reader and the checks of rustls (\<open>tls_lib\<close>), the
  JSON serializer, the metrics library, the TOML parser, sockets and files (\<open>world\<close>). Where a theorem
  needs their documented behaviour it is a named hypothesis (\<open>suffix_parser\<close>, \<open>plain_add\<close>, \<open>tame_add\<close>,
  \<open>one_label\<close>, \<open>decides\<close>, \<open>obliging\<close>, \<open>rsa_sections_only\<close>, \<open>ec_keys\<close>), and the theorem's witness shows an instance.

  \<^bold>\<open>Bounds.\<close> The loop of \<open>validate\<close> is a partial function; \<open>rounds\<close> cuts it off after a number of rounds and
  has the same results, and one round is enough for a server that decides. Reading a stream to its end
  takes a number of polls as fuel; \<open>polls_needed\<close> many are enough. All other functions terminate.

  \<^bold>\<open>Not modelled.\<close> Tracing, the duration of requests, TLS and HTTP on a connection, the wire format of DNS
  messages, and the SQL engine beyond the statements the program sends. The remaining lines of the source
  are imports, trait signatures and type aliases without behaviour of their own, the integration test, and
  two unit tests: one that does not compile and one that only asks a new database to return a number.
\<close>

section \<open>Across components\<close>

text \<open>
  The certificate manager and the DNS server together on the database: whenever \<^verbatim>\<open>manage\<close> asks the ACME
  server to validate a challenge, and whatever other domains have been registered since, a DNS query for
  the challenge name is answered with exactly the proof of that challenge, unless a preconfigured record
  exists for the name or the store fails.
\<close>

theorem validation_finds_proof:
  assumes "tables_ok (s :: db)" and "manage_validates A database_facade env (s, w) c (s1, w1) chall"
    and "registered database_facade (c_domain c) s1 t"
    and "records auth name = None" and "labels name = ''_acme-challenge'' # rest" and "\<not> name_is_empty L name"
    and "qt \<noteq> RT_SOA"
  shows "fst (search L E database_facade auth name qt t)
      = Ok (Lookup (from_rdata name 100 (RD_TXT [dns_proof A w1 chall]))) \<or>
    (\<exists>e. fst (search L E database_facade auth name qt t) = Err (io_err E (sqlx_text E e)))"
proof -
  obtain d where s1: "tables_ok s1" "a_cert (tables_abs s1) = Some c"
      "a_domains (tables_abs s1) (c_domain c) = Some d" "d_txt d = Some (dns_proof A w1 chall)"
    using database.manage_validates_proof [OF assms(2,1)] by auto
  have t: "tables_ok t" "a_cert (tables_abs t) = Some c" "a_domains (tables_abs t) (c_domain c) = Some d"
    using database.registered_keeps [OF assms(3) s1(1)] s1(2,3) by simp_all
  have "answer L E auth (tables_abs t) name qt = Ok (Lookup (from_rdata name 100 (RD_TXT [dns_proof A w1 chall])))"
    using t(2,3) s1(4) assms(4-7) by (simp add: answer_def lookup_pre_def challenge_answer_def)
  then show ?thesis
    using database.search_answers [OF t(1), of L E auth name qt] by (metis answers_def prod.collapse)
qed

theorem validation_finds_proof_witness:
  "\<exists>c s1 w1 chall. manage_validates example_acme database_facade (db_env 0 9000)
      (example_db (renewed_cert State_Ok) [], 0) c (s1, w1) chall \<and>
    fst (search example_lib io_errors database_facade example_authority (example_name ''_acme-challenge'') RT_TXT s1)
      \<in> {Ok (Lookup (from_rdata (example_name ''_acme-challenge'') 100 (RD_TXT [''proof'']))),
         Err (IoCustom Other ''sqlx'')}"
proof -
  let ?s = "example_db (renewed_cert State_Ok) []"
  let ?c = "renewed_cert Updating"
  let ?d = "\<lparr>d_id = ''d'', d_username = ''u'', d_password = ''p'', d_txt = None\<rparr>"
  let ?s1 = "snd (start_cert database_facade (db_env 0 9000) ?s)"
  let ?s2 = "snd (find_domain_by_id database_facade ''d'' ?s1)"
  let ?up = "update_domain database_facade (?d\<lparr>d_txt := Some ''proof''\<rparr>) ?s2"
  have ok: "tables_ok ?s"
    by (rule example_db_ok) (simp add: renewed_cert_def)
  have "fst (start_cert database_facade (db_env 0 9000) ?s) = Ok (Some ?c)"
    by code_simp
  then have start: "start_cert database_facade (db_env 0 9000) ?s = (Ok (Some ?c), ?s1)"
    by (metis prod.collapse)
  have "fst (find_domain_by_id database_facade ''d'' ?s1) = Ok (Some ?d)"
    by code_simp
  then have find: "find_domain_by_id database_facade (c_domain ?c) ?s1 = (Ok (Some ?d), ?s2)"
    by (simp add: renewed_cert_def) (metis prod.collapse)
  have "fst ?up = Ok ()"
    by code_simp
  then have up: "?up = (Ok (), snd ?up)"
    by (metis prod.collapse)
  have loop: "loop_validates example_acme database_facade ?d (?s2, 0) (snd ?up, 0) ''chal''"
    by (rule loop_validates.now [of _ _ _ "[]"]) (use up in \<open>simp_all add: example_acme_def\<close>)
  have run: "manage_validates example_acme database_facade (db_env 0 9000) (?s, 0) ?c (snd ?up, 0) ''chal''"
    by (rule manage_validates.intros [OF start find _ _ loop]) (simp_all add: example_acme_def ret_def)
  show ?thesis
    using run validation_finds_proof [OF ok run registered.nothing, of example_authority
        "example_name ''_acme-challenge''" "[''acme'', ''example'', ''com'']" example_lib RT_TXT io_errors]
    by (intro exI [of _ ?c] exI [of _ "snd ?up"] exI [of _ "0 :: nat"] exI [of _ "''chal''"])
      (auto simp: example_authority_def example_name_def example_lib_def example_dns_def io_errors_def io_err_def
        example_acme_def)
qed

text \<open>
  The two facades agree: from states with the same domains and the same certificate, whatever
  \<^verbatim>\<open>start_cert\<close> returns from the database, the in-memory facade returns as well, and both end with
  the same domains and the same certificate.
\<close>

theorem facades_agree_on_start:
  assumes "tables_ok (s :: db)" and "tables_ok (m :: memory)" and "tables_abs s = tables_abs m"
    and "db_start_cert env s = (Ok cert, t)"
  shows "fst (start_cert memory_facade env m) = Ok cert \<and>
    tables_abs (snd (start_cert memory_facade env m)) = tables_abs t"
proof -
  have "start_spec env (tables_abs m) = (Ok cert, tables_abs t)"
    using database.start_Ok [of env s cert t] assms by simp
  then show ?thesis
    using mem_start_run [OF assms(2), of env] by (metis memory_facade_sel(7) prod.collapse prod.inject)
qed


theorem facades_agree_on_start_witness:
  "fst (start_cert memory_facade (db_env 0 9000)
      \<lparr>certs = certs (example_db (renewed_cert State_Ok) []), domains = domains (example_db (renewed_cert State_Ok) [])\<rparr>)
    = Ok (Some (renewed_cert Updating))"
proof -
  let ?s = "example_db (renewed_cert State_Ok) []"
  let ?m = "\<lparr>certs = certs ?s, domains = domains ?s\<rparr> :: memory"
  have s: "tables_ok ?s"
    by (rule example_db_ok) (simp add: renewed_cert_def)
  have abs: "tables_abs ?s = tables_abs ?m"
    by (simp add: tables_abs_def)
  have m: "tables_ok ?m"
    using s abs by (simp add: tables_ok_def)
  have "fst (db_start_cert (db_env 0 9000) ?s) = Ok (Some (renewed_cert Updating))"
    by code_simp
  then have "db_start_cert (db_env 0 9000) ?s
      = (Ok (Some (renewed_cert Updating)), snd (db_start_cert (db_env 0 9000) ?s))"
    by (metis prod.collapse)
  then show ?thesis
    using facades_agree_on_start [OF s m abs] by blast
qed

text \<open>
  A registered domain is served. After a registration on the database that is answered with 201, a DNS
  query whose first label is the answered identity is answered with no records and no error (the domain has
  no text yet), unless a preconfigured record exists for the name or the store fails; other registrations do
  not change that.
\<close>

theorem registered_domain_served:
  fixes s :: db
  assumes "tables_ok s" and "is_register req"
    and "routes json database_facade env req (s, m) = (Ok (Some res), (t, m'))" and "rp_status res = 201"
    and "registered database_facade (dto_id (dto_default env)) t u"
    and "records auth name = None" and "labels name = dto_id (dto_default env) # rest" and "\<not> name_is_empty L name"
    and "qt \<noteq> RT_SOA"
  shows "fst (search L E database_facade auth name qt u) = Ok Lookup_Empty \<or>
    (\<exists>e. fst (search L E database_facade auth name qt u) = Err (io_err E (sqlx_text E e)))"
proof -
  have reg: "register_handler json database_facade env s = (Ok res, t)"
    using assms(3) routes_register [OF assms(2), of json database_facade env s m]
    by (auto split: prod.splits outcome.splits)
  note run = database.register_run [OF assms(1) reg]
  obtain d where d: "domain_try_from env (dto_default env) = Ok d" "tables_abs t = add_domain d (tables_abs s)"
    using run assms(4) by auto
  have id: "d_id d = dto_id (dto_default env)" "d_txt d = None"
    using try_from_Ok [OF d(1)] by (simp_all add: dto_default_def)
  have u: "tables_ok u" "a_domains (tables_abs u) (dto_id (dto_default env)) = Some d"
    using database.registered_keeps [OF assms(5)] run d(2) id(1) by simp_all
  have "answer L E auth (tables_abs u) name qt = Ok Lookup_Empty"
    using u(2) id(2) assms(6-9)
    by (simp add: answer_def lookup_pre_def domain_answer_def dto_default_def uuid_utf8 uuid_not_challenge)
  then show ?thesis
    using database.search_answers [OF u(1), of L E auth name qt] by (metis answers_def prod.collapse)
qed

theorem registered_domain_served_witness:
  "fst (search example_lib io_errors database_facade example_authority (example_name (uuid 0)) RT_TXT
      (fst (snd (routes (\<lambda>_. Some ''json'') database_facade (db_env 0 9000)
          \<lparr>rq_method = ''POST'', rq_path = ''/register'', rq_headers = []\<rparr>
        (example_db (renewed_cert State_Ok) [], \<lparr>status_counter = (\<lambda>_. 0), req_histogram = (\<lambda>_. 0)\<rparr>)))))
    \<in> {Ok Lookup_Empty, Err (IoCustom Other ''sqlx'')}"
proof -
  let ?req = "\<lparr>rq_method = ''POST'', rq_path = ''/register'', rq_headers = []\<rparr>"
  let ?s = "example_db (renewed_cert State_Ok) []"
  let ?m = "\<lparr>status_counter = (\<lambda>_. 0), req_histogram = (\<lambda>_. 0)\<rparr>"
  let ?run = "(routes (\<lambda>_. Some ''json'') database_facade (db_env 0 9000) ?req) (?s, ?m)"
  have ok: "tables_ok ?s"
    by (rule example_db_ok) (simp add: renewed_cert_def)
  have reg: "is_register ?req"
    by code_simp
  have "fst ?run = Ok (Some \<lparr>rp_status = 201, rp_body = ''json''\<rparr>)"
    by code_simp
  then have run: "?run = (Ok (Some \<lparr>rp_status = 201, rp_body = ''json''\<rparr>), (fst (snd ?run), snd (snd ?run)))"
    by (metis prod.collapse)
  have id: "dto_id (dto_default (db_env 0 9000)) = uuid 0"
    by (simp add: dto_default_def db_env_def)
  have "records example_authority (example_name (uuid 0)) = None"
    by code_simp
  then show ?thesis
    using registered_domain_served [OF ok reg run _ registered.nothing, of example_authority
        "example_name (uuid 0)" "[''acme'', ''example'', ''com'']" example_lib RT_TXT io_errors] id
    by (auto simp: example_name_def example_lib_def example_dns_def io_errors_def io_err_def)
qed

end
